(* ===== verification/Rts_Prelude.thy ===== *)
theory Rts_Prelude
  imports Main "HOL-Library.Word" "HOL-Library.Multiset"
begin

text \<open>
  Shared basis of the development: the faults a run of the runtime can stop with, the
  state-and-fault actions every operation of the C code is written in, their rewrite rules
  (collections \<open>act_simps\<close> and \<open>act_dest\<close>), \<open>cilk_mutex\<close> (runtime/mutex.c), and generic lemmas
  on lists, sums over arrays and function updates.

  An operation of the C code that reads and writes the runtime's state is an \<^emph>\<open>action\<close>: a
  function from the state to either a fault or a result together with the new state.  A failed
  \<open>CILK_ASSERT\<close>, a \<open>CILK_ABORT\<close> and a call of \<open>cilkrts_bug\<close> or \<open>cilk_die_internal\<close> are faults
  that carry the source file and line, as the message of runtime/debug.h does; dereferencing
  \<open>NULL\<close>, indexing outside an array, and waiting for a lock that is held are faults too.  A theorem
  that an action returns \<open>Inr\<close> therefore shows that no assertion on that path fails.
\<close>

section \<open>Faults\<close>

datatype srcfile =
    Cilkred_map_c | Cilk2c_c | Cilk2c_inlined_c | Closure_c | Fiber_c | Fiber_pool_c
  | Global_c | Init_c | Internal_malloc_c | Readydeque_c | Reducer_impl_c | Scheduler_c

datatype fault =
    Assertion srcfile nat   \<comment> \<open>\<open>CILK_ASSERT\<close>, \<open>CILK_ASSERT_G\<close>, \<open>CILK_ABORT\<close>: file and line\<close>
  | Bug srcfile nat         \<comment> \<open>\<open>cilkrts_bug\<close>\<close>
  | Die srcfile nat         \<comment> \<open>\<open>CILK_CHECK\<close> and \<open>cilk_die_internal\<close>\<close>
  | Null_pointer            \<comment> \<open>dereference of \<open>NULL\<close> or of a freed object\<close>
  | Out_of_bounds           \<comment> \<open>array access outside its bounds\<close>
  | Blocked                 \<comment> \<open>the thread waits for a lock another holds\<close>
  | No_fuel                 \<comment> \<open>a loop bound of the model was used up\<close>

type_synonym addr = nat
type_synonym ('s, 'a) act = "'s \<Rightarrow> fault + 'a \<times> 's"

section \<open>Actions\<close>

named_theorems act_simps \<open>definitions of the action combinators\<close>
named_theorems act_dest \<open>inversion of a successful action\<close>

definition ret :: "'a \<Rightarrow> ('s, 'a) act" where
  "ret x s = Inr (x, s)"

definition fail :: "fault \<Rightarrow> ('s, 'a) act" where
  "fail e s = Inl e"

definition bindA :: "('s, 'a) act \<Rightarrow> ('a \<Rightarrow> ('s, 'b) act) \<Rightarrow> ('s, 'b) act" where
  "bindA m f s = (case m s of Inl e \<Rightarrow> Inl e | Inr (x, s') \<Rightarrow> f x s')"

definition thenA :: "('s, 'a) act \<Rightarrow> ('s, 'b) act \<Rightarrow> ('s, 'b) act" where
  "thenA m n = bindA m (\<lambda>_. n)"

definition gets :: "('s \<Rightarrow> 'a) \<Rightarrow> ('s, 'a) act" where
  "gets f s = Inr (f s, s)"

definition modify :: "('s \<Rightarrow> 's) \<Rightarrow> ('s, unit) act" where
  "modify f s = Inr ((), f s)"

text \<open>\<open>check c e\<close> is an assertion on the current state, \<open>whenA b m\<close> a one-armed conditional.\<close>

definition check :: "('s \<Rightarrow> bool) \<Rightarrow> fault \<Rightarrow> ('s, unit) act" where
  "check c e s = (if c s then Inr ((), s) else Inl e)"

definition whenA :: "bool \<Rightarrow> ('s, unit) act \<Rightarrow> ('s, unit) act" where
  "whenA b m = (if b then m else ret ())"

definition derefA :: "'a option \<Rightarrow> ('s, 'a) act" where
  "derefA p s = (case p of None \<Rightarrow> Inl Null_pointer | Some a \<Rightarrow> Inr (a, s))"

primrec repeatA :: "nat \<Rightarrow> ('s, unit) act \<Rightarrow> ('s, unit) act" where
  "repeatA 0 m = ret ()"
| "repeatA (Suc n) m = thenA m (repeatA n m)"

primrec forA :: "'i list \<Rightarrow> ('i \<Rightarrow> ('s, unit) act) \<Rightarrow> ('s, unit) act" where
  "forA [] f = ret ()"
| "forA (i # is) f = thenA (f i) (forA is f)"

text \<open>The part of a run that succeeded.\<close>

definition succeeds :: "fault + 'a \<Rightarrow> bool" where
  "succeeds r = (case r of Inl _ \<Rightarrow> False | Inr _ \<Rightarrow> True)"

lemmas act_defs =
  ret_def fail_def bindA_def thenA_def gets_def modify_def check_def whenA_def derefA_def

declare act_defs [act_simps]

subsection \<open>Running actions forwards\<close>

lemma run_bindA_Inr: "m s = Inr (x, s') \<Longrightarrow> bindA m f s = f x s'"
  by (simp add: bindA_def)

lemma run_thenA_Inr: "m s = Inr (x, s') \<Longrightarrow> thenA m n s = n s'"
  by (simp add: thenA_def bindA_def)

lemma run_bindA_Inl: "m s = Inl e \<Longrightarrow> bindA m f s = Inl e"
  by (simp add: bindA_def)

lemma run_thenA_Inl: "m s = Inl e \<Longrightarrow> thenA m n s = Inl e"
  by (simp add: thenA_def bindA_def)

lemma run_basic [simp]:
  "ret x s = Inr (x, s)"
  "fail e s = Inl e"
  "gets g s = Inr (g s, s)"
  "modify u s = Inr ((), u s)"
  "check c e s = (if c s then Inr ((), s) else Inl e)"
  "derefA (Some a) s = Inr (a, s)"
  "derefA None s = Inl Null_pointer"
  "whenA True m = m"
  "whenA False m = ret ()"
  by (simp_all add: act_defs)

lemma run_bind_basic [simp]:
  "bindA (ret x) f s = f x s"
  "bindA (gets g) f s = f (g s) s"
  "bindA (derefA (Some a)) f s = f a s"
  "bindA (fail e) f s = Inl e"
  "thenA (modify u) n s = n (u s)"
  "thenA (ret y) n s = n s"
  "thenA (check c e) n s = (if c s then n s else Inl e)"
  "thenA (fail e) n s = Inl e"
  by (simp_all add: act_defs)

lemma bindA_assoc: "bindA (bindA m f) g = bindA m (\<lambda>x. bindA (f x) g)"
  by (rule ext) (simp add: bindA_def split: sum.splits prod.splits)

lemma thenA_assoc: "thenA (thenA m n) k = thenA m (thenA n k)"
  by (simp add: thenA_def bindA_assoc)

lemma thenA_bindA: "bindA (thenA m n) f = thenA m (bindA n f)"
  by (simp add: thenA_def bindA_assoc)

lemma bindA_thenA: "thenA (bindA m f) n = bindA m (\<lambda>x. thenA (f x) n)"
  by (simp add: thenA_def bindA_assoc)

text \<open>Flattening nested sequences lets the simplifier run an action step by step.\<close>

lemmas act_flat = bindA_assoc thenA_assoc thenA_bindA bindA_thenA

text \<open>Running an action from the front: the simplifier works on the state and on the next step only,
  not inside the continuation.\<close>

lemma run_cong:
  "m = m' \<Longrightarrow> s = s' \<Longrightarrow> bindA m f s = bindA m' f s'"
  "m = m' \<Longrightarrow> s = s' \<Longrightarrow> thenA m n s = thenA m' n s'"
  by simp_all

lemma act_flat_run:
  "bindA (bindA m f) g s = bindA m (\<lambda>x. bindA (f x) g) s" "thenA (thenA m' n) k s = thenA m' (thenA n k) s"
  "bindA (thenA m'' n') f' s = thenA m'' (bindA n' f') s" "thenA (bindA m1 f1) n1 s = bindA m1 (\<lambda>x. thenA (f1 x) n1) s"
  by (simp_all add: act_flat)

lemma forA_append: "forA (xs @ ys) f = thenA (forA xs f) (forA ys f)"
proof (induction xs)
  case Nil
  show ?case by (rule ext) (simp add: thenA_def bindA_def)
next
  case (Cons x xs)
  then show ?case by (simp add: thenA_assoc)
qed

subsection \<open>Inverting successful runs\<close>

lemma bindA_Inr_iff:
  "bindA m f s = Inr r \<longleftrightarrow> (\<exists>x s'. m s = Inr (x, s') \<and> f x s' = Inr r)"
  by (auto simp: bindA_def split: sum.splits prod.splits)

lemma thenA_Inr_iff:
  "thenA m n s = Inr r \<longleftrightarrow> (\<exists>x s'. m s = Inr (x, s') \<and> n s' = Inr r)"
  by (simp add: thenA_def bindA_Inr_iff)

lemma check_Inr_iff: "check c e s = Inr r \<longleftrightarrow> c s \<and> r = ((), s)"
  by (auto simp: check_def)

lemma derefA_Inr_iff: "derefA p s = Inr r \<longleftrightarrow> p = Some (fst r) \<and> snd r = s"
  by (cases r) (auto simp: derefA_def split: option.splits)

lemma whenA_Inr_iff: "whenA b m s = Inr r \<longleftrightarrow> (if b then m s = Inr r else r = ((), s))"
  by (auto simp: whenA_def ret_def)

lemmas act_Inr_iff = bindA_Inr_iff thenA_Inr_iff check_Inr_iff derefA_Inr_iff whenA_Inr_iff

declare act_Inr_iff [act_dest]

subsection \<open>Invariants of loops\<close>

text \<open>
  An action keeps a relation between states when every successful run relates the state before to
  the state after.  Sequential composition and both loops keep every reflexive and transitive
  relation their parts keep; \<open>preserves P\<close> is the invariant form.
\<close>

definition preserves :: "('s \<Rightarrow> bool) \<Rightarrow> ('s, 'a) act \<Rightarrow> bool" where
  "preserves P m \<longleftrightarrow> (\<forall>s x s'. P s \<longrightarrow> m s = Inr (x, s') \<longrightarrow> P s')"

lemma preservesI: "(\<And>s x s'. P s \<Longrightarrow> m s = Inr (x, s') \<Longrightarrow> P s') \<Longrightarrow> preserves P m"
  by (auto simp: preserves_def)

lemma preservesD: "preserves P m \<Longrightarrow> P s \<Longrightarrow> m s = Inr (x, s') \<Longrightarrow> P s'"
  by (auto simp: preserves_def)

lemma preserves_bindA [intro]:
  "preserves P m \<Longrightarrow> (\<And>x. preserves P (f x)) \<Longrightarrow> preserves P (bindA m f)"
  unfolding preserves_def bindA_Inr_iff by blast

lemma preserves_thenA [intro]:
  "preserves P m \<Longrightarrow> preserves P n \<Longrightarrow> preserves P (thenA m n)"
  by (auto simp: thenA_def)

lemma preserves_basic [intro]:
  "preserves P (ret x)" "preserves P (fail e)" "preserves P (gets g)"
  "preserves P (check c e)" "preserves P (derefA p)"
  by (simp_all add: preserves_def check_Inr_iff derefA_Inr_iff)

lemma preserves_whenA [intro]: "(b \<Longrightarrow> preserves P m) \<Longrightarrow> preserves P (whenA b m)"
  by (cases b) (simp_all add: preserves_basic)

lemma preserves_repeatA [intro]: "preserves P m \<Longrightarrow> preserves P (repeatA n m)"
  by (induction n) auto

lemma preserves_forA [intro]: "(\<And>i. i \<in> set is \<Longrightarrow> preserves P (f i)) \<Longrightarrow> preserves P (forA is f)"
  by (induction "is") auto

lemma preserves_modify: "(\<And>s. P s \<Longrightarrow> P (f s)) \<Longrightarrow> preserves P (modify f)"
  by (simp add: preserves_def modify_def)

lemma preserves_fun: "(\<And>s x s'. m s = Inr (x, s') \<Longrightarrow> P s \<Longrightarrow> P s') \<Longrightarrow> preserves P m"
  by (auto simp: preserves_def)

lemma preserves_if: "(b \<Longrightarrow> preserves P m) \<Longrightarrow> (\<not> b \<Longrightarrow> preserves P n) \<Longrightarrow> preserves P (if b then m else n)"
  by simp

lemma preserves_case_prod: "(\<And>a b. preserves P (f a b)) \<Longrightarrow> preserves P (case p of (a, b) \<Rightarrow> f a b)"
  by (cases p) simp

lemma preserves_case_option:
  "preserves P m \<Longrightarrow> (\<And>a. preserves P (f a)) \<Longrightarrow> preserves P (case x of None \<Rightarrow> m | Some a \<Rightarrow> f a)"
  by (cases x) simp_all

lemmas preserves_intros =
  preserves_bindA preserves_thenA preserves_basic preserves_whenA preserves_repeatA preserves_forA
  preserves_if preserves_case_prod preserves_case_option

section \<open>Mutexes\<close>

text \<open>
  \<open>cilk_mutex\<close> of runtime/mutex.c is a POSIX spin lock; its state is whether it is held.
  \<open>cilk_mutex_lock\<close> on a held lock spins, so in a run of one thread it does not return: the fault
  \<open>Blocked\<close>.  A handler is run from states in which the locks it takes are free.
\<close>

type_synonym cilk_mutex = bool

definition cilk_mutex_init :: "cilk_mutex" where
  "cilk_mutex_init = False"

definition cilk_mutex_lock :: "('s \<Rightarrow> cilk_mutex) \<Rightarrow> (cilk_mutex \<Rightarrow> 's \<Rightarrow> 's) \<Rightarrow> ('s, unit) act" where
  "cilk_mutex_lock get put s = (if get s then Inl Blocked else Inr ((), put True s))"

definition cilk_mutex_unlock :: "(cilk_mutex \<Rightarrow> 's \<Rightarrow> 's) \<Rightarrow> ('s, unit) act" where
  "cilk_mutex_unlock put s = Inr ((), put False s)"

definition cilk_mutex_try :: "('s \<Rightarrow> cilk_mutex) \<Rightarrow> (cilk_mutex \<Rightarrow> 's \<Rightarrow> 's) \<Rightarrow> ('s, bool) act" where
  "cilk_mutex_try get put s = (if get s then Inr (False, s) else Inr (True, put True s))"

lemma cilk_mutex_lock_Inr_iff:
  "cilk_mutex_lock get put s = Inr r \<longleftrightarrow> \<not> get s \<and> r = ((), put True s)"
  by (auto simp: cilk_mutex_lock_def)

lemma cilk_mutex_unlock_run [simp]: "cilk_mutex_unlock put s = Inr ((), put False s)"
  by (simp add: cilk_mutex_unlock_def)

declare cilk_mutex_lock_Inr_iff [act_dest]

section \<open>Identifiers and constants\<close>

text \<open>Worker numbers are \<open>uint32_t\<close> in runtime/types.h; the reserved value \<open>NO_WORKER\<close> marks a lock
  without an owner.\<close>

type_synonym worker_id = nat

definition NO_WORKER :: worker_id where
  "NO_WORKER = 0xffffffff"

section \<open>Generic lemmas\<close>

lemma sum_fun_upd:
  fixes g :: "nat \<Rightarrow> 'a::ab_group_add"
  assumes "finite A" "i \<in> A"
  shows "(\<Sum>j\<in>A. (g(i := v)) j) = (\<Sum>j\<in>A. g j) - g i + v"
proof -
  have "(\<Sum>j\<in>A. (g(i := v)) j) = v + (\<Sum>j\<in>A - {i}. g j)"
    using assms by (subst sum.remove[of A i]) auto
  moreover have "(\<Sum>j\<in>A. g j) = g i + (\<Sum>j\<in>A - {i}. g j)"
    using assms by (subst sum.remove[of A i]) auto
  ultimately show ?thesis by simp
qed

lemma sum_if_upd:
  fixes g :: "nat \<Rightarrow> 'a::ab_group_add"
  assumes "finite A" "i \<in> A"
  shows "(\<Sum>j\<in>A. if j = i then v else g j) = (\<Sum>j\<in>A. g j) - g i + v"
proof -
  have "(\<Sum>j\<in>A. if j = i then v else g j) = (\<Sum>j\<in>A. (g(i := v)) j)"
    by (rule sum.cong) auto
  then show ?thesis using sum_fun_upd[OF assms] by simp
qed

lemma fun_upd_collapse [simp]:
  "(\<lambda>j. if j = i then x else if j = i then y else f j) = (\<lambda>j. if j = i then x else f j)"
  by (rule ext) simp

lemma distinct_butlast_last:
  "xs \<noteq> [] \<Longrightarrow> distinct xs \<Longrightarrow> last xs \<notin> set (butlast xs)"
  by (metis append_butlast_last_id distinct_butlast not_distinct_conv_prefix)

end
