(* ===== verification/Internal_Malloc.thy ===== *)
theory Internal_Malloc
  imports Rts_Prelude
begin

unbundle bit_operations_syntax

text \<open>
  The runtime's internal allocator (runtime/internal-malloc.c, runtime/internal-malloc-impl.h): a
  global pool of 32 KB chunks obtained from the system, one descriptor of seven size-class free
  lists for the global state and one per worker.  The record \<open>im_state\<close> holds the parts of
  \<open>struct global_state\<close> and of the workers' \<open>struct local_state\<close> that belong to the allocator; the
  layers above extend it.

  A free list is the list of its block addresses, head first: the C code chains the blocks through
  their first word (\<open>struct free_block\<close>).  The answers of \<open>mmap\<close> and of the C heap are inputs of a
  run, kept in \<open>os_mmap\<close> and \<open>os_heap\<close> (\<open>None\<close>, or no answer left, is failure), and the calls
  of \<open>munmap\<close> and \<open>free\<close> are recorded in \<open>os_unmapped\<close> and \<open>os_freed\<close>.

  The theory Malloc_Correct proves it correct.
\<close>

section \<open>Data\<close>

datatype im_tag = IM_UNCLASSIFIED | IM_CLOSURE | IM_FIBER | IM_REDUCER_MAP

record im_bucket =
  free_list :: "addr list"
  free_list_size :: nat
  free_list_limit :: nat
  b_allocated :: int
  max_allocated :: int
  b_wasted :: int

record cilk_im_desc =
  buckets :: "nat \<Rightarrow> im_bucket"
  used :: int
  num_malloc :: "im_tag \<Rightarrow> int"

text \<open>An entry of \<open>mem_list\<close>: not yet written since \<open>realloc\<close>, zeroed by \<open>calloc\<close>, or a chunk.\<close>

datatype mem_slot = Uninit | Null_slot | Chunk addr

record global_im_pool =
  mem_begin :: addr
  mem_end :: addr
  mem_list :: "mem_slot list"
  mem_list_index :: "32 word"
  mem_list_size :: "32 word"
  allocated :: nat
  wasted :: nat

record im_state =
  os_page_size :: nat
  page_shift :: nat
  im_pool :: global_im_pool
  im_desc :: cilk_im_desc
  im_lock :: cilk_mutex
  wim :: "worker_id \<Rightarrow> cilk_im_desc"
  os_mmap :: "addr option list"
  os_heap :: "addr option list"
  os_unmapped :: "(mem_slot \<times> nat) list"
  os_freed :: "addr list"

definition NUM_BUCKETS :: nat where "NUM_BUCKETS = 7"
definition MEM_LIST_SIZE :: "32 word" where "MEM_LIST_SIZE = 8"
definition INTERNAL_MALLOC_CHUNK_SIZE :: nat where "INTERNAL_MALLOC_CHUNK_SIZE = 32 * 1024"

definition bucket_sizes :: "nat list" where
  "bucket_sizes = [32, 64, 128, 256, 512, 1024, 2048]"

definition bucket_capacity :: "nat list" where
  "bucket_capacity = [256, 128, 64, 64, 32, 16, 8]"

definition SIZE_THRESH :: nat where
  "SIZE_THRESH = bucket_sizes ! (NUM_BUCKETS - 1)"

definition MAP_FAILED :: addr where "MAP_FAILED = 2 ^ 64 - 1"

section \<open>Helpers\<close>

definition is_page_aligned :: "nat \<Rightarrow> nat \<Rightarrow> bool" where
  "is_page_aligned shift sz \<longleftrightarrow> sz AND (2 ^ shift - 1) = 0"

text \<open>The scan of the size table; \<open>-1\<close> as an \<open>unsigned int\<close> when no bucket is large enough.\<close>

definition size_to_bucket :: "nat \<Rightarrow> nat" where
  "size_to_bucket sz =
     (case List.find (\<lambda>i. sz \<le> bucket_sizes ! i) [0..<NUM_BUCKETS] of
        Some i \<Rightarrow> i
      | None \<Rightarrow> 2 ^ 32 - 1)"

definition bucket_to_size :: "nat \<Rightarrow> nat" where
  "bucket_to_size which_bucket = bucket_sizes ! which_bucket"

definition add_to_free_list :: "addr \<Rightarrow> im_bucket \<Rightarrow> im_bucket" where
  "add_to_free_list p b = b\<lparr>free_list := p # free_list b, free_list_size := free_list_size b + 1\<rparr>"

definition remove_from_free_list :: "im_bucket \<Rightarrow> addr option \<times> im_bucket" where
  "remove_from_free_list b =
     (case free_list b of
        [] \<Rightarrow> (None, b)
      | mem # rest \<Rightarrow> (Some mem, b\<lparr>free_list := rest, free_list_size := free_list_size b - 1\<rparr>))"

definition init_bucket :: "nat \<Rightarrow> im_bucket" where
  "init_bucket i = \<lparr>free_list = [], free_list_size = 0, free_list_limit = bucket_capacity ! i,
     b_allocated = 0, max_allocated = 0, b_wasted = 0\<rparr>"

definition init_im_buckets :: "cilk_im_desc \<Rightarrow> cilk_im_desc" where
  "init_im_buckets d =
     d\<lparr>buckets := (\<lambda>i. if i < NUM_BUCKETS then init_bucket i else buckets d i),
       used := 0, num_malloc := (\<lambda>_. 0)\<rparr>"

definition free_bytes :: "cilk_im_desc \<Rightarrow> nat" where
  "free_bytes d = (\<Sum>i<NUM_BUCKETS. free_list_size (buckets d i) * bucket_sizes ! i)"

definition wasted_bytes :: "cilk_im_desc \<Rightarrow> int" where
  "wasted_bytes d = (\<Sum>i<NUM_BUCKETS. b_wasted (buckets d i))"

text \<open>Lenses: one bucket of the global descriptor, and of a worker's descriptor.\<close>

abbreviation upd_gbucket :: "nat \<Rightarrow> (im_bucket \<Rightarrow> im_bucket) \<Rightarrow> 'a im_state_scheme \<Rightarrow> 'a im_state_scheme" where
  "upd_gbucket i f s \<equiv> s\<lparr>im_desc := (im_desc s)\<lparr>buckets := (buckets (im_desc s))(i := f (buckets (im_desc s) i))\<rparr>\<rparr>"

abbreviation upd_wdesc :: "worker_id \<Rightarrow> (cilk_im_desc \<Rightarrow> cilk_im_desc) \<Rightarrow> 'a im_state_scheme \<Rightarrow> 'a im_state_scheme" where
  "upd_wdesc w f s \<equiv> s\<lparr>wim := (wim s)(w := f (wim s w))\<rparr>"

abbreviation upd_wbucket :: "worker_id \<Rightarrow> nat \<Rightarrow> (im_bucket \<Rightarrow> im_bucket) \<Rightarrow> 'a im_state_scheme \<Rightarrow> 'a im_state_scheme" where
  "upd_wbucket w i f s \<equiv>
     upd_wdesc w (\<lambda>d. d\<lparr>buckets := (buckets d)(i := f (buckets d i))\<rparr>) s"

section \<open>The global pool\<close>

definition malloc_from_system :: "nat \<Rightarrow> ('a im_state_scheme, addr) act" where
  "malloc_from_system sz s =
     (if is_page_aligned (page_shift s) sz then
        (case os_mmap s of
           Some a # rest \<Rightarrow>
             (if a = 0 then Inl (Die Internal_malloc_c 300) else Inr (a, s\<lparr>os_mmap := rest\<rparr>))
         | None # rest \<Rightarrow> Inr (MAP_FAILED, s\<lparr>os_mmap := rest\<rparr>)
         | [] \<Rightarrow> Inr (MAP_FAILED, s))
      else
        (case os_heap s of
           Some a # rest \<Rightarrow>
             (if a = 0 then Inl (Die Internal_malloc_c 300) else Inr (a, s\<lparr>os_heap := rest\<rparr>))
         | _ \<Rightarrow> Inl (Die Internal_malloc_c 300)))"

definition free_to_system :: "mem_slot \<Rightarrow> nat \<Rightarrow> ('a im_state_scheme, unit) act" where
  "free_to_system p sz s =
     (if is_page_aligned (page_shift s) sz then Inr ((), s\<lparr>os_unmapped := (p, sz) # os_unmapped s\<rparr>)
      else case p of
        Chunk a \<Rightarrow> Inr ((), s\<lparr>os_freed := a # os_freed s\<rparr>)
      | Null_slot \<Rightarrow> Inr ((), s)
      | Uninit \<Rightarrow> Inl Null_pointer)"

text \<open>\<open>realloc\<close> of \<open>mem_list\<close>: the added entries hold no defined value.\<close>

definition grow_mem_list :: "('a im_state_scheme, unit) act" where
  "grow_mem_list s =
     (let p = im_pool s; new_list_size = mem_list_size p + MEM_LIST_SIZE
      in case os_heap s of
           Some _ # rest \<Rightarrow>
             Inr ((), s\<lparr>os_heap := rest,
                        im_pool := p\<lparr>mem_list := mem_list p @ replicate (unat MEM_LIST_SIZE) Uninit,
                                     mem_list_size := new_list_size\<rparr>\<rparr>)
         | _ \<Rightarrow> Inl (Die Internal_malloc_c 330))"

definition extend_global_pool :: "('a im_state_scheme, unit) act" where
  "extend_global_pool =
     bindA (malloc_from_system INTERNAL_MALLOC_CHUNK_SIZE) (\<lambda>mem.
     thenA (modify (\<lambda>s. s\<lparr>im_pool := (im_pool s)\<lparr>
              mem_begin := mem, mem_end := mem + INTERNAL_MALLOC_CHUNK_SIZE,
              allocated := allocated (im_pool s) + INTERNAL_MALLOC_CHUNK_SIZE,
              mem_list_index := mem_list_index (im_pool s) + 1\<rparr>\<rparr>))
    (bindA (gets im_pool) (\<lambda>p.
     thenA (whenA (mem_list_size p \<le> mem_list_index p) grow_mem_list)
    (bindA (gets im_pool) (\<lambda>p.
     thenA (check (\<lambda>_. unat (mem_list_index p) < length (mem_list p)) Out_of_bounds)
           (modify (\<lambda>s. s\<lparr>im_pool := p\<lparr>mem_list :=
              (mem_list p)[unat (mem_list_index p) := Chunk (mem_begin p)]\<rparr>\<rparr>)))))))"

text \<open>Carving the next block of \<open>sz\<close> bytes off the current chunk.\<close>

definition pool_carve :: "nat \<Rightarrow> ('a im_state_scheme, addr) act" where
  "pool_carve sz =
     bindA (gets im_pool) (\<lambda>p.
     thenA (whenA (mem_end p < mem_begin p + sz)
              (thenA (modify (\<lambda>s. s\<lparr>im_pool := p\<lparr>wasted := wasted p + (mem_end p - mem_begin p)\<rparr>\<rparr>))
                     extend_global_pool))
    (bindA (gets im_pool) (\<lambda>p.
     thenA (modify (\<lambda>s. s\<lparr>im_pool := p\<lparr>mem_begin := mem_begin p + sz\<rparr>\<rparr>))
           (ret (mem_begin p)))))"

definition global_im_alloc :: "nat \<Rightarrow> nat \<Rightarrow> ('a im_state_scheme, addr) act" where
  "global_im_alloc sz which_bucket =
     thenA (check (\<lambda>_. sz \<le> SIZE_THRESH) (Assertion Internal_malloc_c 346))
    (thenA (check (\<lambda>_. which_bucket < NUM_BUCKETS) (Assertion Internal_malloc_c 347))
    (thenA (modify (\<lambda>s. s\<lparr>im_desc := (im_desc s)\<lparr>used := used (im_desc s) + int sz\<rparr>\<rparr>))
    (bindA (gets (\<lambda>s. remove_from_free_list (buckets (im_desc s) which_bucket))) (\<lambda>(mem, b).
     thenA (modify (upd_gbucket which_bucket (\<lambda>_. b)))
           (case mem of
              Some m \<Rightarrow> ret m
            | None \<Rightarrow> pool_carve sz)))))"

definition global_im_pool_destroy :: "('a im_state_scheme, unit) act" where
  "global_im_pool_destroy =
     bindA (gets (\<lambda>s. mem_list (im_pool s))) (\<lambda>ml.
     thenA (forA ml (\<lambda>mem. free_to_system mem INTERNAL_MALLOC_CHUNK_SIZE))
           (modify (\<lambda>s. s\<lparr>im_pool := (im_pool s)\<lparr>
              mem_list := [], mem_begin := 0, mem_end := 0,
              mem_list_index := -1, mem_list_size := 0\<rparr>\<rparr>)))"

text \<open>\<open>ffs\<close> of the C library: one more than the number of the lowest set bit.\<close>

definition ffs :: "nat \<Rightarrow> nat" where
  "ffs x = (case List.find (\<lambda>i. odd (x div 2 ^ i)) [0..<32] of Some i \<Rightarrow> i + 1 | None \<Rightarrow> 0)"

text \<open>The page size is asked for once, by the first global state of the process.\<close>

definition init_page_shift :: "('a im_state_scheme, unit) act" where
  "init_page_shift =
     bindA (gets page_shift) (\<lambda>shift.
     whenA (shift = 0)
       (thenA (modify (\<lambda>s. s\<lparr>page_shift := ffs (os_page_size s) - 1\<rparr>))
              (check (\<lambda>s. 2 ^ page_shift s = os_page_size s) (Assertion Internal_malloc_c 390))))"

definition alloc_mem_list :: "('a im_state_scheme, unit) act" where
  "alloc_mem_list s =
     (case os_heap s of
        Some _ # rest \<Rightarrow>
          Inr ((), s\<lparr>os_heap := rest, im_lock := cilk_mutex_init,
             im_pool := (im_pool s)\<lparr>mem_begin := 0, mem_end := 0,
               mem_list := replicate (unat MEM_LIST_SIZE) Null_slot,
               mem_list_index := -1, mem_list_size := MEM_LIST_SIZE,
               allocated := 0, wasted := 0\<rparr>,
             im_desc := (init_im_buckets (im_desc s))\<lparr>used := 0, num_malloc := (\<lambda>_. 0)\<rparr>\<rparr>)
      | _ \<Rightarrow> Inl (Die Internal_malloc_c 397))"

definition cilk_internal_malloc_global_init :: "('a im_state_scheme, unit) act" where
  "cilk_internal_malloc_global_init = thenA init_page_shift alloc_mem_list"

definition cilk_internal_malloc_global_destroy :: "('a im_state_scheme, unit) act" where
  "cilk_internal_malloc_global_destroy =
     thenA global_im_pool_destroy
    (forA [IM_UNCLASSIFIED, IM_CLOSURE, IM_FIBER, IM_REDUCER_MAP] (\<lambda>t.
       check (\<lambda>s. num_malloc (im_desc s) t = 0) (Assertion Internal_malloc_c 420)))"

section \<open>Per-worker allocation\<close>

text \<open>The body of the loop of \<open>im_allocate_batch\<close>: one block moves to the worker's list.\<close>

definition im_batch_body :: "worker_id \<Rightarrow> nat \<Rightarrow> nat \<Rightarrow> ('a im_state_scheme, unit) act" where
  "im_batch_body w sz bucket_index =
     bindA (global_im_alloc sz bucket_index) (\<lambda>p.
     modify (upd_wbucket w bucket_index (add_to_free_list p)))"

definition im_allocate_batch :: "worker_id \<Rightarrow> nat \<Rightarrow> nat \<Rightarrow> ('a im_state_scheme, unit) act" where
  "im_allocate_batch w sz bucket_index =
     (let batch_size = bucket_capacity ! bucket_index div 2
      in thenA (cilk_mutex_lock im_lock (\<lambda>b s. s\<lparr>im_lock := b\<rparr>))
        (thenA (repeatA batch_size (im_batch_body w sz bucket_index))
        (thenA (cilk_mutex_unlock (\<lambda>b s. s\<lparr>im_lock := b\<rparr>))
               (modify (upd_wbucket w bucket_index (\<lambda>b.
                  let a = b_allocated b + int batch_size
                  in b\<lparr>b_allocated := a,
                       max_allocated := (if a > max_allocated b then a else max_allocated b)\<rparr>))))))"

text \<open>One pass of the loop of \<open>im_free_batch\<close>; the loop breaks when the worker's list is empty.\<close>

primrec im_free_loop :: "nat \<Rightarrow> worker_id \<Rightarrow> nat \<Rightarrow> nat \<Rightarrow> ('a im_state_scheme, unit) act" where
  "im_free_loop 0 w sz i = ret ()"
| "im_free_loop (Suc n) w sz i =
     bindA (gets (\<lambda>s. remove_from_free_list (buckets (wim s w) i))) (\<lambda>(mem, b).
       case mem of
         None \<Rightarrow> ret ()
       | Some m \<Rightarrow>
           thenA (modify (upd_wbucket w i (\<lambda>_. b\<lparr>b_allocated := b_allocated b - 1\<rparr>)))
          (thenA (modify (upd_gbucket i (add_to_free_list m)))
          (thenA (modify (\<lambda>s. s\<lparr>im_desc := (im_desc s)\<lparr>used := used (im_desc s) - int sz\<rparr>\<rparr>))
                 (im_free_loop n w sz i))))"

definition im_free_batch :: "worker_id \<Rightarrow> nat \<Rightarrow> nat \<Rightarrow> ('a im_state_scheme, unit) act" where
  "im_free_batch w sz which_bucket =
     thenA (cilk_mutex_lock im_lock (\<lambda>b s. s\<lparr>im_lock := b\<rparr>))
    (thenA (im_free_loop (bucket_capacity ! which_bucket div 2) w sz which_bucket)
           (cilk_mutex_unlock (\<lambda>b s. s\<lparr>im_lock := b\<rparr>)))"

text \<open>\<open>remove_from_free_list\<close> on a bucket of the worker.\<close>

definition worker_remove :: "worker_id \<Rightarrow> nat \<Rightarrow> ('a im_state_scheme, addr option) act" where
  "worker_remove w i =
     bindA (gets (\<lambda>s. remove_from_free_list (buckets (wim s w) i))) (\<lambda>(mem, b).
     thenA (modify (upd_wbucket w i (\<lambda>_. b)))
           (ret mem))"

definition cilk_internal_malloc :: "worker_id \<Rightarrow> nat \<Rightarrow> im_tag \<Rightarrow> ('a im_state_scheme, addr) act" where
  "cilk_internal_malloc w sz tag =
     (let which_bucket = size_to_bucket sz in
      if NUM_BUCKETS \<le> which_bucket then malloc_from_system sz
      else
        (let csize = bucket_to_size which_bucket in
         thenA (modify (upd_wdesc w (\<lambda>d. d\<lparr>used := used d + int sz,
                  num_malloc := (num_malloc d)(tag := num_malloc d tag + 1)\<rparr>)))
        (thenA (modify (upd_wbucket w which_bucket (\<lambda>b. b\<lparr>b_wasted := b_wasted b + int (csize - sz)\<rparr>)))
        (bindA (worker_remove w which_bucket) (\<lambda>mem.
         case mem of
           Some m \<Rightarrow> ret m
         | None \<Rightarrow>
             thenA (im_allocate_batch w csize which_bucket)
            (bindA (worker_remove w which_bucket) (\<lambda>mem.
             case mem of
               Some m \<Rightarrow> ret m
             | None \<Rightarrow> fail (Assertion Internal_malloc_c 498))))))))"

text \<open>
  The \<open>while\<close> loop of \<open>cilk_internal_free\<close>.  Every pass moves at least one block when the list
  is longer than its limit, so the length of the list bounds the number of passes.
\<close>

primrec im_trim :: "nat \<Rightarrow> worker_id \<Rightarrow> nat \<Rightarrow> nat \<Rightarrow> ('a im_state_scheme, unit) act" where
  "im_trim 0 w csize i =
     bindA (gets (\<lambda>s. buckets (wim s w) i)) (\<lambda>b.
       if free_list_limit b < free_list_size b then fail No_fuel else ret ())"
| "im_trim (Suc fuel) w csize i =
     bindA (gets (\<lambda>s. buckets (wim s w) i)) (\<lambda>b.
       if free_list_limit b < free_list_size b
       then thenA (im_free_batch w csize i) (im_trim fuel w csize i) else ret ())"

definition cilk_internal_free :: "worker_id \<Rightarrow> addr \<Rightarrow> nat \<Rightarrow> im_tag \<Rightarrow> ('a im_state_scheme, unit) act" where
  "cilk_internal_free w p sz tag =
     (if SIZE_THRESH < sz then free_to_system (Chunk p) sz
      else
        (let which_bucket = size_to_bucket sz in
         thenA (modify (upd_wdesc w (\<lambda>d. d\<lparr>used := used d - int sz,
                  num_malloc := (num_malloc d)(tag := num_malloc d tag - 1)\<rparr>)))
        (thenA (check (\<lambda>_. which_bucket < NUM_BUCKETS) (Assertion Internal_malloc_c 526))
           (let csize = bucket_to_size which_bucket in
            thenA (modify (upd_wbucket w which_bucket (\<lambda>b.
                     add_to_free_list p (b\<lparr>b_wasted := b_wasted b - int (csize - sz)\<rparr>))))
           (bindA (gets (\<lambda>s. free_list_size (buckets (wim s w) which_bucket))) (\<lambda>fuel.
              im_trim fuel w csize which_bucket))))))"

text \<open>Freeing after the workers have stopped: no lock and no check of the bucket number.\<close>

definition cilk_internal_free_global :: "addr \<Rightarrow> nat \<Rightarrow> im_tag \<Rightarrow> ('a im_state_scheme, unit) act" where
  "cilk_internal_free_global p sz tag =
     (let which_bucket = size_to_bucket sz in
      thenA (check (\<lambda>_. which_bucket < NUM_BUCKETS) Out_of_bounds)
     (thenA (modify (upd_gbucket which_bucket (add_to_free_list p)))
            (modify (\<lambda>s. s\<lparr>im_desc := (im_desc s)\<lparr>
               num_malloc := (num_malloc (im_desc s))(tag := num_malloc (im_desc s) tag - 1),
               used := used (im_desc s) - int (bucket_to_size which_bucket)\<rparr>\<rparr>))))"

definition cilk_internal_malloc_per_worker_init :: "worker_id \<Rightarrow> ('a im_state_scheme, unit) act" where
  "cilk_internal_malloc_per_worker_init w = modify (upd_wdesc w init_im_buckets)"

section \<open>Checks and termination\<close>

definition workers_used_and_free :: "worker_id list \<Rightarrow> ('a im_state_scheme, int) act" where
  "workers_used_and_free ws =
     bindA (gets (\<lambda>s. \<Sum>w\<leftarrow>ws. used (wim s w))) (\<lambda>worker_used.
     bindA (gets (\<lambda>s. \<Sum>w\<leftarrow>ws. int (free_bytes (wim s w)))) (\<lambda>worker_free.
     bindA (gets (\<lambda>s. \<Sum>w\<leftarrow>ws. wasted_bytes (wim s w))) (\<lambda>worker_wasted.
     thenA (check (\<lambda>_. 0 \<le> worker_used \<and> 0 \<le> worker_wasted) (Assertion Internal_malloc_c 133))
           (ret (worker_used + worker_free + worker_wasted)))))"

definition internal_malloc_global_check :: "worker_id list \<Rightarrow> ('a im_state_scheme, unit) act" where
  "internal_malloc_global_check ws =
     thenA (check (\<lambda>s. 0 \<le> used (im_desc s)) (Assertion Internal_malloc_c 184))
    (bindA (workers_used_and_free ws) (\<lambda>worker_total.
     check (\<lambda>s. let global_used = used (im_desc s);
                    global_free = int (free_bytes (im_desc s));
                    global_available = int (mem_end (im_pool s)) - int (mem_begin (im_pool s))
                in global_used + global_free + global_available = int (allocated (im_pool s))
                   \<and> global_used = worker_total)
       (Die Internal_malloc_c 195)))"

definition assert_global_pool :: "('a im_state_scheme, unit) act" where
  "assert_global_pool =
     thenA (check (\<lambda>s. mem_list_index (im_pool s) < mem_list_size (im_pool s)) (Assertion Internal_malloc_c 205))
           (check (\<lambda>s. wasted (im_pool s) > 0 \<longrightarrow> wasted (im_pool s) < allocated (im_pool s))
              (Assertion Internal_malloc_c 207))"

definition assert_bucket :: "im_bucket \<Rightarrow> ('a im_state_scheme, unit) act" where
  "assert_bucket b =
     thenA (check (\<lambda>_. (free_list b \<noteq> []) = (free_list_size b \<noteq> 0)) (Assertion Internal_malloc_c 211))
    (thenA (check (\<lambda>_. free_list_size b \<le> free_list_limit b) (Assertion Internal_malloc_c 212))
           (check (\<lambda>_. b_allocated b \<le> max_allocated b) (Assertion Internal_malloc_c 213)))"

text \<open>The loop of \<open>cilk_internal_malloc_per_worker_terminate\<close> that empties one bucket.\<close>

primrec im_drain :: "nat \<Rightarrow> worker_id \<Rightarrow> nat \<Rightarrow> ('a im_state_scheme, unit) act" where
  "im_drain 0 w i =
     bindA (gets (\<lambda>s. free_list (buckets (wim s w) i))) (\<lambda>l. if l = [] then ret () else fail No_fuel)"
| "im_drain (Suc fuel) w i =
     bindA (gets (\<lambda>s. free_list (buckets (wim s w) i))) (\<lambda>l.
       if l = [] then ret ()
       else thenA (im_free_batch w (bucket_to_size i) i) (im_drain fuel w i))"

definition drain_bucket :: "worker_id \<Rightarrow> nat \<Rightarrow> ('a im_state_scheme, unit) act" where
  "drain_bucket w i =
     bindA (gets (\<lambda>s. buckets (wim s w) i)) (\<lambda>b.
     thenA (assert_bucket b)
           (im_drain (length (free_list b)) w i))"

definition cilk_internal_malloc_per_worker_terminate :: "worker_id \<Rightarrow> ('a im_state_scheme, unit) act" where
  "cilk_internal_malloc_per_worker_terminate w =
     thenA assert_global_pool
    (thenA (forA [0..<NUM_BUCKETS] (drain_bucket w))
           (modify (\<lambda>s. s\<lparr>
              im_desc := (im_desc s)\<lparr>num_malloc := (\<lambda>t. num_malloc (im_desc s) t + num_malloc (wim s w) t)\<rparr>,
              wim := (wim s)(w := (wim s w)\<lparr>num_malloc := (\<lambda>_. 0)\<rparr>)\<rparr>)))"

definition cilk_internal_malloc_per_worker_destroy :: "worker_id \<Rightarrow> ('a im_state_scheme, unit) act" where
  "cilk_internal_malloc_per_worker_destroy w =
     forA [0..<NUM_BUCKETS] (\<lambda>i.
       thenA (check (\<lambda>s. free_list_size (buckets (wim s w) i) = 0) (Assertion Internal_malloc_c 585))
             (check (\<lambda>s. free_list (buckets (wim s w) i) = []) (Assertion Internal_malloc_c 586)))"

definition name_for_im_tag :: "im_tag \<Rightarrow> string" where
  "name_for_im_tag tag = (case tag of
      IM_UNCLASSIFIED \<Rightarrow> ''unclassified'' | IM_CLOSURE \<Rightarrow> ''closure''
    | IM_FIBER \<Rightarrow> ''fiber'' | IM_REDUCER_MAP \<Rightarrow> ''reducer map'')"

end
