(* ===== verification/Fiber.thy ===== *)
theory Fiber
  imports Internal_Malloc
begin

text \<open>
  Fibers, the stacks Cilk functions run on (runtime/fiber.c), and the two levels of pools that
  recycle them (runtime/fiber-pool.c).  The record \<open>fiber_state\<close> adds to the allocator's state the
  heap of fiber descriptors, the global pool and one pool per worker.

  A pool's array \<open>fibers[0..size-1]\<close> is the list \<open>pfibers\<close>: the code pushes at index \<open>size++\<close>, the
  end of the list, and pops at \<open>--size\<close>.  Writing at \<open>capacity\<close> or popping from an empty array is
  the fault \<open>Out_of_bounds\<close>.
\<close>

section \<open>Data\<close>

record cilk_fiber =
  alloc_low :: addr
  stack_low :: addr
  stack_high :: addr
  alloc_high :: addr
  fiber_owner :: "worker_id option"

record fiber_pool_stats =
  in_use :: int
  max_in_use :: int
  max_free :: nat

datatype pool_ref = Global_pool | Worker_pool worker_id

record cilk_fiber_pool =
  pool_lock :: cilk_mutex
  pool_owner :: worker_id
  shared :: bool
  pool_stack_size :: nat
  pool_parent :: "pool_ref option"
  pfibers :: "addr list"
  pool_capacity :: nat
  pool_stats :: fiber_pool_stats

record fiber_state = im_state +
  fibers :: "addr \<Rightarrow> cilk_fiber option"
  gfiber_pool :: cilk_fiber_pool
  wfiber_pool :: "worker_id \<Rightarrow> cilk_fiber_pool"
  opt_stacksize :: nat
  opt_fiber_pool_cap :: nat

definition LOW_GUARD_PAGES :: nat where "LOW_GUARD_PAGES = 1"
definition HIGH_GUARD_PAGES :: nat where "HIGH_GUARD_PAGES = 1"
definition MIN_NUM_PAGES_PER_STACK :: nat where "MIN_NUM_PAGES_PER_STACK = 4"
definition MAX_NUM_PAGES_PER_STACK :: nat where "MAX_NUM_PAGES_PER_STACK = 2000"
definition DEFAULT_STACK_SIZE :: nat where "DEFAULT_STACK_SIZE = 0x100000"
definition MAX_STACK_ALIGN :: nat where "MAX_STACK_ALIGN = 64"
definition BATCH_FRACTION :: nat where "BATCH_FRACTION = 2"
definition GLOBAL_POOL_RATIO :: nat where "GLOBAL_POOL_RATIO = 10"

text \<open>\<open>sizeof(struct cilk_fiber)\<close>: five pointers.\<close>

definition SIZEOF_FIBER :: nat where "SIZEOF_FIBER = 40"

section \<open>Stacks (fiber.c)\<close>

text \<open>Pages of a stack of \<open>sz\<close> bytes, guard pages included and clamped to the allowed range.\<close>

definition stack_pages :: "nat \<Rightarrow> nat \<Rightarrow> nat" where
  "stack_pages shift sz =
     (let page_size = 2 ^ shift;
          pages = (sz + page_size - 1) div 2 ^ shift + (LOW_GUARD_PAGES + HIGH_GUARD_PAGES)
      in if pages < MIN_NUM_PAGES_PER_STACK then MIN_NUM_PAGES_PER_STACK
         else if MAX_NUM_PAGES_PER_STACK < pages then MAX_NUM_PAGES_PER_STACK
         else pages)"

definition make_stack :: "addr \<Rightarrow> nat \<Rightarrow> ('a fiber_state_scheme, unit) act" where
  "make_stack f sz s =
     (let page_size = 2 ^ page_shift s; bytes = stack_pages (page_shift s) sz * page_size
      in case os_mmap s of
           Some low # rest \<Rightarrow>
             (case fibers s f of
                None \<Rightarrow> Inl Null_pointer
              | Some fb \<Rightarrow> Inr ((), s\<lparr>os_mmap := rest,
                  fibers := (fibers s)(f \<mapsto> fb\<lparr>alloc_low := low, stack_low := low + page_size,
                    stack_high := low + bytes - page_size, alloc_high := low + bytes\<rparr>)\<rparr>))
         | _ \<Rightarrow> Inl (Bug Fiber_c 64))"

definition free_stack :: "addr \<Rightarrow> ('a fiber_state_scheme, unit) act" where
  "free_stack f =
     bindA (gets (\<lambda>s. fibers s f)) (\<lambda>fp.
     bindA (derefA fp) (\<lambda>fb.
     whenA (alloc_low fb \<noteq> 0)
       (modify (\<lambda>s. s\<lparr>os_unmapped := (Chunk (alloc_low fb), alloc_high fb - alloc_low fb) # os_unmapped s,
          fibers := (fibers s)(f \<mapsto> fb\<lparr>alloc_low := 0, stack_low := 0, stack_high := 0, alloc_high := 0\<rparr>)\<rparr>))))"

definition fiber_init :: "cilk_fiber" where
  "fiber_init = \<lparr>alloc_low = 0, stack_low = 0, stack_high = 0, alloc_high = 0, fiber_owner = None\<rparr>"

text \<open>The stack pointer a stolen frame resumes with on a fresh fiber.\<close>

definition resume_sp :: "cilk_fiber \<Rightarrow> addr" where
  "resume_sp fb = stack_high fb - (if 256 < MAX_STACK_ALIGN then MAX_STACK_ALIGN else 256)"

definition cilk_fiber_allocate :: "worker_id \<Rightarrow> nat \<Rightarrow> ('a fiber_state_scheme, addr) act" where
  "cilk_fiber_allocate w stacksize =
     bindA (cilk_internal_malloc w SIZEOF_FIBER IM_FIBER) (\<lambda>f.
     thenA (modify (\<lambda>s. s\<lparr>fibers := (fibers s)(f \<mapsto> fiber_init)\<rparr>))
    (thenA (make_stack f stacksize)
           (ret f)))"

definition cilk_fiber_deallocate :: "worker_id \<Rightarrow> addr \<Rightarrow> ('a fiber_state_scheme, unit) act" where
  "cilk_fiber_deallocate w f =
     thenA (free_stack f)
    (thenA (modify (\<lambda>s. s\<lparr>fibers := (fibers s)(f := None)\<rparr>))
           (cilk_internal_free w f SIZEOF_FIBER IM_FIBER))"

definition cilk_fiber_deallocate_global :: "addr \<Rightarrow> ('a fiber_state_scheme, unit) act" where
  "cilk_fiber_deallocate_global f =
     thenA (free_stack f)
    (thenA (modify (\<lambda>s. s\<lparr>fibers := (fibers s)(f := None)\<rparr>))
           (cilk_internal_free_global f SIZEOF_FIBER IM_FIBER))"

definition cilk_main_fiber_allocate :: "('a fiber_state_scheme, addr) act" where
  "cilk_main_fiber_allocate =
     bindA (gets os_heap) (\<lambda>h.
       case h of
         Some f # rest \<Rightarrow>
           thenA (modify (\<lambda>s. s\<lparr>os_heap := rest, fibers := (fibers s)(f \<mapsto> fiber_init)\<rparr>))
          (thenA (make_stack f DEFAULT_STACK_SIZE)
                 (ret f))
       | _ \<Rightarrow> fail Null_pointer)"

definition cilk_main_fiber_deallocate :: "addr \<Rightarrow> ('a fiber_state_scheme, unit) act" where
  "cilk_main_fiber_deallocate f =
     thenA (free_stack f)
           (modify (\<lambda>s. s\<lparr>fibers := (fibers s)(f := None), os_freed := f # os_freed s\<rparr>))"

definition in_fiber :: "cilk_fiber \<Rightarrow> addr \<Rightarrow> bool" where
  "in_fiber fb p \<longleftrightarrow> stack_low fb \<le> p \<and> p < stack_high fb"

section \<open>Pools (fiber-pool.c)\<close>

definition get_pool :: "pool_ref \<Rightarrow> 'a fiber_state_scheme \<Rightarrow> cilk_fiber_pool" where
  "get_pool r s = (case r of Global_pool \<Rightarrow> gfiber_pool s | Worker_pool w \<Rightarrow> wfiber_pool s w)"

definition put_pool :: "pool_ref \<Rightarrow> (cilk_fiber_pool \<Rightarrow> cilk_fiber_pool) \<Rightarrow> 'a fiber_state_scheme \<Rightarrow> 'a fiber_state_scheme" where
  "put_pool r f s = (case r of
      Global_pool \<Rightarrow> s\<lparr>gfiber_pool := f (gfiber_pool s)\<rparr>
    | Worker_pool w \<Rightarrow> s\<lparr>wfiber_pool := (wfiber_pool s)(w := f (wfiber_pool s w))\<rparr>)"

definition fiber_pool_stat_init :: "cilk_fiber_pool \<Rightarrow> cilk_fiber_pool" where
  "fiber_pool_stat_init p = p\<lparr>pool_stats := \<lparr>in_use = 0, max_in_use = 0, max_free = 0\<rparr>\<rparr>"

definition fiber_pool_init :: "nat \<Rightarrow> nat \<Rightarrow> pool_ref option \<Rightarrow> bool \<Rightarrow> cilk_fiber_pool \<Rightarrow> cilk_fiber_pool" where
  "fiber_pool_init stacksize bufsize par is_shared p = p\<lparr>
     pool_lock := cilk_mutex_init, pool_owner := NO_WORKER, shared := is_shared,
     pool_stack_size := stacksize, pool_parent := par, pool_capacity := bufsize, pfibers := []\<rparr>"

definition fiber_pool_destroy :: "pool_ref \<Rightarrow> ('a fiber_state_scheme, unit) act" where
  "fiber_pool_destroy r =
     thenA (check (\<lambda>s. pfibers (get_pool r s) = []) (Assertion Fiber_pool_c 91))
           (modify (put_pool r (\<lambda>p. p\<lparr>pool_parent := None, pfibers := []\<rparr>)))"

definition fiber_pool_assert_ownership :: "worker_id \<Rightarrow> pool_ref \<Rightarrow> ('a fiber_state_scheme, unit) act" where
  "fiber_pool_assert_ownership w r =
     check (\<lambda>s. shared (get_pool r s) \<longrightarrow> pool_owner (get_pool r s) = w) (Assertion Fiber_pool_c 101)"

definition fiber_pool_assert_alienation :: "worker_id \<Rightarrow> pool_ref \<Rightarrow> ('a fiber_state_scheme, unit) act" where
  "fiber_pool_assert_alienation w r =
     check (\<lambda>s. shared (get_pool r s) \<longrightarrow> pool_owner (get_pool r s) \<noteq> w) (Assertion Fiber_pool_c 107)"

definition fiber_pool_lock :: "worker_id \<Rightarrow> pool_ref \<Rightarrow> ('a fiber_state_scheme, unit) act" where
  "fiber_pool_lock w r =
     bindA (gets (\<lambda>s. shared (get_pool r s))) (\<lambda>sh.
     whenA sh
       (thenA (fiber_pool_assert_alienation w r)
       (thenA (cilk_mutex_lock (\<lambda>s. pool_lock (get_pool r s)) (\<lambda>b. put_pool r (\<lambda>p. p\<lparr>pool_lock := b\<rparr>)))
              (modify (put_pool r (\<lambda>p. p\<lparr>pool_owner := w\<rparr>))))))"

definition fiber_pool_unlock :: "worker_id \<Rightarrow> pool_ref \<Rightarrow> ('a fiber_state_scheme, unit) act" where
  "fiber_pool_unlock w r =
     bindA (gets (\<lambda>s. shared (get_pool r s))) (\<lambda>sh.
     whenA sh
       (thenA (fiber_pool_assert_ownership w r)
       (thenA (modify (put_pool r (\<lambda>p. p\<lparr>pool_owner := NO_WORKER\<rparr>)))
              (cilk_mutex_unlock (\<lambda>b. put_pool r (\<lambda>p. p\<lparr>pool_lock := b\<rparr>))))))"

text \<open>\<open>pool->fibers[pool->size++] = f\<close> and \<open>pool->fibers[--pool->size]\<close>.\<close>

definition pool_push :: "pool_ref \<Rightarrow> addr \<Rightarrow> ('a fiber_state_scheme, unit) act" where
  "pool_push r f =
     thenA (check (\<lambda>s. length (pfibers (get_pool r s)) < pool_capacity (get_pool r s)) Out_of_bounds)
           (modify (put_pool r (\<lambda>p. p\<lparr>pfibers := pfibers p @ [f]\<rparr>)))"

definition pool_pop :: "pool_ref \<Rightarrow> ('a fiber_state_scheme, addr) act" where
  "pool_pop r =
     bindA (gets (\<lambda>s. pfibers (get_pool r s))) (\<lambda>fs.
       if fs = [] then fail Out_of_bounds
       else thenA (modify (put_pool r (\<lambda>p. p\<lparr>pfibers := butlast fs\<rparr>)))
                  (ret (last fs)))"

text \<open>\<open>realloc\<close> answers through \<open>os_heap\<close>; failure aborts.\<close>

definition fiber_pool_increase_capacity :: "worker_id \<Rightarrow> pool_ref \<Rightarrow> nat \<Rightarrow> ('a fiber_state_scheme, unit) act" where
  "fiber_pool_increase_capacity w r new_size =
     thenA (fiber_pool_assert_ownership w r)
    (bindA (gets (\<lambda>s. pool_capacity (get_pool r s))) (\<lambda>cap.
     whenA (cap < new_size)
       (bindA (gets os_heap) (\<lambda>h.
          case h of
            Some _ # rest \<Rightarrow> modify (\<lambda>s. put_pool r (\<lambda>p. p\<lparr>pool_capacity := new_size\<rparr>) (s\<lparr>os_heap := rest\<rparr>))
          | _ \<Rightarrow> fail (Assertion Fiber_pool_c 143)))))"

definition max_in_use_upd :: "fiber_pool_stats \<Rightarrow> fiber_pool_stats" where
  "max_in_use_upd st = (if in_use st > max_in_use st then st\<lparr>max_in_use := in_use st\<rparr> else st)"

definition max_free_upd :: "cilk_fiber_pool \<Rightarrow> cilk_fiber_pool" where
  "max_free_upd p =
     (if length (pfibers p) > max_free (pool_stats p)
      then p\<lparr>pool_stats := (pool_stats p)\<lparr>max_free := length (pfibers p)\<rparr>\<rparr> else p)"

definition fiber_pool_allocate_batch :: "worker_id \<Rightarrow> pool_ref \<Rightarrow> nat \<Rightarrow> ('a fiber_state_scheme, unit) act" where
  "fiber_pool_allocate_batch w r batch_size =
     thenA (fiber_pool_assert_ownership w r)
    (bindA (gets (\<lambda>s. length (pfibers (get_pool r s)))) (\<lambda>sz.
     thenA (fiber_pool_increase_capacity w r (batch_size + sz))
    (bindA (gets (\<lambda>s. pool_parent (get_pool r s))) (\<lambda>par.
     bindA (case par of
              None \<Rightarrow> ret 0
            | Some q \<Rightarrow>
                thenA (fiber_pool_lock w q)
               (bindA (gets (\<lambda>s. min (length (pfibers (get_pool q s))) batch_size)) (\<lambda>from_parent.
                thenA (repeatA from_parent (bindA (pool_pop q) (pool_push r)))
               (thenA (modify (put_pool q (\<lambda>p. p\<lparr>pool_stats :=
                         max_in_use_upd ((pool_stats p)\<lparr>in_use := in_use (pool_stats p) + int from_parent\<rparr>)\<rparr>)))
               (thenA (fiber_pool_unlock w q)
                      (ret from_parent)))))) (\<lambda>from_parent.
     thenA (repeatA (batch_size - from_parent)
              (bindA (gets (\<lambda>s. pool_stack_size (get_pool r s))) (\<lambda>ss.
               bindA (cilk_fiber_allocate w ss) (pool_push r))))
           (modify (put_pool r max_free_upd)))))))"

definition fiber_pool_free_batch :: "worker_id \<Rightarrow> pool_ref \<Rightarrow> nat \<Rightarrow> ('a fiber_state_scheme, unit) act" where
  "fiber_pool_free_batch w r batch_size =
     thenA (fiber_pool_assert_ownership w r)
    (thenA (check (\<lambda>s. batch_size \<le> length (pfibers (get_pool r s))) (Assertion Fiber_pool_c 222))
    (bindA (gets (\<lambda>s. pool_parent (get_pool r s))) (\<lambda>par.
     bindA (case par of
              None \<Rightarrow> ret 0
            | Some q \<Rightarrow>
                thenA (fiber_pool_lock w q)
               (bindA (gets (\<lambda>s. min batch_size (pool_capacity (get_pool q s) - length (pfibers (get_pool q s))))) (\<lambda>to_parent.
                thenA (repeatA to_parent (bindA (pool_pop r) (pool_push q)))
               (thenA (check (\<lambda>s. length (pfibers (get_pool q s)) \<le> pool_capacity (get_pool q s)) (Assertion Fiber_pool_c 235))
               (thenA (modify (put_pool q (\<lambda>p. max_free_upd (p\<lparr>pool_stats :=
                         (pool_stats p)\<lparr>in_use := in_use (pool_stats p) - int to_parent\<rparr>\<rparr>))))
               (thenA (fiber_pool_unlock w q)
                      (ret to_parent))))))) (\<lambda>to_parent.
     repeatA (batch_size - to_parent)
       (bindA (pool_pop r) (cilk_fiber_deallocate w))))))"

definition fiber_pool_decrease_capacity :: "worker_id \<Rightarrow> pool_ref \<Rightarrow> nat \<Rightarrow> ('a fiber_state_scheme, unit) act" where
  "fiber_pool_decrease_capacity w r new_size =
     thenA (fiber_pool_assert_ownership w r)
    (bindA (gets (\<lambda>s. length (pfibers (get_pool r s)))) (\<lambda>sz.
     thenA (whenA (new_size < sz)
              (thenA (fiber_pool_free_batch w r (sz - new_size))
                     (check (\<lambda>s. length (pfibers (get_pool r s)) = new_size) (Assertion Fiber_pool_c 164))))
    (bindA (gets (\<lambda>s. pool_capacity (get_pool r s))) (\<lambda>cap.
     whenA (new_size < cap)
       (bindA (gets os_heap) (\<lambda>h.
          case h of
            Some _ # rest \<Rightarrow> modify (\<lambda>s. put_pool r (\<lambda>p. p\<lparr>pool_capacity := new_size\<rparr>) (s\<lparr>os_heap := rest\<rparr>))
          | _ \<Rightarrow> ret ()))))))"

definition cilk_fiber_pool_global_init :: "('a fiber_state_scheme, unit) act" where
  "cilk_fiber_pool_global_init =
     modify (\<lambda>s. s\<lparr>gfiber_pool := fiber_pool_stat_init
       (fiber_pool_init (opt_stacksize s) (GLOBAL_POOL_RATIO * opt_fiber_pool_cap s) None True (gfiber_pool s))\<rparr>)"

text \<open>The loop of \<open>cilk_fiber_pool_global_terminate\<close>; the size of the pool bounds it.\<close>

definition cilk_fiber_pool_global_terminate :: "('a fiber_state_scheme, unit) act" where
  "cilk_fiber_pool_global_terminate =
     thenA (cilk_mutex_lock (\<lambda>s. pool_lock (gfiber_pool s)) (\<lambda>b. put_pool Global_pool (\<lambda>p. p\<lparr>pool_lock := b\<rparr>)))
    (bindA (gets (\<lambda>s. length (pfibers (gfiber_pool s)))) (\<lambda>n.
     thenA (repeatA n (bindA (pool_pop Global_pool) cilk_fiber_deallocate_global))
           (cilk_mutex_unlock (\<lambda>b. put_pool Global_pool (\<lambda>p. p\<lparr>pool_lock := b\<rparr>)))))"

definition cilk_fiber_pool_global_destroy :: "('a fiber_state_scheme, unit) act" where
  "cilk_fiber_pool_global_destroy = fiber_pool_destroy Global_pool"

definition cilk_fiber_pool_per_worker_init :: "worker_id \<Rightarrow> ('a fiber_state_scheme, unit) act" where
  "cilk_fiber_pool_per_worker_init w =
     bindA (gets opt_fiber_pool_cap) (\<lambda>bufsize.
     thenA (modify (\<lambda>s. put_pool (Worker_pool w)
              (fiber_pool_init (opt_stacksize s) bufsize (Some Global_pool) False) s))
    (thenA (check (\<lambda>s. pool_stack_size (gfiber_pool s) = pool_stack_size (wfiber_pool s w)) (Assertion Fiber_pool_c 296))
    (thenA (fiber_pool_allocate_batch w (Worker_pool w) (bufsize div BATCH_FRACTION))
           (modify (put_pool (Worker_pool w) fiber_pool_stat_init)))))"

definition cilk_fiber_pool_per_worker_terminate :: "worker_id \<Rightarrow> ('a fiber_state_scheme, unit) act" where
  "cilk_fiber_pool_per_worker_terminate w =
     bindA (gets (\<lambda>s. length (pfibers (wfiber_pool s w)))) (\<lambda>n.
     repeatA n (bindA (pool_pop (Worker_pool w)) (cilk_fiber_deallocate w)))"

definition cilk_fiber_pool_per_worker_destroy :: "worker_id \<Rightarrow> ('a fiber_state_scheme, unit) act" where
  "cilk_fiber_pool_per_worker_destroy w = fiber_pool_destroy (Worker_pool w)"

definition cilk_fiber_allocate_from_pool :: "worker_id \<Rightarrow> ('a fiber_state_scheme, addr) act" where
  "cilk_fiber_allocate_from_pool w =
     bindA (gets (\<lambda>s. wfiber_pool s w)) (\<lambda>pool.
     thenA (whenA (pfibers pool = [])
              (fiber_pool_allocate_batch w (Worker_pool w) (pool_capacity pool div BATCH_FRACTION)))
    (bindA (pool_pop (Worker_pool w)) (\<lambda>f.
     thenA (modify (put_pool (Worker_pool w) (\<lambda>p. p\<lparr>pool_stats :=
              max_in_use_upd ((pool_stats p)\<lparr>in_use := in_use (pool_stats p) + 1\<rparr>)\<rparr>)))
    (thenA (check (\<lambda>_. f \<noteq> 0) (Assertion Fiber_pool_c 336))
           (ret f)))))"

definition cilk_fiber_deallocate_to_pool :: "worker_id \<Rightarrow> addr option \<Rightarrow> ('a fiber_state_scheme, unit) act" where
  "cilk_fiber_deallocate_to_pool w fiber_to_return =
     bindA (gets (\<lambda>s. wfiber_pool s w)) (\<lambda>pool.
     thenA (whenA (length (pfibers pool) = pool_capacity pool)
              (thenA (fiber_pool_free_batch w (Worker_pool w) (pool_capacity pool div BATCH_FRACTION))
                     (check (\<lambda>s. pool_capacity (wfiber_pool s w) div BATCH_FRACTION
                                 \<le> pool_capacity (wfiber_pool s w) - length (pfibers (wfiber_pool s w)))
                        (Assertion Fiber_pool_c 349))))
           (case fiber_to_return of
              None \<Rightarrow> ret ()
            | Some f \<Rightarrow>
                thenA (pool_push (Worker_pool w) f)
                      (modify (put_pool (Worker_pool w) (\<lambda>p. max_free_upd (p\<lparr>pool_stats :=
                         (pool_stats p)\<lparr>in_use := in_use (pool_stats p) - 1\<rparr>\<rparr>))))))"

end
