(* ===== verification/Malloc_Correct.thy ===== *)
theory Malloc_Correct
  imports Internal_Malloc
begin

text \<open>
  Correctness of the internal allocator.  Memory is accounted for by an arbitrary additive weight
  of address ranges (locale \<open>block_weight\<close>): no operation of a worker changes the weight of all
  chunks less the free blocks, except by the block it hands out or takes back.  The two
  interpretations are the number of bytes, which gives the books the runtime keeps
  (\<open>internal_malloc_global_check\<close>), and the number of blocks that cover a given byte, which
  gives that blocks never overlap.  The invariant \<open>im_inv\<close> explains why the end of a chunk is never
  wasted: batches are multiples of 4096 bytes, block sizes divide 4096, and the global lists
  are refilled by whole batches.
\<close>

section \<open>The pool of chunks\<close>

definition slot_addr :: "mem_slot \<Rightarrow> addr option" where
  "slot_addr m = (case m of Chunk a \<Rightarrow> Some a | _ \<Rightarrow> None)"

definition chunks :: "global_im_pool \<Rightarrow> addr list" where
  "chunks p = List.map_filter slot_addr (mem_list p)"

definition pool_rem :: "global_im_pool \<Rightarrow> nat" where
  "pool_rem p = mem_end p - mem_begin p"

definition pool_inv :: "global_im_pool \<Rightarrow> bool" where
  "pool_inv p \<longleftrightarrow>
     mem_begin p \<le> mem_end p \<and> wasted p = 0 \<and>
     length (mem_list p) = unat (mem_list_size p) \<and>
     allocated p = INTERNAL_MALLOC_CHUNK_SIZE * unat (mem_list_index p + 1) \<and>
     (\<exists>cs rest. mem_list p = map Chunk cs @ rest \<and> length cs = unat (mem_list_index p + 1) \<and>
        (\<forall>m \<in> set rest. slot_addr m = None))"

definition room :: "nat \<Rightarrow> 'a im_state_scheme \<Rightarrow> bool" where
  "room k s \<longleftrightarrow> unat (mem_list_size (im_pool s)) + 8 * k < 2 ^ 32"

lemma map_filter_append: "List.map_filter f (xs @ ys) = List.map_filter f xs @ List.map_filter f ys"
  by (induction xs) (auto split: option.splits)

lemma map_filter_None: "\<forall>m \<in> set ms. f m = None \<Longrightarrow> List.map_filter f ms = []"
  by (induction ms) auto

lemma map_filter_Chunk [simp]: "List.map_filter slot_addr (map Chunk cs) = cs"
  by (induction cs) (auto simp: slot_addr_def)

lemma chunks_split:
  "mem_list p = map Chunk cs @ rest \<Longrightarrow> \<forall>m \<in> set rest. slot_addr m = None \<Longrightarrow> chunks p = cs"
  by (simp add: chunks_def map_filter_None map_filter_append)

lemma malloc_from_system_Inr:
  assumes "malloc_from_system sz s = Inr (a, s')"
  obtains om oh where "s' = s\<lparr>os_mmap := om, os_heap := oh\<rparr>" "a \<noteq> 0"
  using assms
proof -
  have "\<exists>om oh. s' = s\<lparr>os_mmap := om, os_heap := oh\<rparr> \<and> a \<noteq> 0"
    using assms unfolding malloc_from_system_def
    by (cases s) (auto simp: MAP_FAILED_def split: if_splits list.splits option.splits)
  then show thesis using that by blast
qed

lemma slot_after_append:
  "length cs = k \<Longrightarrow> rest \<noteq> [] \<Longrightarrow>
   (map Chunk cs @ rest)[k := Chunk a] = map Chunk (cs @ [a]) @ tl rest"
  by (cases rest) (auto simp: list_update_append)

text \<open>What a successful \<open>extend_global_pool\<close> does to the pool.\<close>

definition pool_extended :: "addr \<Rightarrow> global_im_pool \<Rightarrow> global_im_pool \<Rightarrow> bool" where
  "pool_extended mem p p' \<longleftrightarrow>
     mem_begin p' = mem \<and> mem_end p' = mem + INTERNAL_MALLOC_CHUNK_SIZE \<and> chunks p' = chunks p @ [mem] \<and>
     pool_inv p' \<and> unat (mem_list_size p') \<le> unat (mem_list_size p) + 8"

lemma unat_mem_list_size_grow:
  "unat (n :: 32 word) + 8 < 2 ^ 32 \<Longrightarrow> unat (n + MEM_LIST_SIZE) = unat n + 8"
  unfolding MEM_LIST_SIZE_def by (subst unat_add_lem[THEN iffD1]) auto

lemma extend_pool_slot:
  assumes inv: "pool_inv p"
    and ml: "ml = mem_list p @ ext" and n: "unat n = length ml" "unat n \<le> unat (mem_list_size p) + 8"
    and ext: "\<forall>m \<in> set ext. slot_addr m = None"
    and idx: "unat (mem_list_index p + 1) < length ml" "unat (mem_list_index p + 1) + 1 < 2 ^ 32"
  shows "pool_extended mem p (p\<lparr>mem_begin := mem, mem_end := mem + INTERNAL_MALLOC_CHUNK_SIZE,
           allocated := allocated p + INTERNAL_MALLOC_CHUNK_SIZE,
           mem_list_index := mem_list_index p + 1, mem_list_size := n,
           mem_list := ml[unat (mem_list_index p + 1) := Chunk mem]\<rparr>)" (is "pool_extended mem p ?p'")
proof -
  obtain cs rest where cs: "mem_list p = map Chunk cs @ rest" "length cs = unat (mem_list_index p + 1)"
      "\<forall>m \<in> set rest. slot_addr m = None"
    using inv by (auto simp: pool_inv_def)
  have tl: "\<forall>m \<in> set (tl (rest @ ext)). slot_addr m = None"
    using cs(3) ext by (cases rest; cases ext) auto
  have ne: "rest @ ext \<noteq> []" using idx(1) cs(1,2) ml by auto
  have ml': "mem_list ?p' = map Chunk (cs @ [mem]) @ tl (rest @ ext)"
    using slot_after_append[OF cs(2) ne] by (simp add: ml cs(1))
  have suc: "unat (mem_list_index p + 1 + 1) = unat (mem_list_index p + 1) + 1"
    using idx(2) by (subst unat_add_lem[THEN iffD1]) auto
  have "chunks ?p' = chunks p @ [mem]"
    using chunks_split[OF ml' tl] chunks_split[OF cs(1,3)] by simp
  moreover have "pool_inv ?p'"
    unfolding pool_inv_def using inv n suc
    by (intro conjI exI[of _ "cs @ [mem]"] exI[of _ "tl (rest @ ext)"] ml' tl)
       (simp_all add: pool_inv_def cs(2) ml)
  ultimately show ?thesis using n(2) by (simp add: pool_extended_def)
qed

lemma pool_inv_index_le: "pool_inv p \<Longrightarrow> unat (mem_list_index p + 1) \<le> length (mem_list p)"
  by (auto simp: pool_inv_def)

lemma extend_global_pool_Inr:
  assumes run: "extend_global_pool s = Inr (u, s')" and inv: "pool_inv (im_pool s)" and room: "room 1 s"
  obtains mem p' om oh where "s' = s\<lparr>im_pool := p', os_mmap := om, os_heap := oh\<rparr>"
    "pool_extended mem (im_pool s) p'"
proof -
  let ?p = "im_pool s" and ?i = "mem_list_index (im_pool s) + 1"
  obtain mem s1 where m: "malloc_from_system INTERNAL_MALLOC_CHUNK_SIZE s = Inr (mem, s1)"
    using run by (auto simp: extend_global_pool_def act_dest)
  then obtain om oh where s1: "s1 = s\<lparr>os_mmap := om, os_heap := oh\<rparr>"
    by (rule malloc_from_system_Inr)
  note inv' = inv[unfolded pool_inv_def]
  have bound: "unat ?i + 1 < 2 ^ 32" and len: "length (mem_list ?p) = unat (mem_list_size ?p)"
    using pool_inv_index_le[OF inv] inv' room by (auto simp: room_def)
  show thesis
  proof (cases "mem_list_size ?p \<le> ?i")
    case False
    then have "s' = s\<lparr>im_pool := ?p\<lparr>mem_begin := mem, mem_end := mem + INTERNAL_MALLOC_CHUNK_SIZE,
           allocated := allocated ?p + INTERNAL_MALLOC_CHUNK_SIZE,
           mem_list_index := ?i, mem_list_size := mem_list_size ?p,
           mem_list := (mem_list ?p)[unat ?i := Chunk mem]\<rparr>, os_mmap := om, os_heap := oh\<rparr>"
      using run by (auto simp: extend_global_pool_def act_dest m s1 split: if_splits)
    moreover have "unat ?i < length (mem_list ?p)"
      using False len by (simp add: word_le_nat_alt)
    ultimately show ?thesis
      using extend_pool_slot[OF inv, of "mem_list ?p" "[]" "mem_list_size ?p" mem] bound len
      by (intro that) auto
  next
    case True
    let ?ml = "mem_list ?p @ replicate (unat MEM_LIST_SIZE) Uninit"
    obtain a oh' where oh: "oh = Some a # oh'"
      using run True by (auto simp: extend_global_pool_def act_dest m s1 grow_mem_list_def Let_def
               split: list.splits option.splits if_splits)
    then have "s' = s\<lparr>im_pool := ?p\<lparr>mem_begin := mem, mem_end := mem + INTERNAL_MALLOC_CHUNK_SIZE,
           allocated := allocated ?p + INTERNAL_MALLOC_CHUNK_SIZE,
           mem_list_index := ?i, mem_list_size := mem_list_size ?p + MEM_LIST_SIZE,
           mem_list := ?ml[unat ?i := Chunk mem]\<rparr>, os_mmap := om, os_heap := oh'\<rparr>"
      using run True
      by (auto simp: extend_global_pool_def act_dest m s1 grow_mem_list_def Let_def split: if_splits)
    moreover have n: "unat (mem_list_size ?p + MEM_LIST_SIZE) = unat (mem_list_size ?p) + 8"
      using room by (intro unat_mem_list_size_grow) (simp add: room_def)
    moreover have "unat ?i < length ?ml"
      using pool_inv_index_le[OF inv] by (simp add: MEM_LIST_SIZE_def)
    moreover have "\<forall>m \<in> set (replicate (unat MEM_LIST_SIZE) Uninit). slot_addr m = None"
      by (simp add: slot_addr_def)
    ultimately show ?thesis
      using extend_pool_slot[OF inv, of ?ml "replicate (unat MEM_LIST_SIZE) Uninit"
          "mem_list_size ?p + MEM_LIST_SIZE" mem] bound len
      by (intro that) (auto simp: MEM_LIST_SIZE_def)
  qed
qed

section \<open>Additive weights\<close>

locale block_weight =
  fixes phi :: "addr \<Rightarrow> nat \<Rightarrow> int"
  assumes phi_add: "phi a (m + n) = phi a m + phi (a + m) n"
begin

lemma phi_0 [simp]: "phi a 0 = 0"
  using phi_add[of a 0 0] by simp

lemma phi_split: "m \<le> n \<Longrightarrow> phi a n = phi a m + phi (a + m) (n - m)"
  using phi_add[of a m "n - m"] by simp

text \<open>A row of blocks of one size weighs as much as the memory it fills.\<close>

lemma phi_row: "(\<Sum>k\<leftarrow>[0..<n]. phi (a + c * k) c) = phi a (c * n)"
  by (induction n) (simp_all add: phi_add[symmetric] add.commute)

end

definition bucket_weight :: "(addr \<Rightarrow> nat \<Rightarrow> int) \<Rightarrow> nat \<Rightarrow> im_bucket \<Rightarrow> int" where
  "bucket_weight phi i b = (\<Sum>p\<leftarrow>free_list b. phi p (bucket_sizes ! i))"

definition desc_weight :: "(addr \<Rightarrow> nat \<Rightarrow> int) \<Rightarrow> cilk_im_desc \<Rightarrow> int" where
  "desc_weight phi d = (\<Sum>i<NUM_BUCKETS. bucket_weight phi i (buckets d i))"

text \<open>What the pool has handed out: all chunks less the rest of the current one.\<close>

definition handed_out :: "(addr \<Rightarrow> nat \<Rightarrow> int) \<Rightarrow> global_im_pool \<Rightarrow> int" where
  "handed_out phi p =
     (\<Sum>a\<leftarrow>chunks p. phi a INTERNAL_MALLOC_CHUNK_SIZE) - phi (mem_begin p) (pool_rem p)"

definition carved :: "nat \<Rightarrow> addr \<Rightarrow> global_im_pool \<Rightarrow> global_im_pool \<Rightarrow> bool" where
  "carved sz a p p' \<longleftrightarrow>
     pool_inv p' \<and> unat (mem_list_size p') \<le> unat (mem_list_size p) + 8 \<and>
     sz dvd pool_rem p' \<and>
     (pool_rem p' + sz) mod INTERNAL_MALLOC_CHUNK_SIZE = pool_rem p mod INTERNAL_MALLOC_CHUNK_SIZE \<and>
     (\<forall>phi. block_weight phi \<longrightarrow> handed_out phi p' = handed_out phi p + phi a sz)"

lemma carve_within:
  assumes "pool_inv p" "mem_begin p + sz \<le> mem_end p" "sz dvd pool_rem p"
  shows "carved sz (mem_begin p) p (p\<lparr>mem_begin := mem_begin p + sz\<rparr>)"
proof -
  let ?p' = "p\<lparr>mem_begin := mem_begin p + sz\<rparr>"
  have rem: "pool_rem p = pool_rem ?p' + sz" using assms(2) by (simp add: pool_rem_def)
  have "handed_out phi ?p' = handed_out phi p + phi (mem_begin p) sz" if "block_weight phi" for phi
    using block_weight.phi_add[OF that, of "mem_begin p" sz "pool_rem ?p'"] rem
    by (simp add: handed_out_def chunks_def add.commute)
  moreover have "sz dvd pool_rem ?p'" using assms(3) unfolding rem by simp
  ultimately show ?thesis
    using assms(1,2) by (simp add: carved_def rem pool_inv_def)
qed

lemma carve_extended:
  assumes "pool_extended mem p p'" "pool_rem p = 0" "0 < sz" "sz \<le> INTERNAL_MALLOC_CHUNK_SIZE"
    "sz dvd INTERNAL_MALLOC_CHUNK_SIZE"
  shows "carved sz mem p (p'\<lparr>mem_begin := mem + sz\<rparr>)"
proof -
  have p': "mem_begin p' = mem" "mem_end p' = mem + INTERNAL_MALLOC_CHUNK_SIZE" "pool_inv p'"
    "chunks p' = chunks p @ [mem]" "unat (mem_list_size p') \<le> unat (mem_list_size p) + 8"
    using assms(1) by (auto simp: pool_extended_def)
  then have c: "carved sz mem p' (p'\<lparr>mem_begin := mem + sz\<rparr>)"
    using carve_within[of p' sz] assms(4,5) by (simp add: pool_rem_def)
  have "handed_out phi p' = handed_out phi p" if "block_weight phi" for phi
    using assms(2) p' block_weight.phi_0[OF that] by (simp add: handed_out_def pool_rem_def)
  then show ?thesis using c p' assms(2) by (simp add: carved_def pool_rem_def)
qed

lemma pool_carve_Inr:
  assumes run: "pool_carve sz s = Inr (a, s')" and inv: "pool_inv (im_pool s)" and room: "room 1 s"
    and sz: "0 < sz" "sz dvd INTERNAL_MALLOC_CHUNK_SIZE" "sz dvd pool_rem (im_pool s)"
  obtains p' om oh where "s' = s\<lparr>im_pool := p', os_mmap := om, os_heap := oh\<rparr>" "carved sz a (im_pool s) p'"
proof (cases "mem_end (im_pool s) < mem_begin (im_pool s) + sz")
  case False
  then have "s' = s\<lparr>im_pool := (im_pool s)\<lparr>mem_begin := mem_begin (im_pool s) + sz\<rparr>\<rparr>" "a = mem_begin (im_pool s)"
    using run by (auto simp: pool_carve_def)
  then show thesis
    using that[where p' = "(im_pool s)\<lparr>mem_begin := mem_begin (im_pool s) + sz\<rparr>" and om = "os_mmap s" and oh = "os_heap s"]
      carve_within[OF inv _ sz(3)] False by simp
next
  case True
  let ?s1 = "s\<lparr>im_pool := (im_pool s)\<lparr>wasted := wasted (im_pool s) + (mem_end (im_pool s) - mem_begin (im_pool s))\<rparr>\<rparr>"
  have "pool_rem (im_pool s) < sz" using True sz(1) by (simp add: pool_rem_def)
  then have rem: "pool_rem (im_pool s) = 0" using sz(3) by (metis dvd_imp_le not_le not_gr_zero)
  then have s1: "?s1 = s" using inv by (cases s, cases "im_pool s") (simp add: pool_rem_def pool_inv_def)
  obtain s2 where ext: "extend_global_pool s = Inr ((), s2)"
    and s': "s' = s2\<lparr>im_pool := (im_pool s2)\<lparr>mem_begin := mem_begin (im_pool s2) + sz\<rparr>\<rparr>" "a = mem_begin (im_pool s2)"
    using run True s1 by (auto simp: pool_carve_def act_dest)
  obtain mem p' om oh where s2: "s2 = s\<lparr>im_pool := p', os_mmap := om, os_heap := oh\<rparr>"
    and p': "pool_extended mem (im_pool s) p'"
    by (rule extend_global_pool_Inr[OF ext inv room])
  have "carved sz mem (im_pool s) (p'\<lparr>mem_begin := mem + sz\<rparr>)"
    using carve_extended[OF p' rem sz(1) _ sz(2)] sz(2) by (simp add: dvd_imp_le INTERNAL_MALLOC_CHUNK_SIZE_def)
  moreover have "mem_begin p' = mem" using p' by (simp add: pool_extended_def)
  ultimately show thesis using that[where p' = "p'\<lparr>mem_begin := mem + sz\<rparr>" and om = om and oh = oh] s' s2 by simp
qed

section \<open>Moving blocks\<close>

definition take_global :: "nat \<Rightarrow> nat \<Rightarrow> nat \<Rightarrow> cilk_im_desc \<Rightarrow> cilk_im_desc" where
  "take_global k sz i d = d\<lparr>used := used d + int (k * sz),
     buckets := (buckets d)(i := (buckets d i)\<lparr>free_list := drop k (free_list (buckets d i)),
                                               free_list_size := free_list_size (buckets d i) - k\<rparr>)\<rparr>"

definition give_worker :: "addr list \<Rightarrow> nat \<Rightarrow> cilk_im_desc \<Rightarrow> cilk_im_desc" where
  "give_worker new i d = d\<lparr>buckets := (buckets d)(i := (buckets d i)\<lparr>free_list := new @ free_list (buckets d i),
     free_list_size := free_list_size (buckets d i) + length new\<rparr>)\<rparr>"

lemma give_worker_Nil [simp]: "give_worker [] i d = d"
  by (simp add: give_worker_def)

lemma give_worker_append: "give_worker ys i (give_worker xs i d) = give_worker (ys @ xs) i d"
  by (simp add: give_worker_def add_ac)

lemma take_global_0 [simp]: "take_global 0 sz i d = d"
  by (simp add: take_global_def)

lemma take_global_add: "take_global k sz i (take_global m sz i d) = take_global (m + k) sz i d"
  by (simp add: take_global_def algebra_simps)

lemma upd_wbucket_add:
  "upd_wbucket w i (add_to_free_list p) s = s\<lparr>wim := (wim s)(w := give_worker [p] i (wim s w))\<rparr>"
  by (simp add: give_worker_def add_to_free_list_def)

lemma global_im_alloc_list:
  assumes "i < NUM_BUCKETS" "sz \<le> SIZE_THRESH" "free_list (buckets (im_desc s) i) = a # rest"
  shows "global_im_alloc sz i s = Inr (a, s\<lparr>im_desc := take_global 1 sz i (im_desc s)\<rparr>)"
  using assms by (simp add: global_im_alloc_def remove_from_free_list_def take_global_def)

lemma global_im_alloc_pool:
  assumes "i < NUM_BUCKETS" "sz \<le> SIZE_THRESH" "free_list (buckets (im_desc s) i) = []"
    "free_list_size (buckets (im_desc s) i) = 0"
  shows "global_im_alloc sz i s = pool_carve sz (s\<lparr>im_desc := take_global 1 sz i (im_desc s)\<rparr>)"
  using assms by (cases "im_desc s", cases "buckets (im_desc s) i") (simp add: global_im_alloc_def remove_from_free_list_def take_global_def)

lemma batch_from_list:
  assumes "i < NUM_BUCKETS" "sz \<le> SIZE_THRESH" "k \<le> length (free_list (buckets (im_desc s) i))"
  shows "repeatA k (im_batch_body w sz i) s =
    Inr ((), s\<lparr>im_desc := take_global k sz i (im_desc s),
               wim := (wim s)(w := give_worker (rev (take k (free_list (buckets (im_desc s) i)))) i (wim s w))\<rparr>)"
  using assms(3)
proof (induction k arbitrary: s)
  case (Suc k)
  obtain a rest where gl: "free_list (buckets (im_desc s) i) = a # rest"
    using Suc.prems by (cases "free_list (buckets (im_desc s) i)") auto
  let ?s1 = "s\<lparr>im_desc := take_global 1 sz i (im_desc s), wim := (wim s)(w := give_worker [a] i (wim s w))\<rparr>"
  have body: "im_batch_body w sz i s = Inr ((), ?s1)"
    by (simp add: im_batch_body_def bindA_def global_im_alloc_list[OF assms(1,2) gl] upd_wbucket_add)
  have gl1: "free_list (buckets (im_desc ?s1) i) = rest"
    by (simp add: take_global_def gl)
  show ?case
    using Suc.IH[of ?s1] Suc.prems gl unfolding gl1
    by (simp add: thenA_def bindA_def body take_global_add give_worker_append)
qed simp

lemma handed_out_eqI: "chunks p' = chunks p \<Longrightarrow> mem_begin p' = mem_begin p \<Longrightarrow> pool_rem p' = pool_rem p
  \<Longrightarrow> handed_out phi p' = handed_out phi p"
  by (simp add: handed_out_def)

definition pool_gives :: "nat \<Rightarrow> addr list \<Rightarrow> global_im_pool \<Rightarrow> global_im_pool \<Rightarrow> bool" where
  "pool_gives sz new p p' \<longleftrightarrow>
     pool_inv p' \<and> unat (mem_list_size p') \<le> unat (mem_list_size p) + 8 * length new \<and>
     sz dvd pool_rem p' \<and>
     (pool_rem p' + length new * sz) mod INTERNAL_MALLOC_CHUNK_SIZE = pool_rem p mod INTERNAL_MALLOC_CHUNK_SIZE \<and>
     (\<forall>phi. block_weight phi \<longrightarrow> handed_out phi p' = handed_out phi p + (\<Sum>a\<leftarrow>new. phi a sz))"

lemma mod_shift_trans:
  "(r1 + x) mod c = r mod c \<Longrightarrow> (r2 + y) mod c = r1 mod c \<Longrightarrow> (r2 + (y + x)) mod c = r mod (c::nat)"
  by (metis add.assoc mod_add_left_eq)

lemma pool_gives_Cons:
  assumes c: "carved sz a p p1" and g: "pool_gives sz new p1 p2"
  shows "pool_gives sz (new @ [a]) p p2"
proof -
  have "(pool_rem p2 + (length new * sz + sz)) mod INTERNAL_MALLOC_CHUNK_SIZE = pool_rem p mod INTERNAL_MALLOC_CHUNK_SIZE"
    using c g unfolding carved_def pool_gives_def by (intro mod_shift_trans[of "pool_rem p1"]) auto
  then show ?thesis
    using c g by (auto simp: carved_def pool_gives_def algebra_simps)
qed

lemma batch_from_pool:
  assumes i: "i < NUM_BUCKETS" "sz \<le> SIZE_THRESH" "0 < sz" "sz dvd INTERNAL_MALLOC_CHUNK_SIZE"
    and "free_list (buckets (im_desc s) i) = []" "free_list_size (buckets (im_desc s) i) = 0"
    and "pool_inv (im_pool s)" "sz dvd pool_rem (im_pool s)" "room k s"
    and run: "repeatA k (im_batch_body w sz i) s = Inr (u, s')"
  shows "\<exists>new p' om oh. s' = s\<lparr>im_pool := p', im_desc := take_global k sz i (im_desc s),
            wim := (wim s)(w := give_worker new i (wim s w)), os_mmap := om, os_heap := oh\<rparr> \<and>
          length new = k \<and> pool_gives sz new (im_pool s) p'"
  using assms(5-)
proof (induction k arbitrary: s)
  case 0
  then show ?case
    by (intro exI[of _ "[]"] exI[of _ "im_pool s"] exI[of _ "os_mmap s"] exI[of _ "os_heap s"])
       (auto simp: pool_gives_def)
next
  case (Suc k)
  let ?s0 = "s\<lparr>im_desc := take_global 1 sz i (im_desc s)\<rparr>"
  obtain a s1 where c: "pool_carve sz ?s0 = Inr (a, s1)"
    and rest: "repeatA k (im_batch_body w sz i) (upd_wbucket w i (add_to_free_list a) s1) = Inr (u, s')"
    using Suc.prems(6) by (auto simp: act_dest im_batch_body_def global_im_alloc_pool[OF i(1,2) Suc.prems(1,2)])
  have pre: "pool_inv (im_pool ?s0)" "room 1 ?s0" "sz dvd pool_rem (im_pool ?s0)"
    using Suc.prems by (auto simp: room_def)
  obtain p1 om1 oh1 where s1: "s1 = ?s0\<lparr>im_pool := p1, os_mmap := om1, os_heap := oh1\<rparr>"
    and "carved sz a (im_pool ?s0) p1"
    by (rule pool_carve_Inr[OF c pre(1,2) i(3,4) pre(3)])
  then have p1: "carved sz a (im_pool s) p1" by simp
  let ?s2 = "s\<lparr>im_pool := p1, im_desc := take_global 1 sz i (im_desc s),
       wim := (wim s)(w := give_worker [a] i (wim s w)), os_mmap := om1, os_heap := oh1\<rparr>"
  have s2: "upd_wbucket w i (add_to_free_list a) s1 = ?s2"
    unfolding upd_wbucket_add s1 by simp
  have "room k ?s2" using p1 Suc.prems(5) by (auto simp: carved_def room_def)
  then have "\<exists>new p' om oh. s' = ?s2\<lparr>im_pool := p', im_desc := take_global k sz i (im_desc ?s2),
            wim := (wim ?s2)(w := give_worker new i (wim ?s2 w)), os_mmap := om, os_heap := oh\<rparr> \<and>
          length new = k \<and> pool_gives sz new (im_pool ?s2) p'"
    using Suc.prems(1,2) rest p1 unfolding s2
    by (intro Suc.IH) (simp_all add: carved_def take_global_def)
  then obtain new p' om oh where s': "s' = ?s2\<lparr>im_pool := p', im_desc := take_global k sz i (im_desc ?s2),
            wim := (wim ?s2)(w := give_worker new i (wim ?s2 w)), os_mmap := om, os_heap := oh\<rparr>"
    and new: "length new = k" "pool_gives sz new p1 p'"
    by (elim exE conjE) (rule that, assumption+, simp)
  show ?case
    by (rule exI[of _ "new @ [a]"], rule exI[of _ p'], rule exI[of _ om], rule exI[of _ oh])
       (use s' new p1 in \<open>simp add: take_global_add give_worker_append pool_gives_Cons fun_upd_def\<close>)
qed

definition give_global :: "addr list \<Rightarrow> nat \<Rightarrow> nat \<Rightarrow> cilk_im_desc \<Rightarrow> cilk_im_desc" where
  "give_global new sz i d = d\<lparr>used := used d - int (length new * sz),
     buckets := (buckets d)(i := (buckets d i)\<lparr>free_list := new @ free_list (buckets d i),
                                               free_list_size := free_list_size (buckets d i) + length new\<rparr>)\<rparr>"

definition take_worker :: "nat \<Rightarrow> nat \<Rightarrow> cilk_im_desc \<Rightarrow> cilk_im_desc" where
  "take_worker k i d = d\<lparr>buckets := (buckets d)(i := (buckets d i)\<lparr>free_list := drop k (free_list (buckets d i)),
     free_list_size := free_list_size (buckets d i) - k, b_allocated := b_allocated (buckets d i) - int k\<rparr>)\<rparr>"

lemma give_global_append: "give_global ys sz i (give_global xs sz i d) = give_global (ys @ xs) sz i d"
  by (simp add: give_global_def algebra_simps)

lemma take_worker_add: "take_worker k i (take_worker m i d) = take_worker (m + k) i d"
  by (simp add: take_worker_def algebra_simps)

lemma give_global_Nil [simp]: "give_global [] sz i d = d"
  by (simp add: give_global_def)

lemma take_worker_0 [simp]: "take_worker 0 i d = d"
  by (simp add: take_worker_def)

lemma im_free_loop_run:
  "k \<le> length (free_list (buckets (wim s w) i)) \<Longrightarrow> im_free_loop k w sz i s =
    Inr ((), s\<lparr>im_desc := give_global (rev (take k (free_list (buckets (wim s w) i)))) sz i (im_desc s),
               wim := (wim s)(w := take_worker k i (wim s w))\<rparr>)"
proof (induction k arbitrary: s)
  case (Suc k)
  obtain a rest where wl: "free_list (buckets (wim s w) i) = a # rest"
    using Suc.prems by (cases "free_list (buckets (wim s w) i)") auto
  let ?s1 = "s\<lparr>im_desc := give_global [a] sz i (im_desc s), wim := (wim s)(w := take_worker 1 i (wim s w))\<rparr>"
  have wl1: "free_list (buckets (wim ?s1 w) i) = rest"
    by (simp add: take_worker_def wl)
  have "im_free_loop (Suc k) w sz i s = im_free_loop k w sz i ?s1"
    by (cases s, cases "im_desc s")
       (use wl in \<open>simp add: remove_from_free_list_def add_to_free_list_def give_global_def take_worker_def\<close>)
  then show ?case
    using Suc.IH[of ?s1] Suc.prems wl unfolding wl1
    by (simp add: give_global_append take_worker_add)
qed simp

lemma im_free_loop_short:
  "length (free_list (buckets (wim s w) i)) \<le> k \<Longrightarrow>
   im_free_loop k w sz i s = im_free_loop (length (free_list (buckets (wim s w) i))) w sz i s"
proof (induction k arbitrary: s)
  case (Suc k)
  show ?case
  proof (cases "free_list (buckets (wim s w) i)")
    case (Cons a rest)
    then show ?thesis
      using Suc by (simp add: remove_from_free_list_def)
  qed (simp add: remove_from_free_list_def)
qed simp

lemma im_lock_id: "\<not> im_lock s \<Longrightarrow> s\<lparr>im_lock := False\<rparr> = s"
  by (cases s) simp

lemma im_free_batch_run:
  assumes "\<not> im_lock s" and k: "k = min (bucket_capacity ! i div 2) (length (free_list (buckets (wim s w) i)))"
  shows "im_free_batch w sz i s =
    Inr ((), s\<lparr>im_desc := give_global (rev (take k (free_list (buckets (wim s w) i)))) sz i (im_desc s),
               wim := (wim s)(w := take_worker k i (wim s w))\<rparr>)"
proof -
  let ?s1 = "s\<lparr>im_lock := True\<rparr>"
  have "im_free_loop (bucket_capacity ! i div 2) w sz i ?s1 = im_free_loop k w sz i ?s1"
    using im_free_loop_short[of ?s1 w i "bucket_capacity ! i div 2" sz] k
    by (cases "length (free_list (buckets (wim s w) i)) \<le> bucket_capacity ! i div 2") (auto simp: min_def)
  also have "\<dots> = Inr ((), ?s1\<lparr>im_desc := give_global (rev (take k (free_list (buckets (wim s w) i)))) sz i (im_desc s),
               wim := (wim s)(w := take_worker k i (wim s w))\<rparr>)"
    using im_free_loop_run[of k ?s1 w i sz] k by simp
  finally show ?thesis
    using assms(1)
    by (cases s) (simp add: im_free_batch_def thenA_def bindA_def cilk_mutex_lock_def)
qed

lemma NUM_BUCKETS_cases:
  "i < NUM_BUCKETS \<Longrightarrow> i = 0 \<or> i = 1 \<or> i = 2 \<or> i = 3 \<or> i = 4 \<or> i = 5 \<or> i = 6"
  by (auto simp: NUM_BUCKETS_def)

text \<open>Facts of the two tables: a batch is a multiple of 4096 bytes and block sizes divide it.\<close>

lemma bucket_tables:
  assumes "i < NUM_BUCKETS"
  shows "0 < bucket_sizes ! i" "bucket_sizes ! i \<le> SIZE_THRESH"
    "bucket_sizes ! i dvd 4096" "4096 dvd bucket_capacity ! i div 2 * (bucket_sizes ! i)"
    "0 < bucket_capacity ! i div 2" "bucket_capacity ! i div 2 \<le> 128" "bucket_capacity ! i div 2 < bucket_capacity ! i"
    "bucket_capacity ! i = 2 * (bucket_capacity ! i div 2)"
  using NUM_BUCKETS_cases[OF assms]
  by (auto simp: bucket_sizes_def bucket_capacity_def SIZE_THRESH_def NUM_BUCKETS_def dvd_eq_mod_eq_0)

section \<open>Invariant and accounts\<close>

definition desc_ok :: "cilk_im_desc \<Rightarrow> bool" where
  "desc_ok d \<longleftrightarrow> (\<forall>i<NUM_BUCKETS. free_list_size (buckets d i) = length (free_list (buckets d i)))"

definition worker_ok :: "cilk_im_desc \<Rightarrow> bool" where
  "worker_ok d \<longleftrightarrow> desc_ok d \<and>
     (\<forall>i<NUM_BUCKETS. free_list_limit (buckets d i) = bucket_capacity ! i \<and>
                      b_allocated (buckets d i) \<le> max_allocated (buckets d i))"

definition within_limits :: "cilk_im_desc \<Rightarrow> bool" where
  "within_limits d \<longleftrightarrow> (\<forall>i<NUM_BUCKETS. free_list_size (buckets d i) \<le> free_list_limit (buckets d i))"

definition im_inv :: "nat \<Rightarrow> 'a im_state_scheme \<Rightarrow> bool" where
  "im_inv n s \<longleftrightarrow>
     \<not> im_lock s \<and> pool_inv (im_pool s) \<and> 4096 dvd pool_rem (im_pool s) \<and> desc_ok (im_desc s) \<and>
     (\<forall>i<NUM_BUCKETS. bucket_capacity ! i div 2 dvd length (free_list (buckets (im_desc s) i))) \<and>
     (\<forall>w<n. worker_ok (wim s w))"

text \<open>The weight of the blocks the workers have handed to their clients.\<close>

definition client_weight :: "(addr \<Rightarrow> nat \<Rightarrow> int) \<Rightarrow> nat \<Rightarrow> 'a im_state_scheme \<Rightarrow> int" where
  "client_weight phi n s =
     handed_out phi (im_pool s) - desc_weight phi (im_desc s) - (\<Sum>w<n. desc_weight phi (wim s w))"

text \<open>Bytes the global descriptor counts as used beyond what left the pool and its lists.\<close>

definition used_gap :: "'a im_state_scheme \<Rightarrow> int" where
  "used_gap s = used (im_desc s) + desc_weight (\<lambda>_ n. int n) (im_desc s) - handed_out (\<lambda>_ n. int n) (im_pool s)"

definition same_accounts :: "nat \<Rightarrow> 'a im_state_scheme \<Rightarrow> 'b im_state_scheme \<Rightarrow> bool" where
  "same_accounts n s s' \<longleftrightarrow>
     (\<forall>phi. block_weight phi \<longrightarrow> client_weight phi n s' = client_weight phi n s) \<and>
     used_gap s' = used_gap s \<and>
     num_malloc (im_desc s') = num_malloc (im_desc s) \<and>
     (\<forall>w. used (wim s' w) = used (wim s w) \<and> num_malloc (wim s' w) = num_malloc (wim s w) \<and>
          wasted_bytes (wim s' w) = wasted_bytes (wim s w))"

lemma same_accounts_refl [simp]: "same_accounts n s s"
  by (simp add: same_accounts_def)

lemma same_accounts_trans: "same_accounts n s s' \<Longrightarrow> same_accounts n s' s'' \<Longrightarrow> same_accounts n s s''"
  by (simp add: same_accounts_def)

interpretation bytes: block_weight "\<lambda>_ n. int n"
  by unfold_locales simp

lemma desc_weight_upd:
  "i < NUM_BUCKETS \<Longrightarrow> desc_weight phi (d\<lparr>buckets := (buckets d)(i := b)\<rparr>) =
     desc_weight phi d - bucket_weight phi i (buckets d i) + bucket_weight phi i b"
  by (simp add: desc_weight_def if_distrib sum_if_upd cong: if_cong)

lemma desc_weight_used [simp]: "desc_weight phi (d\<lparr>used := u\<rparr>) = desc_weight phi d"
  by (simp add: desc_weight_def)

lemma sum_list_take_drop:
  fixes f :: "'x \<Rightarrow> 'y::comm_monoid_add"
  shows "(\<Sum>x\<leftarrow>take k xs. f x) + (\<Sum>x\<leftarrow>drop k xs. f x) = (\<Sum>x\<leftarrow>xs. f x)"
  by (metis append_take_drop_id map_append sum_list_append)

lemma desc_weight_moves:
  assumes "i < NUM_BUCKETS"
  shows "desc_weight phi (take_global k sz i d) =
           desc_weight phi d - (\<Sum>p\<leftarrow>take k (free_list (buckets d i)). phi p (bucket_sizes ! i))"
    and "desc_weight phi (give_worker new i d) = desc_weight phi d + (\<Sum>p\<leftarrow>new. phi p (bucket_sizes ! i))"
    and "desc_weight phi (give_global new sz i d) = desc_weight phi d + (\<Sum>p\<leftarrow>new. phi p (bucket_sizes ! i))"
    and "desc_weight phi (take_worker k i d) =
           desc_weight phi d - (\<Sum>p\<leftarrow>take k (free_list (buckets d i)). phi p (bucket_sizes ! i))"
  using assms sum_list_take_drop[of "\<lambda>p. phi p (bucket_sizes ! i)" k "free_list (buckets d i)"]
  by (simp_all add: take_global_def give_worker_def give_global_def take_worker_def
        desc_weight_upd[where d = "d\<lparr>used := u\<rparr>" for u, simplified] desc_weight_upd bucket_weight_def)

lemma sum_workers_upd:
  fixes f :: "cilk_im_desc \<Rightarrow> int"
  assumes "w < n"
  shows "(\<Sum>v<n. f (if v = w then d else wim s v)) = (\<Sum>v<n. f (wim s v)) - f (wim s w) + f d"
  using sum_if_upd[of "{..<n}" w "f d" "\<lambda>v. f (wim s v)"] assms
  by (simp add: if_distrib cong: if_cong)

lemma wasted_bytes_upd:
  "b_wasted b = b_wasted (buckets d i) \<Longrightarrow>
   wasted_bytes (d\<lparr>buckets := (buckets d)(i := b)\<rparr>) = wasted_bytes d"
  by (simp add: wasted_bytes_def if_distrib cong: if_cong) (rule sum.cong, auto)

lemma move_fields [simp]:
  "used (give_worker new i d) = used d" "num_malloc (give_worker new i d) = num_malloc d"
  "wasted_bytes (give_worker new i d) = wasted_bytes d"
  "used (take_worker k i d) = used d" "num_malloc (take_worker k i d) = num_malloc d"
  "wasted_bytes (take_worker k i d) = wasted_bytes d"
  "num_malloc (take_global k sz i d) = num_malloc d" "num_malloc (give_global new sz i d) = num_malloc d"
  "used (take_global k sz i d) = used d + int (k * sz)" "used (give_global new sz i d) = used d - int (length new * sz)"
  by (simp_all add: give_worker_def take_worker_def take_global_def give_global_def wasted_bytes_upd)

lemma int_sum_const: "(\<Sum>p\<leftarrow>xs. int k) = int (length xs * k)"
  by (induction xs) (auto simp: algebra_simps)

lemma im_invD:
  assumes "im_inv n s"
  shows "\<not> im_lock s" "pool_inv (im_pool s)" "4096 dvd pool_rem (im_pool s)" "desc_ok (im_desc s)"
    "i < NUM_BUCKETS \<Longrightarrow> bucket_capacity ! i div 2 dvd length (free_list (buckets (im_desc s) i))"
    "w < n \<Longrightarrow> worker_ok (wim s w)"
  using assms by (auto simp: im_inv_def)

lemma worker_ok_give: "worker_ok d \<Longrightarrow> worker_ok (give_worker new i d)"
  by (auto simp: worker_ok_def desc_ok_def give_worker_def)

lemma worker_ok_take: "worker_ok d \<Longrightarrow> worker_ok (take_worker k i d)"
  by (fastforce simp: worker_ok_def desc_ok_def take_worker_def)

lemma free_batch_step:
  assumes inv: "im_inv n s" and w: "w < n" and i: "i < NUM_BUCKETS"
    and full: "bucket_capacity ! i div 2 \<le> length (free_list (buckets (wim s w) i))"
  shows "\<exists>s'. im_free_batch w (bucket_sizes ! i) i s = Inr ((), s') \<and> im_inv n s' \<and> same_accounts n s s' \<and>
    wim s' = (wim s)(w := take_worker (bucket_capacity ! i div 2) i (wim s w))"
proof -
  let ?k = "bucket_capacity ! i div 2" and ?wl = "free_list (buckets (wim s w) i)"
  let ?s' = "s\<lparr>im_desc := give_global (rev (take ?k ?wl)) (bucket_sizes ! i) i (im_desc s),
               wim := (wim s)(w := take_worker ?k i (wim s w))\<rparr>"
  have run: "im_free_batch w (bucket_sizes ! i) i s = Inr ((), ?s')"
    using full by (intro im_free_batch_run) (simp_all add: im_invD[OF inv] min_def)
  have "im_inv n ?s'"
    using inv full worker_ok_take unfolding im_inv_def
    by (auto simp: give_global_def desc_ok_def)
  moreover have "same_accounts n s ?s'"
    using full w
    by (simp add: same_accounts_def client_weight_def used_gap_def desc_weight_moves[OF i] sum_workers_upd
          rev_map[symmetric] int_sum_const)
  ultimately show ?thesis using run by (intro exI[of _ ?s']) simp
qed

lemma im_trim_run:
  assumes "im_inv n s" "w < n" and i: "i < NUM_BUCKETS"
    and "length (free_list (buckets (wim s w) i)) \<le> fuel"
  shows "\<exists>s'. im_trim fuel w (bucket_sizes ! i) i s = Inr ((), s') \<and> im_inv n s' \<and> same_accounts n s s' \<and>
    free_list_size (buckets (wim s' w) i) \<le> free_list_limit (buckets (wim s' w) i) \<and>
    (\<forall>v j. v \<noteq> w \<or> j \<noteq> i \<longrightarrow> buckets (wim s' v) j = buckets (wim s v) j)"
  using assms(1,2,4)
proof (induction fuel arbitrary: s)
  case 0
  then show ?case using im_invD(6)[OF 0(1,2)] i by (auto simp: worker_ok_def desc_ok_def)
next
  case (Suc fuel)
  note b = im_invD(6)[OF Suc.prems(1,2), unfolded worker_ok_def desc_ok_def] bucket_tables[OF i]
  show ?case
  proof (cases "free_list_limit (buckets (wim s w) i) < free_list_size (buckets (wim s w) i)")
    case False
    then show ?thesis using Suc.prems by (intro exI[of _ s]) simp
  next
    case True
    then have full: "bucket_capacity ! i div 2 \<le> length (free_list (buckets (wim s w) i))"
      using b i by auto
    obtain s1 where run: "im_free_batch w (bucket_sizes ! i) i s = Inr ((), s1)"
      and s1: "im_inv n s1" "same_accounts n s s1"
        "wim s1 = (wim s)(w := take_worker (bucket_capacity ! i div 2) i (wim s w))"
      using free_batch_step[OF Suc.prems(1,2) i full] by blast
    have "length (free_list (buckets (wim s1 w) i)) \<le> fuel"
      using Suc.prems(3) b(6) by (simp add: s1(3) take_worker_def)
    then obtain s' where "im_trim fuel w (bucket_sizes ! i) i s1 = Inr ((), s')" "im_inv n s'" "same_accounts n s1 s'"
        "free_list_size (buckets (wim s' w) i) \<le> free_list_limit (buckets (wim s' w) i)"
        "\<forall>v j. v \<noteq> w \<or> j \<noteq> i \<longrightarrow> buckets (wim s' v) j = buckets (wim s1 v) j"
      using Suc.IH[OF s1(1) Suc.prems(2)] by blast
    then show ?thesis
      using True same_accounts_trans[OF s1(2)]
      by (intro exI[of _ s']) (auto simp: thenA_def bindA_def run s1(3) take_worker_def)
  qed
qed

lemma chunk_mod_dvd:
  assumes "(r' + x) mod INTERNAL_MALLOC_CHUNK_SIZE = r mod INTERNAL_MALLOC_CHUNK_SIZE" "4096 dvd r" "4096 dvd x"
  shows "4096 dvd r'"
proof -
  have "4096 dvd r' + x"
    using assms(1,2) dvd_mod_iff[of 4096 INTERNAL_MALLOC_CHUNK_SIZE "r' + x"]
      dvd_mod_iff[of 4096 INTERNAL_MALLOC_CHUNK_SIZE r] by (simp add: INTERNAL_MALLOC_CHUNK_SIZE_def)
  then show ?thesis using assms(3) by (simp add: dvd_add_left_iff)
qed

text \<open>A batch of blocks that left the global lists or the pool, for the worker's list.\<close>

definition batch_source :: "worker_id \<Rightarrow> nat \<Rightarrow> addr list \<Rightarrow> global_im_pool \<Rightarrow>
    'a im_state_scheme \<Rightarrow> 'a im_state_scheme \<Rightarrow> bool" where
  "batch_source w i new p' s s' \<longleftrightarrow>
     (\<exists>om oh. s' = s\<lparr>im_pool := p', im_desc := take_global (length new) (bucket_sizes ! i) i (im_desc s),
        wim := (wim s)(w := give_worker new i (wim s w)), os_mmap := om, os_heap := oh\<rparr>) \<and>
     pool_inv p' \<and> 4096 dvd pool_rem p' \<and>
     (\<forall>phi. block_weight phi \<longrightarrow>
        handed_out phi p' + (\<Sum>p\<leftarrow>take (length new) (free_list (buckets (im_desc s) i)). phi p (bucket_sizes ! i))
        = handed_out phi (im_pool s) + (\<Sum>a\<leftarrow>new. phi a (bucket_sizes ! i)))"

lemma batch_loop:
  assumes pool: "pool_inv (im_pool s)" "4096 dvd pool_rem (im_pool s)" and d: "desc_ok (im_desc s)"
    and gran: "bucket_capacity ! i div 2 dvd length (free_list (buckets (im_desc s) i))"
    and i: "i < NUM_BUCKETS" and room: "room 128 s"
    and loop: "repeatA (bucket_capacity ! i div 2) (im_batch_body w (bucket_sizes ! i) i) s = Inr (u, s')"
  obtains new p' where "length new = bucket_capacity ! i div 2" "batch_source w i new p' s s'"
proof (cases "free_list (buckets (im_desc s) i) = []")
  case True
  note tab = bucket_tables[OF i]
  have pre: "free_list_size (buckets (im_desc s) i) = 0" "bucket_sizes ! i dvd INTERNAL_MALLOC_CHUNK_SIZE"
      "bucket_sizes ! i dvd pool_rem (im_pool s)" "room (bucket_capacity ! i div 2) s"
    using True d i dvd_trans[OF tab(3)] pool(2) room tab(6)
    by (auto simp: desc_ok_def INTERNAL_MALLOC_CHUNK_SIZE_def room_def)
  obtain new p' om oh where s': "s' = s\<lparr>im_pool := p', im_desc := take_global (bucket_capacity ! i div 2) (bucket_sizes ! i) i (im_desc s),
            wim := (wim s)(w := give_worker new i (wim s w)), os_mmap := om, os_heap := oh\<rparr>"
    and new: "length new = bucket_capacity ! i div 2" "pool_gives (bucket_sizes ! i) new (im_pool s) p'"
    using batch_from_pool[OF i tab(2,1) pre(2) True pre(1) pool(1) pre(3,4) loop]
    by (elim exE conjE) (rule that)
  have "4096 dvd pool_rem p'"
    using chunk_mod_dvd[of "pool_rem p'" "length new * bucket_sizes ! i" "pool_rem (im_pool s)"] new pool(2) tab(4)
    by (simp add: pool_gives_def)
  then have "batch_source w i new p' s s'"
    using s' new True unfolding batch_source_def pool_gives_def by auto
  then show thesis using that new(1) by blast
next
  case False
  let ?new = "rev (take (bucket_capacity ! i div 2) (free_list (buckets (im_desc s) i)))"
  have len: "bucket_capacity ! i div 2 \<le> length (free_list (buckets (im_desc s) i))"
    using False gran by (meson dvd_imp_le length_greater_0_conv)
  have "s' = s\<lparr>im_desc := take_global (bucket_capacity ! i div 2) (bucket_sizes ! i) i (im_desc s),
               wim := (wim s)(w := give_worker ?new i (wim s w))\<rparr>"
    using loop unfolding batch_from_list[OF i bucket_tables(2)[OF i] len] by simp
  then have "batch_source w i ?new (im_pool s) s s'"
    using pool len unfolding batch_source_def
    by (intro conjI exI[of _ "os_mmap s"] exI[of _ "os_heap s"]) (simp_all add: rev_map[symmetric])
  then show thesis using len by (intro that[of ?new]) simp_all
qed

lemma worker_ok_counts:
  "worker_ok d \<Longrightarrow> a \<le> m \<Longrightarrow> worker_ok (d\<lparr>buckets := (buckets d)(i := (buckets d i)\<lparr>b_allocated := a, max_allocated := m\<rparr>)\<rparr>)"
  by (auto simp: worker_ok_def desc_ok_def)

definition count_batch :: "nat \<Rightarrow> nat \<Rightarrow> cilk_im_desc \<Rightarrow> cilk_im_desc" where
  "count_batch k i d = d\<lparr>buckets := (buckets d)(i := (let b = buckets d i; a = b_allocated b + int k
     in b\<lparr>b_allocated := a, max_allocated := (if a > max_allocated b then a else max_allocated b)\<rparr>))\<rparr>"

lemma count_batch_fields [simp]:
  "used (count_batch k i d) = used d" "num_malloc (count_batch k i d) = num_malloc d"
  "wasted_bytes (count_batch k i d) = wasted_bytes d"
  "i < NUM_BUCKETS \<Longrightarrow> desc_weight phi (count_batch k i d) = desc_weight phi d"
  "free_list (buckets (count_batch k i d) j) = free_list (buckets d j)"
  "j \<noteq> i \<Longrightarrow> buckets (count_batch k i d) j = buckets d j"
  by (simp_all add: count_batch_def Let_def wasted_bytes_upd desc_weight_upd bucket_weight_def)

lemma worker_ok_count_batch: "worker_ok d \<Longrightarrow> worker_ok (count_batch k i d)"
  unfolding count_batch_def Let_def by (rule worker_ok_counts) auto

lemma batch_final:
  assumes inv: "im_inv n s" and w: "w < n" and i: "i < NUM_BUCKETS"
    and new: "length new = bucket_capacity ! i div 2"
    and p': "pool_inv p'" "4096 dvd pool_rem p'"
    and wt: "\<And>phi. block_weight phi \<Longrightarrow>
        handed_out phi p' + (\<Sum>p\<leftarrow>take (length new) (free_list (buckets (im_desc s) i)). phi p (bucket_sizes ! i))
        = handed_out phi (im_pool s) + (\<Sum>a\<leftarrow>new. phi a (bucket_sizes ! i))"
    and s': "s' = s\<lparr>im_pool := p', im_desc := take_global (length new) (bucket_sizes ! i) i (im_desc s),
        wim := (wim s)(w := count_batch (length new) i (give_worker new i (wim s w))), os_mmap := om, os_heap := oh\<rparr>"
  shows "im_inv n s'" "same_accounts n s s'"
proof -
  have "desc_ok (take_global (length new) sz i (im_desc s))" for sz
    using im_invD(4)[OF inv] by (auto simp: take_global_def desc_ok_def)
  moreover have "bucket_capacity ! j div 2 dvd length (free_list (buckets (take_global (length new) sz i (im_desc s)) j))"
    if "j < NUM_BUCKETS" for j sz
    using im_invD(5)[OF inv that] new by (auto simp: take_global_def)
  ultimately show "im_inv n s'"
    using im_invD(1,6)[OF inv] p' worker_ok_count_batch[OF worker_ok_give] by (simp add: im_inv_def s')
  show "same_accounts n s s'"
    using wt wt[OF bytes.block_weight_axioms] w
    by (simp add: same_accounts_def client_weight_def used_gap_def desc_weight_moves[OF i] sum_workers_upd i s' int_sum_const algebra_simps)
qed

lemma allocate_batch_step:
  assumes inv: "im_inv n s" and w: "w < n" and i: "i < NUM_BUCKETS" and room: "room 128 s"
    and run: "im_allocate_batch w (bucket_sizes ! i) i s = Inr (u, s')"
  obtains "im_inv n s'" "same_accounts n s s'"
    "length (free_list (buckets (wim s' w) i)) = length (free_list (buckets (wim s w) i)) + bucket_capacity ! i div 2"
    "\<And>v j. v \<noteq> w \<or> j \<noteq> i \<Longrightarrow> buckets (wim s' v) j = buckets (wim s v) j"
proof -
  let ?k = "bucket_capacity ! i div 2" and ?s1 = "s\<lparr>im_lock := True\<rparr>"
  obtain s2 where loop: "repeatA ?k (im_batch_body w (bucket_sizes ! i) i) ?s1 = Inr ((), s2)"
    and s': "s' = s2\<lparr>im_lock := False, wim := (wim s2)(w := count_batch ?k i (wim s2 w))\<rparr>"
    using run im_invD(1)[OF inv] by (auto simp: im_allocate_batch_def Let_def act_dest count_batch_def)
  have pre: "pool_inv (im_pool ?s1)" "4096 dvd pool_rem (im_pool ?s1)" "desc_ok (im_desc ?s1)"
      "?k dvd length (free_list (buckets (im_desc ?s1) i))" "room 128 ?s1"
    using im_invD(2-4)[OF inv] im_invD(5)[OF inv i] room by (simp_all add: room_def)
  obtain new p' where new: "length new = ?k" and src: "batch_source w i new p' ?s1 s2"
    by (rule batch_loop[OF pre(1-4) i pre(5) loop])
  obtain om oh where s2: "s2 = ?s1\<lparr>im_pool := p', im_desc := take_global (length new) (bucket_sizes ! i) i (im_desc s),
        wim := (wim s)(w := give_worker new i (wim s w)), os_mmap := om, os_heap := oh\<rparr>"
    using src by (auto simp: batch_source_def)
  have s'': "s' = s\<lparr>im_pool := p', im_desc := take_global (length new) (bucket_sizes ! i) i (im_desc s),
        wim := (wim s)(w := count_batch (length new) i (give_worker new i (wim s w))), os_mmap := om, os_heap := oh\<rparr>"
    using im_invD(1)[OF inv] unfolding s' s2 new by (cases s) (simp add: fun_upd_def)
  have "im_inv n s'" "same_accounts n s s'"
    using src by (intro batch_final[OF inv w i new _ _ _ s'']; simp add: batch_source_def)+
  then show thesis
    using that new by (auto simp: s'' give_worker_def)
qed

text \<open>What \<open>cilk_internal_malloc\<close> and \<open>cilk_internal_free\<close> enter into the worker's counters.\<close>

definition charge :: "int \<Rightarrow> nat \<Rightarrow> im_tag \<Rightarrow> cilk_im_desc \<Rightarrow> cilk_im_desc" where
  "charge c sz tag d = (let i = size_to_bucket sz in
     d\<lparr>used := used d + c * int sz, num_malloc := (num_malloc d)(tag := num_malloc d tag + c),
       buckets := (buckets d)(i := (buckets d i)\<lparr>b_wasted := b_wasted (buckets d i) + c * int (bucket_to_size i - sz)\<rparr>)\<rparr>)"

definition pop_worker :: "nat \<Rightarrow> cilk_im_desc \<Rightarrow> cilk_im_desc" where
  "pop_worker i d = d\<lparr>buckets := (buckets d)(i := (buckets d i)\<lparr>free_list := tl (free_list (buckets d i)),
     free_list_size := free_list_size (buckets d i) - 1\<rparr>)\<rparr>"

lemma size_to_bucket_le: "size_to_bucket sz < NUM_BUCKETS \<longleftrightarrow> sz \<le> SIZE_THRESH"
  by (auto simp: size_to_bucket_def NUM_BUCKETS_def SIZE_THRESH_def bucket_sizes_def upt_rec)

lemma worker_remove_run:
  "worker_remove w i s = (case free_list (buckets (wim s w) i) of
     [] \<Rightarrow> Inr (None, s)
   | m # _ \<Rightarrow> Inr (Some m, s\<lparr>wim := (wim s)(w := pop_worker i (wim s w))\<rparr>))"
  by (simp add: worker_remove_def remove_from_free_list_def pop_worker_def split: list.splits)

lemma charge_buckets [simp]:
  "free_list (buckets (charge c sz tag d) j) = free_list (buckets d j)"
  "free_list_size (buckets (charge c sz tag d) j) = free_list_size (buckets d j)"
  "free_list_limit (buckets (charge c sz tag d) j) = free_list_limit (buckets d j)"
  "b_allocated (buckets (charge c sz tag d) j) = b_allocated (buckets d j)"
  "max_allocated (buckets (charge c sz tag d) j) = max_allocated (buckets d j)"
  "used (charge c sz tag d) = used d + c * int sz"
  "num_malloc (charge c sz tag d) = (num_malloc d)(tag := num_malloc d tag + c)"
  by (simp_all add: charge_def Let_def)

lemma malloc_run:
  assumes "i = size_to_bucket sz" "i < NUM_BUCKETS" and s0: "s0 = s\<lparr>wim := (wim s)(w := charge 1 sz tag (wim s w))\<rparr>"
  shows "cilk_internal_malloc w sz tag s =
    (case free_list (buckets (wim s w) i) of
       m # _ \<Rightarrow> Inr (m, s0\<lparr>wim := (wim s0)(w := pop_worker i (wim s0 w))\<rparr>)
     | [] \<Rightarrow> (case im_allocate_batch w (bucket_sizes ! i) i s0 of
         Inl e \<Rightarrow> Inl e
       | Inr (_, s1) \<Rightarrow> (case free_list (buckets (wim s1 w) i) of
            m # _ \<Rightarrow> Inr (m, s1\<lparr>wim := (wim s1)(w := pop_worker i (wim s1 w))\<rparr>)
          | [] \<Rightarrow> Inl (Assertion Internal_malloc_c 498))))"
proof -
  have "upd_wbucket w i (\<lambda>b. b\<lparr>b_wasted := b_wasted b + int (bucket_to_size i - sz)\<rparr>)
      (upd_wdesc w (\<lambda>d. d\<lparr>used := used d + int sz, num_malloc := (num_malloc d)(tag := num_malloc d tag + 1)\<rparr>) s) = s0"
    by (simp add: charge_def Let_def assms fun_upd_def)
  then have "cilk_internal_malloc w sz tag s = bindA (worker_remove w i) (\<lambda>mem. case mem of Some m \<Rightarrow> ret m
      | None \<Rightarrow> thenA (im_allocate_batch w (bucket_sizes ! i) i)
          (bindA (worker_remove w i) (\<lambda>mem. case mem of Some m \<Rightarrow> ret m
             | None \<Rightarrow> fail (Assertion Internal_malloc_c 498)))) s0"
    using assms(2) unfolding assms(1) by (simp add: cilk_internal_malloc_def Let_def bucket_to_size_def)
  moreover have "free_list (buckets (wim s0 w) i) = free_list (buckets (wim s w) i)"
    by (simp add: s0)
  ultimately show ?thesis
    by (simp add: bindA_def thenA_def worker_remove_run split: list.splits sum.splits prod.splits)
qed

section \<open>Clients\<close>

text \<open>The blocks clients hold, each with the size and tag it was allocated with.\<close>

type_synonym ledger = "(addr \<times> nat \<times> im_tag) multiset"

definition csize :: "nat \<Rightarrow> nat" where
  "csize sz = bucket_to_size (size_to_bucket sz)"

definition books :: "nat \<Rightarrow> 'a im_state_scheme \<Rightarrow> ledger \<Rightarrow> bool" where
  "books n s live \<longleftrightarrow>
     (\<forall>phi. block_weight phi \<longrightarrow> client_weight phi n s = (\<Sum>(a, sz, t)\<in>#live. phi a (csize sz))) \<and>
     used_gap s = 0 \<and>
     (\<Sum>w<n. used (wim s w)) = (\<Sum>(a, sz, t)\<in>#live. int sz) \<and>
     (\<Sum>w<n. wasted_bytes (wim s w)) = (\<Sum>(a, sz, t)\<in>#live. int (csize sz - sz)) \<and>
     (\<forall>t. num_malloc (im_desc s) t = 0 \<and>
          (\<Sum>w<n. num_malloc (wim s w) t) = int (size (filter_mset (\<lambda>(_, _, t'). t' = t) live))) \<and>
     (\<forall>(a, sz, t)\<in>#live. sz \<le> SIZE_THRESH)"

definition im_good :: "nat \<Rightarrow> 'a im_state_scheme \<Rightarrow> ledger \<Rightarrow> bool" where
  "im_good n s live \<longleftrightarrow> im_inv n s \<and> (\<forall>w<n. within_limits (wim s w)) \<and> books n s live"

lemma charge_weights [simp]:
  assumes "size_to_bucket sz < NUM_BUCKETS"
  shows "desc_weight phi (charge c sz tag d) = desc_weight phi d"
    and "wasted_bytes (charge c sz tag d) = wasted_bytes d + c * int (csize sz - sz)"
proof -
  show "desc_weight phi (charge c sz tag d) = desc_weight phi d"
    by (simp add: desc_weight_def bucket_weight_def)
  show "wasted_bytes (charge c sz tag d) = wasted_bytes d + c * int (csize sz - sz)"
    using assms sum_if_upd[of "{..<NUM_BUCKETS}" "size_to_bucket sz" _ "\<lambda>j. b_wasted (buckets d j)"]
    by (simp add: wasted_bytes_def charge_def Let_def csize_def if_distrib cong: if_cong)
qed

lemma pop_worker_fields [simp]:
  "used (pop_worker i d) = used d" "num_malloc (pop_worker i d) = num_malloc d"
  "wasted_bytes (pop_worker i d) = wasted_bytes d"
  by (simp_all add: pop_worker_def wasted_bytes_upd)

lemma pop_worker_weight:
  assumes "i < NUM_BUCKETS" "free_list (buckets d i) = a # rest"
  shows "desc_weight phi (pop_worker i d) = desc_weight phi d - phi a (bucket_sizes ! i)"
  using assms by (simp add: pop_worker_def desc_weight_upd bucket_weight_def)

lemma worker_ok_charge [simp]: "worker_ok (charge c sz tag d) = worker_ok d"
  by (simp add: worker_ok_def desc_ok_def)

lemma within_limits_charge [simp]: "within_limits (charge c sz tag d) = within_limits d"
  by (simp add: within_limits_def)

lemma worker_ok_pop: "worker_ok d \<Longrightarrow> worker_ok (pop_worker i d)"
  by (auto simp: worker_ok_def desc_ok_def pop_worker_def)

lemma within_limits_pop: "within_limits d \<Longrightarrow> within_limits (pop_worker i d)"
  by (auto simp: within_limits_def pop_worker_def intro: le_trans[OF diff_le_self])

lemma worker_field_if:
  "used (if b then pop_worker i d else d') = used (if b then d else d')"
  "wasted_bytes (if b then pop_worker i d else d') = wasted_bytes (if b then d else d')"
  "num_malloc (if b then pop_worker i d else d') t = num_malloc (if b then d else d') t"
  by simp_all

lemma books_malloc:
  assumes b: "books n s live" and w: "w < n" and i: "i = size_to_bucket sz" "i < NUM_BUCKETS"
    and s0: "s0 = s\<lparr>wim := (wim s)(w := charge 1 sz tag (wim s w))\<rparr>" and same: "same_accounts n s0 s1"
    and a: "free_list (buckets (wim s1 w) i) = a # rest"
    and s': "s' = s1\<lparr>wim := (wim s1)(w := pop_worker i (wim s1 w))\<rparr>"
  shows "books n s' (add_mset (a, sz, tag) live)"
proof -
  have i': "size_to_bucket sz < NUM_BUCKETS" using i by simp
  have cw: "client_weight phi n s' = client_weight phi n s + phi a (csize sz)" if "block_weight phi" for phi
  proof -
    have "client_weight phi n s' = client_weight phi n s1 + phi a (csize sz)"
      using w i a by (simp add: s' client_weight_def sum_workers_upd pop_worker_weight csize_def bucket_to_size_def)
    moreover have "client_weight phi n s0 = client_weight phi n s"
      using w i' by (simp add: s0 client_weight_def sum_workers_upd)
    ultimately show ?thesis using same that by (simp add: same_accounts_def)
  qed
  have us: "(\<Sum>v<n. used (wim s' v)) = (\<Sum>v<n. used (wim s v)) + int sz"
    using same w
    by (simp add: same_accounts_def s' s0 sum_workers_upd worker_field_if)
  have wa: "(\<Sum>v<n. wasted_bytes (wim s' v)) = (\<Sum>v<n. wasted_bytes (wim s v)) + int (csize sz - sz)"
    using same w i'
    by (simp add: same_accounts_def s' s0 sum_workers_upd worker_field_if)
  have nm: "(\<Sum>v<n. num_malloc (wim s' v) t) = (\<Sum>v<n. num_malloc (wim s v) t) + (if t = tag then 1 else 0)" for t
    using same w
    by (simp add: same_accounts_def s' s0 worker_field_if
          sum_workers_upd[OF w, where f = "\<lambda>d. num_malloc d t"])
  have "used_gap s' = used_gap s" "num_malloc (im_desc s') = num_malloc (im_desc s)"
    using same by (simp_all add: same_accounts_def s' s0 used_gap_def)
  then show ?thesis
    using b i' by (auto simp: books_def cw us wa nm size_to_bucket_le algebra_simps)
qed

lemma malloc_step:
  assumes good: "im_good n s live" and w: "w < n" and sz: "sz \<le> SIZE_THRESH" and room: "room 128 s"
    and run: "cilk_internal_malloc w sz tag s = Inr (a, s')"
  shows "im_good n s' (add_mset (a, sz, tag) live)"
proof -
  let ?i = "size_to_bucket sz"
  have i: "?i < NUM_BUCKETS" using sz by (simp add: size_to_bucket_le)
  define s0 where "s0 = s\<lparr>wim := (wim s)(w := charge 1 sz tag (wim s w))\<rparr>"
  have inv: "im_inv n s" and lim: "\<forall>v<n. within_limits (wim s v)" and books: "books n s live"
    using good by (auto simp: im_good_def)
  have inv0: "im_inv n s0" and lim0: "\<forall>v<n. within_limits (wim s0 v)" and room0: "room 128 s0"
    using inv lim room by (auto simp: im_inv_def s0_def room_def)
  note run' = run[unfolded malloc_run[OF refl i s0_def]]
  obtain s1 rest where inv1: "im_inv n s1" and same: "same_accounts n s0 s1"
    and lim1: "\<forall>v<n. within_limits (wim s1 v)" and a: "free_list (buckets (wim s1 w) ?i) = a # rest"
    and s': "s' = s1\<lparr>wim := (wim s1)(w := pop_worker ?i (wim s1 w))\<rparr>"
  proof (cases "free_list (buckets (wim s w) ?i)")
    case (Cons m rest)
    then show thesis using run' inv0 lim0 by (intro that[of s0 rest]) (simp_all add: s0_def)
  next
    case Nil
    then obtain s1 m rest where b: "im_allocate_batch w (bucket_sizes ! ?i) ?i s0 = Inr ((), s1)"
        and a: "free_list (buckets (wim s1 w) ?i) = m # rest" "a = m"
          "s' = s1\<lparr>wim := (wim s1)(w := pop_worker ?i (wim s1 w))\<rparr>"
      using run' by (auto split: sum.splits list.splits)
    have s1: "im_inv n s1" "same_accounts n s0 s1"
      "length (free_list (buckets (wim s1 w) ?i)) = bucket_capacity ! ?i div 2"
      "\<And>v j. v \<noteq> w \<or> j \<noteq> ?i \<Longrightarrow> buckets (wim s1 v) j = buckets (wim s0 v) j"
      by (rule allocate_batch_step[OF inv0 w i room0 b]; simp add: s0_def Nil)+
    have "within_limits (wim s1 v)" if "v < n" for v
      using lim0 that s1(3,4) im_invD(6)[OF s1(1) that] bucket_tables(7)[OF i]
      unfolding within_limits_def worker_ok_def desc_ok_def by (metis less_imp_le)
    then show thesis using that s1(1,2) a by blast
  qed
  have "im_inv n s'" using inv1 worker_ok_pop by (simp add: im_inv_def s')
  moreover have "\<forall>v<n. within_limits (wim s' v)"
    using lim1 within_limits_pop by (simp add: s')
  ultimately show ?thesis
    using books_malloc[OF books w refl i s0_def same a s'] by (simp add: im_good_def)
qed

lemma free_run:
  assumes "i = size_to_bucket sz" "sz \<le> SIZE_THRESH"
    and s0: "s0 = s\<lparr>wim := (wim s)(w := give_worker [p] i (charge (-1) sz tag (wim s w)))\<rparr>"
  shows "cilk_internal_free w p sz tag s =
    im_trim (free_list_size (buckets (wim s0 w) i)) w (bucket_sizes ! i) i s0"
proof -
  have "upd_wbucket w i (\<lambda>b. add_to_free_list p (b\<lparr>b_wasted := b_wasted b - int (bucket_to_size i - sz)\<rparr>))
      (upd_wdesc w (\<lambda>d. d\<lparr>used := used d - int sz, num_malloc := (num_malloc d)(tag := num_malloc d tag - 1)\<rparr>) s) = s0"
    unfolding s0
    by (cases "buckets (wim s w) i")
       (simp add: charge_def Let_def assms fun_upd_def give_worker_def add_to_free_list_def)
  then show ?thesis
    using assms(2) size_to_bucket_le[of sz] unfolding assms(1)
    by (simp add: cilk_internal_free_def Let_def bucket_to_size_def)
qed

lemma books_free:
  assumes b: "books n s live" and w: "w < n" and i: "i = size_to_bucket sz" "i < NUM_BUCKETS"
    and live: "(p, sz, tag) \<in># live"
    and s0: "s0 = s\<lparr>wim := (wim s)(w := give_worker [p] i (charge (-1) sz tag (wim s w)))\<rparr>" and same: "same_accounts n s0 s1"
  shows "books n s1 (live - {#(p, sz, tag)#})"
proof -
  have i': "size_to_bucket sz < NUM_BUCKETS" using i by simp
  obtain rest where rest: "live = add_mset (p, sz, tag) rest" using live by (metis insert_DiffM)
  have cw: "client_weight phi n s0 = client_weight phi n s - phi p (csize sz)" for phi
    using w i i' by (simp add: s0 client_weight_def sum_workers_upd desc_weight_moves csize_def bucket_to_size_def)
  have us: "(\<Sum>v<n. used (wim s0 v)) = (\<Sum>v<n. used (wim s v)) - int sz"
    using w by (simp add: s0 sum_workers_upd)
  have wa: "(\<Sum>v<n. wasted_bytes (wim s0 v)) = (\<Sum>v<n. wasted_bytes (wim s v)) - int (csize sz - sz)"
    using w i' by (simp add: s0 sum_workers_upd)
  have nm: "(\<Sum>v<n. num_malloc (wim s0 v) t) = (\<Sum>v<n. num_malloc (wim s v) t) - (if t = tag then 1 else 0)" for t
    by (simp add: s0 sum_workers_upd[OF w, where f = "\<lambda>d. num_malloc d t"])
  have "used_gap s0 = used_gap s" "num_malloc (im_desc s0) = num_malloc (im_desc s)"
    by (simp_all add: s0 used_gap_def)
  then have "books n s0 rest"
    using b by (auto simp: books_def cw us wa nm rest algebra_simps split: if_splits)
  then show ?thesis
    using same by (auto simp: books_def same_accounts_def rest)
qed

lemma free_step:
  assumes good: "im_good n s live" and w: "w < n" and live: "(p, sz, tag) \<in># live"
  shows "\<exists>s'. cilk_internal_free w p sz tag s = Inr ((), s') \<and> im_good n s' (live - {#(p, sz, tag)#})"
proof -
  let ?i = "size_to_bucket sz"
  have inv: "im_inv n s" and lim: "\<forall>v<n. within_limits (wim s v)" and books: "books n s live"
    using good by (auto simp: im_good_def)
  have sz: "sz \<le> SIZE_THRESH" using books live by (auto simp: books_def)
  then have i: "?i < NUM_BUCKETS" by (simp add: size_to_bucket_le)
  define s0 where "s0 = s\<lparr>wim := (wim s)(w := give_worker [p] ?i (charge (-1) sz tag (wim s w)))\<rparr>"
  have inv0: "im_inv n s0"
    using inv w worker_ok_give by (simp add: im_inv_def s0_def)
  have "free_list_size (buckets (wim s0 w) ?i) = length (free_list (buckets (wim s0 w) ?i))"
    using im_invD(6)[OF inv0 w] i by (simp add: worker_ok_def desc_ok_def)
  then obtain s' where run: "im_trim (free_list_size (buckets (wim s0 w) ?i)) w (bucket_sizes ! ?i) ?i s0 = Inr ((), s')"
    and s': "im_inv n s'" "same_accounts n s0 s'"
      "free_list_size (buckets (wim s' w) ?i) \<le> free_list_limit (buckets (wim s' w) ?i)"
      "\<And>v j. v \<noteq> w \<or> j \<noteq> ?i \<Longrightarrow> buckets (wim s' v) j = buckets (wim s0 v) j"
    using im_trim_run[OF inv0 w i] by (metis order_refl)
  have "within_limits (wim s' v)" if "v < n" for v
    unfolding within_limits_def
  proof (intro allI impI)
    fix j assume "j < NUM_BUCKETS"
    then show "free_list_size (buckets (wim s' v) j) \<le> free_list_limit (buckets (wim s' v) j)"
      using s'(3) s'(4)[of v j] lim that
      by (cases "v = w \<and> j = ?i") (auto simp: within_limits_def s0_def give_worker_def)
  qed
  then show ?thesis
    using run free_run[OF refl sz s0_def] s'(1) books_free[OF books w refl i live s0_def s'(2)]
    by (intro exI[of _ s']) (simp add: im_good_def)
qed

subsection \<open>Only the system's refusal stops an allocation\<close>

definition out_of_memory :: "fault set" where
  "out_of_memory = {Die Internal_malloc_c 300, Die Internal_malloc_c 330}"

lemma extend_global_pool_Inl:
  assumes "extend_global_pool s = Inl e" and inv: "pool_inv (im_pool s)"
  shows "e \<in> out_of_memory"
proof -
  have "unat (mem_list_index (im_pool s) + 1) < length (mem_list (im_pool s))"
    if "\<not> mem_list_size (im_pool s) \<le> mem_list_index (im_pool s) + 1"
    using that inv by (simp add: pool_inv_def word_le_nat_alt)
  moreover have "unat (mem_list_index (im_pool s) + 1) \<le> length (mem_list (im_pool s))"
    by (rule pool_inv_index_le[OF inv])
  ultimately show ?thesis
    using assms(1)
    by (auto simp: extend_global_pool_def malloc_from_system_def bindA_def thenA_def grow_mem_list_def Let_def
          out_of_memory_def whenA_def MEM_LIST_SIZE_def split: if_splits list.splits option.splits)
qed

lemma pool_carve_Inl:
  assumes "pool_carve sz s = Inl e" and inv: "pool_inv (im_pool s)" and sz: "0 < sz" "sz dvd pool_rem (im_pool s)"
  shows "e \<in> out_of_memory"
proof -
  let ?s1 = "s\<lparr>im_pool := (im_pool s)\<lparr>wasted := wasted (im_pool s) + (mem_end (im_pool s) - mem_begin (im_pool s))\<rparr>\<rparr>"
  have full: "mem_end (im_pool s) < mem_begin (im_pool s) + sz" and e: "extend_global_pool ?s1 = Inl e"
    using assms(1) by (auto simp: pool_carve_def bindA_def thenA_def whenA_def split: if_splits sum.splits)
  have "pool_rem (im_pool s) < sz" using full sz(1) by (simp add: pool_rem_def)
  then have "pool_rem (im_pool s) = 0" using sz(2) by (metis dvd_imp_le not_le not_gr_zero)
  then have "?s1 = s" using inv by (cases s, cases "im_pool s") (simp add: pool_rem_def pool_inv_def)
  then show ?thesis using extend_global_pool_Inl e inv by simp
qed

lemma batch_from_pool_Inl:
  assumes i: "i < NUM_BUCKETS" "sz \<le> SIZE_THRESH" "0 < sz" "sz dvd INTERNAL_MALLOC_CHUNK_SIZE"
    and "free_list (buckets (im_desc s) i) = []" "free_list_size (buckets (im_desc s) i) = 0"
    and "pool_inv (im_pool s)" "sz dvd pool_rem (im_pool s)" "room k s"
    and "repeatA k (im_batch_body w sz i) s = Inl e"
  shows "e \<in> out_of_memory"
  using assms(5-)
proof (induction k arbitrary: s)
  case (Suc k)
  let ?s0 = "s\<lparr>im_desc := take_global 1 sz i (im_desc s)\<rparr>"
  note body = global_im_alloc_pool[OF i(1,2) Suc.prems(1,2)]
  have pre: "pool_inv (im_pool ?s0)" "room 1 ?s0" "sz dvd pool_rem (im_pool ?s0)"
    using Suc.prems by (auto simp: room_def)
  show ?case
  proof (cases "pool_carve sz ?s0")
    case (Inl e')
    then have "e' = e" using Suc.prems(6) body by (simp add: im_batch_body_def thenA_def bindA_def)
    then show ?thesis using pool_carve_Inl[OF Inl pre(1) i(3) pre(3)] by simp
  next
    case (Inr r)
    obtain a s1 where c: "pool_carve sz ?s0 = Inr (a, s1)" using Inr by (cases r) auto
    obtain p1 om1 oh1 where s1: "s1 = ?s0\<lparr>im_pool := p1, os_mmap := om1, os_heap := oh1\<rparr>"
      and "carved sz a (im_pool ?s0) p1"
      by (rule pool_carve_Inr[OF c pre(1,2) i(3,4) pre(3)])
    then have p1: "carved sz a (im_pool s) p1" by simp
    let ?s2 = "s1\<lparr>wim := (wim s1)(w := give_worker [a] i (wim s1 w))\<rparr>"
    have "repeatA k (im_batch_body w sz i) ?s2 = Inl e"
    proof -
      have "im_batch_body w sz i s = Inr ((), ?s2)"
        using c by (simp add: im_batch_body_def bindA_def body upd_wbucket_add)
      then show ?thesis using Suc.prems(6) by (simp add: thenA_def bindA_def)
    qed
    then show ?thesis
      using Suc.prems(1,2,5) p1
      by (intro Suc.IH[of ?s2]) (simp_all add: s1 take_global_def carved_def room_def)
  qed
qed simp

lemma im_allocate_batch_Inl:
  assumes inv: "im_inv n s" and i: "i < NUM_BUCKETS" and room: "room 128 s"
    and run: "im_allocate_batch w (bucket_sizes ! i) i s = Inl e"
  shows "e \<in> out_of_memory"
proof -
  let ?k = "bucket_capacity ! i div 2" and ?s1 = "s\<lparr>im_lock := True\<rparr>"
  note tab = bucket_tables[OF i]
  have loop: "repeatA ?k (im_batch_body w (bucket_sizes ! i) i) ?s1 = Inl e"
    using run im_invD(1)[OF inv]
    by (auto simp: im_allocate_batch_def Let_def thenA_def bindA_def cilk_mutex_lock_def split: sum.splits)
  have gl: "free_list (buckets (im_desc s) i) = []"
  proof (rule ccontr)
    assume "free_list (buckets (im_desc s) i) \<noteq> []"
    then have "?k \<le> length (free_list (buckets (im_desc ?s1) i))"
      using im_invD(5)[OF inv i] by (simp add: dvd_imp_le)
    then show False using loop batch_from_list[OF i tab(2), of ?k ?s1 w] by simp
  qed
  have pre: "free_list (buckets (im_desc ?s1) i) = []" "free_list_size (buckets (im_desc ?s1) i) = 0" "pool_inv (im_pool ?s1)"
      "bucket_sizes ! i dvd INTERNAL_MALLOC_CHUNK_SIZE" "bucket_sizes ! i dvd pool_rem (im_pool ?s1)" "room ?k ?s1"
    using gl i im_invD(2-4)[OF inv] dvd_trans[OF tab(3)] room tab(6)
    by (simp_all add: desc_ok_def INTERNAL_MALLOC_CHUNK_SIZE_def room_def)
  show ?thesis
    by (rule batch_from_pool_Inl[OF i tab(2,1) pre(4) pre(1,2,3,5,6) loop])
qed

lemma malloc_Inl:
  assumes good: "im_good n s live" and w: "w < n" and sz: "sz \<le> SIZE_THRESH" and room: "room 128 s"
    and run: "cilk_internal_malloc w sz tag s = Inl e"
  shows "e \<in> out_of_memory"
proof -
  let ?i = "size_to_bucket sz"
  have i: "?i < NUM_BUCKETS" using sz by (simp add: size_to_bucket_le)
  define s0 where "s0 = s\<lparr>wim := (wim s)(w := charge 1 sz tag (wim s w))\<rparr>"
  have inv0: "im_inv n s0" and room0: "room 128 s0"
    using good room by (auto simp: im_good_def im_inv_def s0_def room_def)
  note run' = run[unfolded malloc_run[OF refl i s0_def]]
  show ?thesis
  proof (cases "im_allocate_batch w (bucket_sizes ! ?i) ?i s0")
    case (Inl e')
    then show ?thesis
      using run' im_allocate_batch_Inl[OF inv0 i room0 Inl] by (auto split: list.splits)
  next
    case (Inr r)
    then have b: "im_allocate_batch w (bucket_sizes ! ?i) ?i s0 = Inr ((), snd r)" by (cases r) simp
    then have "length (free_list (buckets (wim (snd r) w) ?i)) \<ge> bucket_capacity ! ?i div 2"
      by (rule allocate_batch_step[OF inv0 w i room0]) simp
    then show ?thesis
      using run' b bucket_tables(5)[OF i] by (auto split: list.splits)
  qed
qed

subsection \<open>An allocation succeeds when the system can give one more chunk\<close>

definition can_extend :: "'a im_state_scheme \<Rightarrow> bool" where
  "can_extend s \<longleftrightarrow> is_page_aligned (page_shift s) INTERNAL_MALLOC_CHUNK_SIZE \<and>
     (\<exists>a rest. os_mmap s = Some a # rest \<and> a \<noteq> 0) \<and> (\<exists>b rest. os_heap s = Some b # rest)"

lemma extend_succeeds:
  assumes inv: "pool_inv (im_pool s)" and can: "can_extend s"
  shows "\<exists>s'. extend_global_pool s = Inr ((), s') \<and> pool_rem (im_pool s') = INTERNAL_MALLOC_CHUNK_SIZE"
proof -
  obtain a rest b rest' where os: "os_mmap s = Some a # rest" "a \<noteq> 0" "os_heap s = Some b # rest'"
      "is_page_aligned (page_shift s) INTERNAL_MALLOC_CHUNK_SIZE"
    using can by (auto simp: can_extend_def)
  have "unat (mem_list_index (im_pool s) + 1) < length (mem_list (im_pool s))"
    if "\<not> mem_list_size (im_pool s) \<le> mem_list_index (im_pool s) + 1"
    using that inv by (simp add: pool_inv_def word_le_nat_alt)
  then show ?thesis
    using os pool_inv_index_le[OF inv]
    by (cases "mem_list_size (im_pool s) \<le> mem_list_index (im_pool s) + 1")
       (auto simp: extend_global_pool_def malloc_from_system_def bindA_def thenA_def grow_mem_list_def Let_def
          whenA_def MEM_LIST_SIZE_def pool_rem_def)
qed

lemma carve_succeeds:
  assumes inv: "pool_inv (im_pool s)" and sz: "0 < sz" "sz \<le> INTERNAL_MALLOC_CHUNK_SIZE" "sz dvd pool_rem (im_pool s)"
    and can: "sz \<le> pool_rem (im_pool s) \<or> can_extend s"
  shows "\<exists>a s'. pool_carve sz s = Inr (a, s') \<and>
    (if sz \<le> pool_rem (im_pool s) then pool_rem (im_pool s') = pool_rem (im_pool s) - sz \<and> can_extend s' = can_extend s
     else pool_rem (im_pool s') = INTERNAL_MALLOC_CHUNK_SIZE - sz)"
proof (cases "sz \<le> pool_rem (im_pool s)")
  case True
  then have "\<not> mem_end (im_pool s) < mem_begin (im_pool s) + sz" using sz(1) by (auto simp: pool_rem_def)
  then show ?thesis using True by (simp add: pool_carve_def pool_rem_def can_extend_def)
next
  case False
  let ?s1 = "s\<lparr>im_pool := (im_pool s)\<lparr>wasted := wasted (im_pool s) + (mem_end (im_pool s) - mem_begin (im_pool s))\<rparr>\<rparr>"
  have rem: "pool_rem (im_pool s) = 0" using sz(1,3) False by (metis dvd_imp_le not_gr_zero)
  then have s1: "?s1 = s" using inv by (cases s, cases "im_pool s") (simp add: pool_rem_def pool_inv_def)
  have full: "mem_end (im_pool s) < mem_begin (im_pool s) + sz" using False by (simp add: pool_rem_def)
  obtain s2 where "extend_global_pool s = Inr ((), s2)" "pool_rem (im_pool s2) = INTERNAL_MALLOC_CHUNK_SIZE"
    using extend_succeeds[OF inv] can False by blast
  then show ?thesis using full s1 False by (auto simp: pool_carve_def thenA_def bindA_def pool_rem_def)
qed

lemma batch_succeeds:
  assumes i: "i < NUM_BUCKETS" "sz \<le> SIZE_THRESH" "0 < sz" "sz dvd INTERNAL_MALLOC_CHUNK_SIZE"
    and "free_list (buckets (im_desc s) i) = []" "free_list_size (buckets (im_desc s) i) = 0"
    and "pool_inv (im_pool s)" "sz dvd pool_rem (im_pool s)" "room k s"
    and "k * sz \<le> pool_rem (im_pool s) \<or> can_extend s \<and> k * sz \<le> INTERNAL_MALLOC_CHUNK_SIZE"
  shows "\<exists>s'. repeatA k (im_batch_body w sz i) s = Inr ((), s')"
  using assms(5-)
proof (induction k arbitrary: s)
  case (Suc k)
  let ?s0 = "s\<lparr>im_desc := take_global 1 sz i (im_desc s)\<rparr>"
  have szC: "sz \<le> INTERNAL_MALLOC_CHUNK_SIZE" using i(4) by (auto simp: INTERNAL_MALLOC_CHUNK_SIZE_def intro: dvd_imp_le)
  have pre: "pool_inv (im_pool ?s0)" "room 1 ?s0" "sz dvd pool_rem (im_pool ?s0)"
      "sz \<le> pool_rem (im_pool ?s0) \<or> can_extend ?s0"
    using Suc.prems by (auto simp: room_def can_extend_def)
  obtain a s1 where c: "pool_carve sz ?s0 = Inr (a, s1)"
    and r: "if sz \<le> pool_rem (im_pool s) then pool_rem (im_pool s1) = pool_rem (im_pool s) - sz \<and> can_extend s1 = can_extend s
            else pool_rem (im_pool s1) = INTERNAL_MALLOC_CHUNK_SIZE - sz"
  proof -
    have "pool_rem (im_pool ?s0) = pool_rem (im_pool s)" "can_extend ?s0 = can_extend s"
      by (simp_all add: can_extend_def)
    then show thesis using that carve_succeeds[OF pre(1) i(3) szC pre(3,4)] by metis
  qed
  obtain p1 om1 oh1 where s1: "s1 = ?s0\<lparr>im_pool := p1, os_mmap := om1, os_heap := oh1\<rparr>"
    and p1: "carved sz a (im_pool ?s0) p1"
    by (rule pool_carve_Inr[OF c pre(1,2) i(3,4) pre(3)])
  let ?s2 = "s1\<lparr>wim := (wim s1)(w := give_worker [a] i (wim s1 w))\<rparr>"
  have body: "im_batch_body w sz i s = Inr ((), ?s2)"
    using c global_im_alloc_pool[OF i(1,2) Suc.prems(1,2)] by (simp add: im_batch_body_def bindA_def upd_wbucket_add)
  have "k * sz \<le> pool_rem (im_pool ?s2) \<or> can_extend ?s2 \<and> k * sz \<le> INTERNAL_MALLOC_CHUNK_SIZE"
    using Suc.prems(6) r by (auto simp: can_extend_def split: if_splits)
  then obtain s' where "repeatA k (im_batch_body w sz i) ?s2 = Inr ((), s')"
    using Suc.prems(1,2,5) p1 Suc.IH[of ?s2] by (auto simp: s1 take_global_def carved_def room_def)
  then show ?case using body by (simp add: thenA_def bindA_def)
qed simp

lemma allocate_batch_succeeds:
  assumes inv: "im_inv n s" and i: "i < NUM_BUCKETS" and room: "room 128 s" and can: "can_extend s"
  shows "\<exists>s'. im_allocate_batch w (bucket_sizes ! i) i s = Inr ((), s')"
proof -
  let ?k = "bucket_capacity ! i div 2" and ?s1 = "s\<lparr>im_lock := True\<rparr>"
  note tab = bucket_tables[OF i]
  have "\<exists>s'. repeatA ?k (im_batch_body w (bucket_sizes ! i) i) ?s1 = Inr ((), s')"
  proof (cases "free_list (buckets (im_desc s) i) = []")
    case True
    have "?k * bucket_sizes ! i \<le> INTERNAL_MALLOC_CHUNK_SIZE"
      using NUM_BUCKETS_cases[OF i] by (auto simp: bucket_sizes_def bucket_capacity_def INTERNAL_MALLOC_CHUNK_SIZE_def)
    then show ?thesis
      using True i im_invD(2-4)[OF inv] dvd_trans[OF tab(3)] room tab(6) can
      by (intro batch_succeeds[OF i tab(2,1)]) (auto simp: desc_ok_def INTERNAL_MALLOC_CHUNK_SIZE_def room_def can_extend_def)
  next
    case False
    then have "?k \<le> length (free_list (buckets (im_desc ?s1) i))"
      using im_invD(5)[OF inv i] by (simp add: dvd_imp_le)
    then show ?thesis using batch_from_list[OF i tab(2), of ?k ?s1 w] by simp
  qed
  then show ?thesis
    using im_invD(1)[OF inv] by (auto simp: im_allocate_batch_def Let_def thenA_def bindA_def cilk_mutex_lock_def)
qed

lemma malloc_succeeds:
  assumes good: "im_good n s live" and w: "w < n" and sz: "sz \<le> SIZE_THRESH" and room: "room 128 s" and can: "can_extend s"
  shows "\<exists>a s'. cilk_internal_malloc w sz tag s = Inr (a, s') \<and> im_good n s' (add_mset (a, sz, tag) live)"
proof -
  let ?i = "size_to_bucket sz"
  have i: "?i < NUM_BUCKETS" using sz by (simp add: size_to_bucket_le)
  define s0 where "s0 = s\<lparr>wim := (wim s)(w := charge 1 sz tag (wim s w))\<rparr>"
  have pre: "im_inv n s0" "room 128 s0" "can_extend s0"
    using good room can by (auto simp: im_good_def im_inv_def s0_def room_def can_extend_def)
  obtain s1 where b: "im_allocate_batch w (bucket_sizes ! ?i) ?i s0 = Inr ((), s1)"
    using allocate_batch_succeeds[OF pre(1) i pre(2,3)] by blast
  then have "length (free_list (buckets (wim s1 w) ?i)) \<ge> bucket_capacity ! ?i div 2"
    by (rule allocate_batch_step[OF pre(1) w i pre(2)]) simp
  then have "free_list (buckets (wim s1 w) ?i) \<noteq> []" using bucket_tables(5)[OF i] by auto
  then have "\<exists>a s'. cilk_internal_malloc w sz tag s = Inr (a, s')"
    using b unfolding malloc_run[OF refl i s0_def] by (auto split: list.splits)
  then show ?thesis using malloc_step[OF good w sz room] by blast
qed

text \<open>An allocation from a non-empty list needs nothing of the system.\<close>

lemma malloc_from_list:
  assumes good: "im_good n s live" and w: "w < n" and sz: "sz \<le> SIZE_THRESH"
    and ne: "free_list (buckets (wim s w) (size_to_bucket sz)) \<noteq> []"
  shows "\<exists>a s'. cilk_internal_malloc w sz tag s = Inr (a, s') \<and> im_good n s' (add_mset (a, sz, tag) live)"
proof -
  let ?i = "size_to_bucket sz"
  have i: "?i < NUM_BUCKETS" using sz by (simp add: size_to_bucket_le)
  define s0 where "s0 = s\<lparr>wim := (wim s)(w := charge 1 sz tag (wim s w))\<rparr>"
  define s' where "s' = s0\<lparr>wim := (wim s0)(w := pop_worker ?i (wim s0 w))\<rparr>"
  obtain a rest where a: "free_list (buckets (wim s w) ?i) = a # rest" using ne by (cases "free_list (buckets (wim s w) ?i)") auto
  then have a0: "free_list (buckets (wim s0 w) ?i) = a # rest" by (simp add: s0_def)
  have "cilk_internal_malloc w sz tag s = Inr (a, s')"
    using a unfolding malloc_run[OF refl i s0_def] s'_def by simp
  moreover have "im_inv n s'"
    using good worker_ok_pop by (auto simp: im_good_def im_inv_def s'_def s0_def)
  moreover have "\<forall>v<n. within_limits (wim s' v)"
    using good within_limits_pop by (auto simp: im_good_def s'_def s0_def)
  moreover have "books n s' (add_mset (a, sz, tag) live)"
    using good by (intro books_malloc[OF _ w refl i s0_def same_accounts_refl a0 s'_def]) (simp add: im_good_def)
  ultimately show ?thesis by (auto simp: im_good_def)
qed

lemma malloc_leaves_batch:
  assumes inv: "im_inv n s" and w: "w < n" and sz: "sz \<le> SIZE_THRESH" and room: "room 128 s"
    and e: "free_list (buckets (wim s w) (size_to_bucket sz)) = []"
    and run: "cilk_internal_malloc w sz tag s = Inr (a, s')"
  shows "length (free_list (buckets (wim s' w) (size_to_bucket sz))) = bucket_capacity ! size_to_bucket sz div 2 - 1"
proof -
  let ?i = "size_to_bucket sz"
  have i: "?i < NUM_BUCKETS" using sz by (simp add: size_to_bucket_le)
  define s0 where "s0 = s\<lparr>wim := (wim s)(w := charge 1 sz tag (wim s w))\<rparr>"
  have pre: "im_inv n s0" "room 128 s0" using inv room by (auto simp: im_inv_def s0_def room_def)
  obtain s1 where b: "im_allocate_batch w (bucket_sizes ! ?i) ?i s0 = Inr ((), s1)"
      and s': "s' = s1\<lparr>wim := (wim s1)(w := pop_worker ?i (wim s1 w))\<rparr>"
    using run e unfolding malloc_run[OF refl i s0_def] by (auto split: sum.splits list.splits)
  have "length (free_list (buckets (wim s1 w) ?i)) = length (free_list (buckets (wim s0 w) ?i)) + bucket_capacity ! ?i div 2"
    by (rule allocate_batch_step[OF pre(1) w i pre(2) b])
  then show ?thesis using e by (simp add: s' pop_worker_def s0_def)
qed

subsection \<open>What the allocator leaves alone\<close>

abbreviation outside :: "'a \<Rightarrow> 'a im_state_scheme \<Rightarrow> bool" where
  "outside x s \<equiv> im_state.more s = x"

lemma outside_malloc_from_system: "preserves (outside x) (malloc_from_system sz)"
  by (rule preserves_fun) (auto elim!: malloc_from_system_Inr)

lemma outside_grow: "preserves (outside x) grow_mem_list"
  by (rule preserves_fun) (auto simp: grow_mem_list_def Let_def split: list.splits option.splits)

lemma outside_extend: "preserves (outside x) extend_global_pool"
  unfolding extend_global_pool_def
  by (intro preserves_intros preserves_modify outside_malloc_from_system outside_grow) simp_all

lemma outside_global_im_alloc: "preserves (outside x) (global_im_alloc sz i)"
  unfolding global_im_alloc_def pool_carve_def
  by (intro preserves_intros preserves_modify outside_extend) simp_all

lemma outside_lock: "preserves (outside x) (cilk_mutex_lock im_lock (\<lambda>b s. s\<lparr>im_lock := b\<rparr>))"
  "preserves (outside x) (cilk_mutex_unlock (\<lambda>b s. s\<lparr>im_lock := b\<rparr>))"
  by (rule preserves_fun, simp add: cilk_mutex_lock_Inr_iff)+

lemma outside_allocate_batch: "preserves (outside x) (im_allocate_batch w sz i)"
  unfolding im_allocate_batch_def im_batch_body_def Let_def
  by (intro preserves_intros preserves_modify outside_global_im_alloc outside_lock) simp_all

lemma outside_worker_remove: "preserves (outside x) (worker_remove w i)"
  by (rule preserves_fun) (auto simp: worker_remove_run split: list.splits)

lemma outside_malloc: "preserves (outside x) (cilk_internal_malloc w sz tag)"
  unfolding cilk_internal_malloc_def Let_def
  by (intro preserves_intros preserves_modify outside_worker_remove outside_allocate_batch outside_malloc_from_system) simp_all

lemma outside_free_loop: "preserves (outside x) (im_free_loop k w sz i)"
proof (induction k)
  case (Suc k)
  then show ?case unfolding im_free_loop.simps by (intro preserves_intros preserves_modify) simp_all
qed (simp only: im_free_loop.simps preserves_basic)

lemma outside_trim: "preserves (outside x) (im_trim k w sz i)"
proof (induction k)
  case 0
  then show ?case unfolding im_trim.simps by (intro preserves_intros)
next
  case (Suc k)
  then show ?case unfolding im_trim.simps im_free_batch_def by (intro preserves_intros outside_free_loop outside_lock)
qed

lemma outside_free_to_system: "preserves (outside x) (free_to_system p sz)"
  by (rule preserves_fun) (auto simp: free_to_system_def split: if_splits mem_slot.splits)

lemma outside_free: "preserves (outside x) (cilk_internal_free w p sz tag)"
  unfolding cilk_internal_free_def Let_def
  by (intro preserves_intros preserves_modify outside_trim outside_free_to_system) simp_all

lemma malloc_outside: "cilk_internal_malloc w sz tag s = Inr (a, s') \<Longrightarrow> im_state.more s' = im_state.more s"
  by (rule preservesD[OF outside_malloc refl])

lemma free_outside: "cilk_internal_free w p sz tag s = Inr (u, s') \<Longrightarrow> im_state.more s' = im_state.more s"
  by (rule preservesD[OF outside_free refl])

section \<open>Runs of the allocator\<close>

text \<open>
  Start-up (\<open>cilk_internal_malloc_global_init\<close>, then \<open>cilk_internal_malloc_per_worker_init\<close> for
  every worker) and any interleaving of allocations and frees by the \<open>n\<close> workers.  A client frees
  only what it holds, with the size and tag it was allocated with, possibly through another
  worker.  The side condition \<open>room 128\<close> says that the count of chunks stays below \<open>2\<^sup>32\<close>,
  that is, below 128 TB of internal memory.
\<close>

definition im_start :: "nat \<Rightarrow> ('a im_state_scheme, unit) act" where
  "im_start n = thenA cilk_internal_malloc_global_init
     (forA [0..<n] cilk_internal_malloc_per_worker_init)"

inductive im_step :: "nat \<Rightarrow> 'a im_state_scheme \<times> ledger \<Rightarrow> 'a im_state_scheme \<times> ledger \<Rightarrow> bool" for n where
  malloc_small: "w < n \<Longrightarrow> sz \<le> SIZE_THRESH \<Longrightarrow> room 128 s \<Longrightarrow> cilk_internal_malloc w sz tag s = Inr (a, s')
    \<Longrightarrow> im_step n (s, live) (s', add_mset (a, sz, tag) live)"
| malloc_large: "w < n \<Longrightarrow> SIZE_THRESH < sz \<Longrightarrow> cilk_internal_malloc w sz tag s = Inr (a, s')
    \<Longrightarrow> im_step n (s, live) (s', live)"
| free_small: "w < n \<Longrightarrow> (p, sz, tag) \<in># live \<Longrightarrow> cilk_internal_free w p sz tag s = Inr (u, s')
    \<Longrightarrow> im_step n (s, live) (s', live - {#(p, sz, tag)#})"
| free_large: "w < n \<Longrightarrow> SIZE_THRESH < sz \<Longrightarrow> cilk_internal_free w p sz tag s = Inr (u, s')
    \<Longrightarrow> im_step n (s, live) (s', live)"

definition im_reachable :: "nat \<Rightarrow> 'a im_state_scheme \<Rightarrow> ledger \<Rightarrow> bool" where
  "im_reachable n s live \<longleftrightarrow>
     (\<exists>s0 s1. im_start n s0 = Inr ((), s1) \<and> (im_step n)\<^sup>*\<^sup>* (s1, {#}) (s, live))"

lemma im_good_cong:
  assumes "im_lock s' = im_lock s" "im_pool s' = im_pool s" "im_desc s' = im_desc s" "wim s' = wim s"
  shows "im_good n s' live = im_good n s live"
  using assms by (simp add: im_good_def im_inv_def books_def client_weight_def used_gap_def)

lemma im_step_good:
  assumes "im_step n (s, live) (s', live')" "im_good n s live"
  shows "im_good n s' live'"
  using assms(1)
proof cases
  case (malloc_small w sz tag a)
  then show ?thesis using malloc_step[OF assms(2)] by simp
next
  case (malloc_large w sz tag a)
  then have "malloc_from_system sz s = Inr (a, s')"
    using size_to_bucket_le[of sz] by (simp add: cilk_internal_malloc_def Let_def)
  then obtain om oh where "s' = s\<lparr>os_mmap := om, os_heap := oh\<rparr>" by (rule malloc_from_system_Inr)
  then show ?thesis using malloc_large assms(2) im_good_cong[of s' s] by simp
next
  case (free_small w p sz tag u)
  then show ?thesis using free_step[OF assms(2), of w p sz tag] by auto
next
  case (free_large w sz p tag u)
  then have "im_lock s' = im_lock s" "im_pool s' = im_pool s" "im_desc s' = im_desc s" "wim s' = wim s"
    by (auto simp: cilk_internal_free_def free_to_system_def split: if_splits)
  then show ?thesis using free_large assms(2) im_good_cong[of s' s] by simp
qed

lemma init_workers_run:
  "forA ws cilk_internal_malloc_per_worker_init s =
     Inr ((), s\<lparr>wim := (\<lambda>w. if w \<in> set ws then init_im_buckets (wim s w) else wim s w)\<rparr>)"
proof (induction ws arbitrary: s)
  case (Cons w ws)
  have idem: "init_im_buckets (init_im_buckets d) = init_im_buckets d" for d
    by (simp add: init_im_buckets_def cong: if_cong)
  have "cilk_internal_malloc_per_worker_init w s = Inr ((), upd_wdesc w init_im_buckets s)"
    by (simp add: cilk_internal_malloc_per_worker_init_def)
  then show ?case
    using Cons
    by (simp add: thenA_def bindA_def idem fun_eq_iff)
qed simp

lemma init_desc_facts:
  "desc_weight phi (init_im_buckets d) = 0" "used (init_im_buckets d) = 0" "num_malloc (init_im_buckets d) = (\<lambda>_. 0)"
  "wasted_bytes (init_im_buckets d) = 0" "worker_ok (init_im_buckets d)" "within_limits (init_im_buckets d)"
  "desc_ok (init_im_buckets d)" "i < NUM_BUCKETS \<Longrightarrow> free_list (buckets (init_im_buckets d) i) = []"
  by (auto simp: desc_weight_def bucket_weight_def init_im_buckets_def init_bucket_def wasted_bytes_def
        worker_ok_def desc_ok_def within_limits_def)

lemma im_start_good:
  assumes "im_start n s0 = Inr (u, s)"
  shows "im_good n s {#}"
proof -
  obtain s1 where ps: "init_page_shift s0 = Inr ((), s1)"
    using assms by (auto simp: im_start_def act_dest cilk_internal_malloc_global_init_def)
  obtain a rest where "os_heap s1 = Some a # rest"
    using assms ps by (auto simp: im_start_def act_dest cilk_internal_malloc_global_init_def alloc_mem_list_def
      split: list.splits option.splits)
  then have s: "s = s1\<lparr>os_heap := rest, im_lock := cilk_mutex_init,
             im_pool := (im_pool s1)\<lparr>mem_begin := 0, mem_end := 0,
               mem_list := replicate (unat MEM_LIST_SIZE) Null_slot,
               mem_list_index := -1, mem_list_size := MEM_LIST_SIZE, allocated := 0, wasted := 0\<rparr>,
             im_desc := init_im_buckets (im_desc s1),
             wim := (\<lambda>w. if w \<in> set [0..<n] then init_im_buckets (wim s1 w) else wim s1 w)\<rparr>"
    using assms ps
    by (auto simp: im_start_def act_dest cilk_internal_malloc_global_init_def alloc_mem_list_def init_workers_run init_im_buckets_def cong: if_cong)
  have p: "pool_inv (im_pool s)" "pool_rem (im_pool s) = 0" "chunks (im_pool s) = []" "\<not> im_lock s"
    by (auto simp: s pool_inv_def pool_rem_def chunks_def MEM_LIST_SIZE_def slot_addr_def cilk_mutex_init_def
          intro!: map_filter_None exI[of _ "[]"])
  have h: "handed_out phi (im_pool s) = 0" if "block_weight phi" for phi
    using p block_weight.phi_0[OF that] by (simp add: handed_out_def)
  have "im_inv n s"
    using p by (simp add: im_inv_def) (simp add: s init_desc_facts)
  moreover have "books n s {#}"
    using h h[OF bytes.block_weight_axioms] by (simp add: books_def client_weight_def used_gap_def) (simp add: s init_desc_facts)
  moreover have "within_limits (wim s w)" if "w < n" for w
    using that by (simp add: s init_desc_facts)
  ultimately show ?thesis by (simp add: im_good_def)
qed

lemma im_reachable_good:
  assumes "im_reachable n s live"
  shows "im_good n s live"
proof -
  obtain s0 s1 where s: "im_start n s0 = Inr ((), s1)" "(im_step n)\<^sup>*\<^sup>* (s1, {#}) (s, live)"
    using assms by (auto simp: im_reachable_def)
  have "case x of (s, live) \<Rightarrow> im_good n s live" if "(im_step n)\<^sup>*\<^sup>* (s1, {#}) x" for x
    using that
  proof induction
    case base
    then show ?case using im_start_good[OF s(1)] by simp
  next
    case (step y z)
    then show ?case using im_step_good by (cases y; cases z) auto
  qed
  then show ?thesis using s(2) by fastforce
qed

section \<open>Correctness of the allocator\<close>

lemma size_to_bucket_least:
  assumes "sz \<le> SIZE_THRESH"
  shows "sz \<le> bucket_sizes ! size_to_bucket sz \<and> (\<forall>j < size_to_bucket sz. bucket_sizes ! j < sz)"
proof -
  have i: "size_to_bucket sz < NUM_BUCKETS" using assms by (simp add: size_to_bucket_le)
  obtain i where f: "List.find (\<lambda>i. sz \<le> bucket_sizes ! i) [0..<NUM_BUCKETS] = Some i"
    using i by (cases "List.find (\<lambda>i. sz \<le> bucket_sizes ! i) [0..<NUM_BUCKETS]")
      (auto simp: size_to_bucket_def NUM_BUCKETS_def)
  then have "size_to_bucket sz = i" by (simp add: size_to_bucket_def)
  then show ?thesis using f by (auto simp: find_Some_iff not_le)
qed

lemma csize_ge: "sz \<le> SIZE_THRESH \<Longrightarrow> sz \<le> csize sz"
  using size_to_bucket_least[of sz] by (simp add: csize_def bucket_to_size_def)

lemma free_bytes_weight: "desc_ok d \<Longrightarrow> int (free_bytes d) = desc_weight (\<lambda>_ n. int n) d"
  by (simp add: free_bytes_def desc_weight_def bucket_weight_def desc_ok_def int_sum_const)

lemma handed_out_bytes: "pool_inv p \<Longrightarrow> handed_out (\<lambda>_ n. int n) p = int (allocated p) - int (pool_rem p)"
proof -
  assume p: "pool_inv p"
  then obtain cs rest where cs: "mem_list p = map Chunk cs @ rest" "length cs = unat (mem_list_index p + 1)"
      "\<forall>m \<in> set rest. slot_addr m = None"
    by (auto simp: pool_inv_def)
  have "allocated p = INTERNAL_MALLOC_CHUNK_SIZE * unat (mem_list_index p + 1)" using p by (simp add: pool_inv_def)
  then show ?thesis
    using chunks_split[OF cs(1,3)] cs(2) by (simp add: handed_out_def int_sum_const)
qed

lemma global_check_good:
  assumes good: "im_good n s live"
  shows "internal_malloc_global_check [0..<n] s = Inr ((), s)"
proof -
  let ?B = "\<lambda>_ n. int n"
  have inv: "im_inv n s" and books: "books n s live" using good by (auto simp: im_good_def)
  note b = books[unfolded books_def]
  have live: "(\<Sum>(a, sz, t)\<in>#live. int (csize sz)) = (\<Sum>(a, sz, t)\<in>#live. int sz) + (\<Sum>(a, sz, t)\<in>#live. int (csize sz - sz))"
    unfolding sum_mset.distrib[symmetric]
    by (rule arg_cong[of _ _ sum_mset], rule image_mset_cong) (use b csize_ge in \<open>auto\<close>)
  have nonneg: "0 \<le> (\<Sum>(a, sz, t)\<in>#live. int sz)" "0 \<le> (\<Sum>(a, sz, t)\<in>#live. int (csize sz - sz))"
    by (induction live) auto
  have wf: "(\<Sum>w<n. desc_weight ?B (wim s w)) = (\<Sum>w<n. int (free_bytes (wim s w)))"
    using im_invD(6)[OF inv] by (intro sum.cong) (auto simp: free_bytes_weight worker_ok_def)
  have cw: "client_weight ?B n s = (\<Sum>(a, sz, t)\<in>#live. int (csize sz))"
    using b bytes.block_weight_axioms by blast
  have gap: "used (im_desc s) + int (free_bytes (im_desc s)) = handed_out ?B (im_pool s)"
    using b free_bytes_weight[OF im_invD(4)[OF inv]] by (simp add: used_gap_def)
  then have used: "used (im_desc s) = (\<Sum>w<n. used (wim s w)) + (\<Sum>w<n. int (free_bytes (wim s w))) + (\<Sum>w<n. wasted_bytes (wim s w))"
    using cw live b wf free_bytes_weight[OF im_invD(4)[OF inv]] by (simp add: client_weight_def)
  have avail: "int (mem_end (im_pool s)) - int (mem_begin (im_pool s)) = int (pool_rem (im_pool s))"
    using im_invD(2)[OF inv] by (simp add: pool_inv_def pool_rem_def)
  have pos: "0 \<le> (\<Sum>w<n. used (wim s w))" "0 \<le> (\<Sum>w<n. wasted_bytes (wim s w))"
      "0 \<le> (\<Sum>w<n. int (free_bytes (wim s w)))"
    using b nonneg by (auto intro: sum_nonneg)
  have "0 \<le> used (im_desc s)" using used pos by linarith
  moreover have "used (im_desc s) + int (free_bytes (im_desc s)) + int (pool_rem (im_pool s)) = int (allocated (im_pool s))"
    using gap handed_out_bytes[OF im_invD(2)[OF inv]] by simp
  ultimately show ?thesis
    using pos used
    by (simp add: internal_malloc_global_check_def workers_used_and_free_def bindA_assoc thenA_bindA sum_list_sum_nth
          atLeast0LessThan avail Let_def)
qed

definition cover :: "addr \<Rightarrow> addr \<Rightarrow> nat \<Rightarrow> int" where
  "cover x a n = (if a \<le> x \<and> x < a + n then 1 else 0)"

interpretation cover: block_weight "cover x" for x
  by unfold_locales (auto simp: cover_def)

subsection \<open>Shutdown\<close>

text \<open>What emptying some of the buckets of worker \<open>w\<close> leaves as it was.\<close>

definition drained :: "worker_id \<Rightarrow> nat set \<Rightarrow> 'a im_state_scheme \<Rightarrow> 'a im_state_scheme \<Rightarrow> bool" where
  "drained w I s s' \<longleftrightarrow>
     im_lock s' = im_lock s \<and> im_pool s' = im_pool s \<and> page_shift s' = page_shift s \<and>
     num_malloc (im_desc s') = num_malloc (im_desc s) \<and>
     (\<forall>v. v \<noteq> w \<longrightarrow> wim s' v = wim s v) \<and> num_malloc (wim s' w) = num_malloc (wim s w) \<and>
     (\<forall>j. j \<notin> I \<longrightarrow> buckets (wim s' w) j = buckets (wim s w) j) \<and>
     (desc_ok (wim s w) \<longrightarrow> desc_ok (wim s' w))"

lemma drained_refl [simp]: "drained w I s s"
  by (simp add: drained_def)

lemma drained_trans: "drained w I s s1 \<Longrightarrow> drained w J s1 s' \<Longrightarrow> drained w (I \<union> J) s s'"
  by (auto simp: drained_def)

lemma im_drain_run:
  assumes "\<not> im_lock s" "length (free_list (buckets (wim s w) i)) \<le> fuel" and i: "i < NUM_BUCKETS"
  shows "\<exists>s'. im_drain fuel w i s = Inr ((), s') \<and> drained w {i} s s' \<and> free_list (buckets (wim s' w) i) = []"
  using assms(1,2)
proof (induction fuel arbitrary: s)
  case (Suc fuel)
  let ?wl = "free_list (buckets (wim s w) i)"
  let ?k = "min (bucket_capacity ! i div 2) (length ?wl)"
  show ?case
  proof (cases "?wl = []")
    case False
    define s1 where "s1 = s\<lparr>im_desc := give_global (rev (take ?k ?wl)) (bucket_to_size i) i (im_desc s),
               wim := (wim s)(w := take_worker ?k i (wim s w))\<rparr>"
    have run: "im_free_batch w (bucket_to_size i) i s = Inr ((), s1)"
      unfolding s1_def by (rule im_free_batch_run[OF Suc.prems(1) refl])
    have d1: "drained w {i} s s1"
      by (auto simp: drained_def s1_def take_worker_def desc_ok_def)
    have "length (free_list (buckets (wim s1 w) i)) \<le> fuel" "\<not> im_lock s1"
      using Suc.prems bucket_tables(5)[OF i] by (auto simp: take_worker_def s1_def)
    then obtain s' where "im_drain fuel w i s1 = Inr ((), s')" "drained w {i} s1 s'" "free_list (buckets (wim s' w) i) = []"
      using Suc.IH[of s1] by blast
    then show ?thesis
      using False drained_trans[OF d1, of "{i}"] by (intro exI[of _ s']) (auto simp: thenA_def bindA_def run)
  qed (use Suc.prems in simp)
qed simp

lemma drain_all_run:
  assumes "\<not> im_lock s" "set is \<subseteq> {..<NUM_BUCKETS}" "distinct is" "worker_ok (wim s w)" "within_limits (wim s w)"
  shows "\<exists>s'. forA is (drain_bucket w) s = Inr ((), s') \<and> drained w (set is) s s' \<and>
    (\<forall>i\<in>set is. free_list (buckets (wim s' w) i) = [])"
  using assms(2,3)
proof (induction "is" rule: rev_induct)
  case (snoc i js)
  then obtain s1 where s1: "forA js (drain_bucket w) s = Inr ((), s1)" "drained w (set js) s s1"
      "\<forall>i\<in>set js. free_list (buckets (wim s1 w) i) = []"
    by auto
  have i: "i < NUM_BUCKETS" and bi: "buckets (wim s1 w) i = buckets (wim s w) i" and lock: "\<not> im_lock s1"
    using snoc.prems s1(2) assms(1) by (auto simp: drained_def)
  obtain s' where s': "im_drain (length (free_list (buckets (wim s1 w) i))) w i s1 = Inr ((), s')"
      "drained w {i} s1 s'" "free_list (buckets (wim s' w) i) = []"
    using im_drain_run[OF lock order_refl i] by blast
  have "assert_bucket (buckets (wim s1 w) i) s1 = Inr ((), s1)"
    using assms(4,5) i by (auto simp: bi assert_bucket_def worker_ok_def desc_ok_def within_limits_def)
  then have "drain_bucket w i s1 = Inr ((), s')"
    using s'(1) by (simp add: drain_bucket_def thenA_def bindA_def)
  then have "forA (js @ [i]) (drain_bucket w) s = Inr ((), s')"
    using s1(1) by (simp add: forA_append thenA_def bindA_def)
  moreover have "drained w (set (js @ [i])) s s'" using drained_trans[OF s1(2) s'(2)] by simp
  moreover have "free_list (buckets (wim s' w) j) = []" if "j \<in> set (js @ [i])" for j
    using that s1(3) s'(2,3) by (cases "j = i") (auto simp: drained_def)
  ultimately show ?case by blast
qed simp

definition pool_started :: "global_im_pool \<Rightarrow> bool" where
  "pool_started p \<longleftrightarrow> mem_list_index p < mem_list_size p \<and> wasted p = 0"

lemma terminate_run:
  assumes "\<not> im_lock s" "pool_started (im_pool s)" "worker_ok (wim s w)" "within_limits (wim s w)"
  shows "\<exists>s'. cilk_internal_malloc_per_worker_terminate w s = Inr ((), s') \<and> \<not> im_lock s' \<and> im_pool s' = im_pool s \<and>
    page_shift s' = page_shift s \<and> (\<forall>v. v \<noteq> w \<longrightarrow> wim s' v = wim s v) \<and>
    num_malloc (im_desc s') = (\<lambda>t. num_malloc (im_desc s) t + num_malloc (wim s w) t) \<and>
    (\<forall>i<NUM_BUCKETS. free_list (buckets (wim s' w) i) = [] \<and> free_list_size (buckets (wim s' w) i) = 0)"
proof -
  obtain s1 where s1: "forA [0..<NUM_BUCKETS] (drain_bucket w) s = Inr ((), s1)" "drained w (set [0..<NUM_BUCKETS]) s s1"
      "\<forall>i\<in>set [0..<NUM_BUCKETS]. free_list (buckets (wim s1 w) i) = []"
    using drain_all_run[OF assms(1) _ _ assms(3,4), of "[0..<NUM_BUCKETS]"] by (auto simp: atLeast0LessThan)
  let ?s' = "s1\<lparr>im_desc := (im_desc s1)\<lparr>num_malloc := (\<lambda>t. num_malloc (im_desc s1) t + num_malloc (wim s1 w) t)\<rparr>,
              wim := (wim s1)(w := (wim s1 w)\<lparr>num_malloc := (\<lambda>_. 0)\<rparr>)\<rparr>"
  have "assert_global_pool s = Inr ((), s)"
    using assms(2) by (simp add: assert_global_pool_def pool_started_def)
  then have "cilk_internal_malloc_per_worker_terminate w s = Inr ((), ?s')"
    using s1(1) by (simp add: cilk_internal_malloc_per_worker_terminate_def thenA_def bindA_def)
  moreover have "desc_ok (wim s1 w)" using s1(2) assms(3) by (simp add: drained_def worker_ok_def)
  ultimately show ?thesis
    using s1(2,3) assms(1) by (intro exI[of _ ?s']) (auto simp: drained_def desc_ok_def)
qed

lemma terminate_all_run:
  assumes "\<not> im_lock s" "pool_started (im_pool s)" "k \<le> n" "\<forall>w<n. worker_ok (wim s w) \<and> within_limits (wim s w)"
  shows "\<exists>s'. forA [0..<k] cilk_internal_malloc_per_worker_terminate s = Inr ((), s') \<and> \<not> im_lock s' \<and>
    im_pool s' = im_pool s \<and> page_shift s' = page_shift s \<and> (\<forall>v. k \<le> v \<longrightarrow> wim s' v = wim s v) \<and>
    num_malloc (im_desc s') = (\<lambda>t. num_malloc (im_desc s) t + (\<Sum>w<k. num_malloc (wim s w) t)) \<and>
    (\<forall>w<k. \<forall>i<NUM_BUCKETS. free_list (buckets (wim s' w) i) = [] \<and> free_list_size (buckets (wim s' w) i) = 0)"
  using assms(3)
proof (induction k)
  case 0
  then show ?case using assms(1) by simp
next
  case (Suc k)
  then obtain s1 where s1: "forA [0..<k] cilk_internal_malloc_per_worker_terminate s = Inr ((), s1)" "\<not> im_lock s1"
      "im_pool s1 = im_pool s" "page_shift s1 = page_shift s" "\<forall>v. k \<le> v \<longrightarrow> wim s1 v = wim s v"
      "num_malloc (im_desc s1) = (\<lambda>t. num_malloc (im_desc s) t + (\<Sum>w<k. num_malloc (wim s w) t))"
      "\<forall>w<k. \<forall>i<NUM_BUCKETS. free_list (buckets (wim s1 w) i) = [] \<and> free_list_size (buckets (wim s1 w) i) = 0"
    by auto
  have "pool_started (im_pool s1)" "worker_ok (wim s1 k)" "within_limits (wim s1 k)"
    using assms(2,4) s1(3,5) Suc.prems by auto
  then obtain s' where s': "cilk_internal_malloc_per_worker_terminate k s1 = Inr ((), s')" "\<not> im_lock s'"
      "im_pool s' = im_pool s1" "page_shift s' = page_shift s1" "\<forall>v. v \<noteq> k \<longrightarrow> wim s' v = wim s1 v"
      "num_malloc (im_desc s') = (\<lambda>t. num_malloc (im_desc s1) t + num_malloc (wim s1 k) t)"
      "\<forall>i<NUM_BUCKETS. free_list (buckets (wim s' k) i) = [] \<and> free_list_size (buckets (wim s' k) i) = 0"
    using terminate_run[OF s1(2), of k] by blast
  have "forA [0..<Suc k] cilk_internal_malloc_per_worker_terminate s = Inr ((), s')"
    using s1(1) s'(1) by (simp add: forA_append thenA_def bindA_def)
  moreover have "\<forall>w<Suc k. \<forall>i<NUM_BUCKETS. free_list (buckets (wim s' w) i) = [] \<and> free_list_size (buckets (wim s' w) i) = 0"
    using s1(7) s'(5,7) by (auto simp: less_Suc_eq)
  ultimately show ?case
    using s1 s' by (intro exI[of _ s']) (auto simp: add.assoc)
qed

text \<open>The allocator's part of the runtime's shutdown, in the order of runtime/init.c.\<close>

definition im_shutdown :: "nat \<Rightarrow> ('a im_state_scheme, unit) act" where
  "im_shutdown n =
     thenA (forA [0..<n] cilk_internal_malloc_per_worker_terminate)
    (thenA (forA [0..<n] cilk_internal_malloc_per_worker_destroy)
           cilk_internal_malloc_global_destroy)"

lemma forA_check_run: "(\<And>i. i \<in> set is \<Longrightarrow> f i s = Inr ((), s)) \<Longrightarrow> forA is f s = Inr ((), s)"
  by (induction "is") (auto simp: thenA_def bindA_def)

lemma free_chunks_run:
  "is_page_aligned (page_shift s) sz \<Longrightarrow> \<exists>u. forA ms (\<lambda>m. free_to_system m sz) s = Inr ((), s\<lparr>os_unmapped := u\<rparr>)"
proof (induction ms arbitrary: s)
  case Nil
  then show ?case by (intro exI[of _ "os_unmapped s"]) simp
next
  case (Cons m ms)
  then show ?case
    using Cons.IH[of "s\<lparr>os_unmapped := (m, sz) # os_unmapped s\<rparr>"]
    by (auto simp: thenA_def bindA_def free_to_system_def)
qed

lemma shutdown_run:
  assumes good: "im_good n s {#}" and st: "pool_started (im_pool s)"
    and pg: "is_page_aligned (page_shift s) INTERNAL_MALLOC_CHUNK_SIZE"
  shows "\<exists>s'. im_shutdown n s = Inr ((), s')"
proof -
  have g: "\<not> im_lock s" "\<forall>w<n. worker_ok (wim s w) \<and> within_limits (wim s w)" "books n s {#}"
    using good by (auto simp: im_good_def im_inv_def)
  obtain s1 where s1: "forA [0..<n] cilk_internal_malloc_per_worker_terminate s = Inr ((), s1)"
      "page_shift s1 = page_shift s"
      "num_malloc (im_desc s1) = (\<lambda>t. num_malloc (im_desc s) t + (\<Sum>w<n. num_malloc (wim s w) t))"
      "\<forall>w<n. \<forall>i<NUM_BUCKETS. free_list (buckets (wim s1 w) i) = [] \<and> free_list_size (buckets (wim s1 w) i) = 0"
    using terminate_all_run[OF g(1) st order_refl g(2)] by blast
  have "cilk_internal_malloc_per_worker_destroy w s1 = Inr ((), s1)" if "w < n" for w
    unfolding cilk_internal_malloc_per_worker_destroy_def using s1(4) that by (intro forA_check_run) simp
  then have d: "forA [0..<n] cilk_internal_malloc_per_worker_destroy s1 = Inr ((), s1)"
    by (intro forA_check_run) simp
  have nm: "num_malloc (im_desc s1) t = 0" for t
    using g(3) by (simp add: s1(3) books_def)
  have "\<exists>s2. cilk_internal_malloc_global_destroy s1 = Inr ((), s2)"
    using free_chunks_run[of s1 INTERNAL_MALLOC_CHUNK_SIZE "mem_list (im_pool s1)"] pg s1(2)
    by (auto simp: cilk_internal_malloc_global_destroy_def global_im_pool_destroy_def thenA_def bindA_def nm)
  then show ?thesis using s1(1) d by (auto simp: im_shutdown_def thenA_def bindA_def)
qed

lemma pool_started_chunks:
  assumes p: "pool_inv p" and c: "chunks p \<noteq> []"
  shows "pool_started p"
proof -
  obtain cs rest where cs: "mem_list p = map Chunk cs @ rest" "length cs = unat (mem_list_index p + 1)"
      "\<forall>m \<in> set rest. slot_addr m = None"
    using p by (auto simp: pool_inv_def)
  then have "chunks p = cs" using chunks_split by blast
  then have "mem_list_index p + 1 \<noteq> 0" using c cs(2) by auto
  then have "unat (mem_list_index p + 1) = unat (mem_list_index p) + 1" by (simp add: unatSuc add.commute)
  moreover have "unat (mem_list_index p + 1) \<le> unat (mem_list_size p)"
    using pool_inv_index_le[OF p] p by (simp add: pool_inv_def)
  ultimately show ?thesis using p by (simp add: pool_started_def pool_inv_def word_less_nat_alt)
qed

subsection \<open>A small run\<close>

text \<open>One worker starts up, allocates a 2000-byte block and, in the last state, frees it.\<close>

definition im_ex0 :: im_state where
  "im_ex0 = \<lparr>os_page_size = 4096, page_shift = 0,
     im_pool = \<lparr>mem_begin = 0, mem_end = 0, mem_list = [], mem_list_index = 0, mem_list_size = 0, allocated = 0, wasted = 0\<rparr>,
     im_desc = \<lparr>buckets = (\<lambda>_. init_bucket 0), used = 0, num_malloc = (\<lambda>_. 0)\<rparr>,
     im_lock = False, wim = (\<lambda>_. \<lparr>buckets = (\<lambda>_. init_bucket 0), used = 0, num_malloc = (\<lambda>_. 0)\<rparr>),
     os_mmap = [Some 65536], os_heap = [Some 8], os_unmapped = [], os_freed = []\<rparr>"

definition im_ex1 :: im_state where
  "im_ex1 = im_ex0\<lparr>page_shift := 12,
     im_pool := \<lparr>mem_begin = 0, mem_end = 0, mem_list = replicate 8 Null_slot, mem_list_index = -1,
                 mem_list_size = 8, allocated = 0, wasted = 0\<rparr>,
     im_desc := init_im_buckets (im_desc im_ex0), os_heap := [],
     wim := (\<lambda>w. if w = 0 then init_im_buckets (wim im_ex0 w) else wim im_ex0 w)\<rparr>"

lemma ffs_4096: "ffs 4096 = 13"
  by (simp add: ffs_def upt_rec)

lemma im_ex_start: "im_start 1 im_ex0 = Inr ((), im_ex1)"
  unfolding im_start_def thenA_def bindA_def init_workers_run
  by (simp add: im_ex0_def im_ex1_def cilk_internal_malloc_global_init_def init_page_shift_def ffs_4096
        alloc_mem_list_def thenA_def bindA_def MEM_LIST_SIZE_def cilk_mutex_init_def
        init_im_buckets_def cong: if_cong)

lemmas im_defs = im_ex0_def im_ex1_def
  init_im_buckets_def init_bucket_def cilk_internal_malloc_def im_allocate_batch_def im_batch_body_def global_im_alloc_def
  pool_carve_def extend_global_pool_def malloc_from_system_def is_page_aligned_def worker_remove_def
  remove_from_free_list_def add_to_free_list_def NUM_BUCKETS_def bucket_sizes_def bucket_capacity_def SIZE_THRESH_def
  bucket_to_size_def INTERNAL_MALLOC_CHUNK_SIZE_def MEM_LIST_SIZE_def cilk_mutex_lock_def

lemma size_to_bucket_2000: "size_to_bucket 2000 = 6"
  by (simp add: size_to_bucket_def NUM_BUCKETS_def bucket_sizes_def upt_rec)

lemma im_ex_malloc: "\<exists>s. cilk_internal_malloc 0 2000 IM_FIBER im_ex1 = Inr (71680, s) \<and>
  chunks (im_pool s) = [65536] \<and> page_shift s = 12 \<and>
  free_list_size (buckets (wim s 0) 6) = 3 \<and> free_list_limit (buckets (wim s 0) 6) = 8"
proof -
  have rep: "replicate 8 Null_slot = [Null_slot, Null_slot, Null_slot, Null_slot, Null_slot, Null_slot, Null_slot, Null_slot]"
    by (simp add: numeral_eq_Suc)
  have four: "repeatA 4 m = thenA m (thenA m (thenA m (thenA m (ret ()))))" for m
    by (simp add: numeral_eq_Suc)
  show ?thesis
    by (simp add: im_defs size_to_bucket_2000 rep four thenA_def bindA_def chunks_def slot_addr_def whenA_def)
qed

definition im_ex2 :: im_state where
  "im_ex2 = (case cilk_internal_malloc 0 2000 IM_FIBER im_ex1 of Inr (_, s) \<Rightarrow> s | Inl _ \<Rightarrow> im_ex1)"

lemma im_ex2_run: "cilk_internal_malloc 0 2000 IM_FIBER im_ex1 = Inr (71680, im_ex2)"
    "chunks (im_pool im_ex2) = [65536]" "page_shift im_ex2 = 12"
    "free_list_size (buckets (wim im_ex2 0) 6) = 3" "free_list_limit (buckets (wim im_ex2 0) 6) = 8"
  using im_ex_malloc by (auto simp: im_ex2_def)

lemma im_ex_reachable:
  "im_reachable 1 im_ex1 {#}" "im_reachable 1 im_ex2 {#(71680, 2000, IM_FIBER)#}" "room 128 im_ex1"
proof -
  show r: "room 128 im_ex1" by (simp add: room_def im_ex1_def)
  show "im_reachable 1 im_ex1 {#}" using im_ex_start by (auto simp: im_reachable_def)
  have "im_step 1 (im_ex1, {#}) (im_ex2, {#(71680, 2000, IM_FIBER)#})"
    using r by (intro im_step.malloc_small[OF _ _ _ im_ex2_run(1)]) (simp_all add: SIZE_THRESH_def NUM_BUCKETS_def bucket_sizes_def)
  then show "im_reachable 1 im_ex2 {#(71680, 2000, IM_FIBER)#}"
    unfolding im_reachable_def using im_ex_start by blast
qed

lemma im_trim_done:
  "free_list_size (buckets (wim s w) i) \<le> free_list_limit (buckets (wim s w) i) \<Longrightarrow> im_trim fuel w sz i s = Inr ((), s)"
  by (cases fuel) auto

lemma im_ex_free:
  "\<exists>s. cilk_internal_free 0 71680 2000 IM_FIBER im_ex2 = Inr ((), s) \<and> im_pool s = im_pool im_ex2 \<and> page_shift s = 12"
proof -
  let ?s = "im_ex2\<lparr>wim := (wim im_ex2)(0 := give_worker [71680] 6 (charge (-1) 2000 IM_FIBER (wim im_ex2 0)))\<rparr>"
  have "cilk_internal_free 0 71680 2000 IM_FIBER im_ex2 = Inr ((), ?s)"
    unfolding free_run[OF size_to_bucket_2000[symmetric] _ refl, simplified SIZE_THRESH_def NUM_BUCKETS_def bucket_sizes_def, simplified]
    by (rule im_trim_done) (simp add: give_worker_def im_ex2_run)
  then show ?thesis by (intro exI[of _ ?s]) (simp add: im_ex2_run)
qed

lemma im_reachable_step: "im_reachable n s live \<Longrightarrow> im_step n (s, live) (s', live') \<Longrightarrow> im_reachable n s' live'"
  unfolding im_reachable_def by (meson rtranclp.rtrancl_into_rtrancl)

subsection \<open>Properties\<close>

text \<open>(C1) The consistency check the runtime makes on its allocator never reports a leak: after
  start-up and any interleaving of allocations and frees by the workers, the bytes in use, free
  and still unused add up to what the system gave, the global use equals what the workers hold, and
  no end of a chunk was wasted.\<close>

theorem malloc_check_ok:
  assumes "im_reachable n s live"
  shows "internal_malloc_global_check [0..<n] s = Inr ((), s) \<and> wasted (im_pool s) = 0"
proof
  note good = im_reachable_good[OF assms]
  show "internal_malloc_global_check [0..<n] s = Inr ((), s)" by (rule global_check_good[OF good])
  show "wasted (im_pool s) = 0" using good by (simp add: im_good_def im_inv_def pool_inv_def)
qed

theorem malloc_check_ok_witness:
  "internal_malloc_global_check [0..<1] im_ex2 = Inr ((), im_ex2) \<and> wasted (im_pool im_ex2) = 0"
  by (rule malloc_check_ok[OF im_ex_reachable(2)])

text \<open>(C2) No block is lost, handed out twice or made to overlap another: every byte \<open>x\<close> is
  covered by the live blocks, the blocks of the global and the workers' free lists and the unused
  rest of the pool together exactly as often as by the chunks the system gave, so exactly once
  when these are disjoint.\<close>

theorem malloc_partition:
  assumes "im_reachable n s live"
  shows "(\<Sum>(a, sz, t)\<in>#live. cover x a (bucket_sizes ! size_to_bucket sz)) + desc_weight (cover x) (im_desc s)
      + (\<Sum>w<n. desc_weight (cover x) (wim s w)) + cover x (mem_begin (im_pool s)) (mem_end (im_pool s) - mem_begin (im_pool s))
    = (\<Sum>a\<leftarrow>chunks (im_pool s). cover x a INTERNAL_MALLOC_CHUNK_SIZE)"
proof -
  have "client_weight (cover x) n s = (\<Sum>(a, sz, t)\<in>#live. cover x a (csize sz))"
    using im_reachable_good[OF assms] cover.block_weight_axioms unfolding im_good_def books_def by blast
  then show ?thesis by (simp add: client_weight_def handed_out_def pool_rem_def csize_def bucket_to_size_def)
qed

theorem malloc_partition_witness:
  "(\<Sum>(a, sz, t)\<in>#{#(71680, 2000, IM_FIBER)#}. cover 71690 a (bucket_sizes ! size_to_bucket sz)) + desc_weight (cover 71690) (im_desc im_ex2)
      + (\<Sum>w<1. desc_weight (cover 71690) (wim im_ex2 w)) + cover 71690 (mem_begin (im_pool im_ex2)) (mem_end (im_pool im_ex2) - mem_begin (im_pool im_ex2))
    = 1"
  using malloc_partition[OF im_ex_reachable(2), of 71690]
  by (simp add: im_ex2_run(2) cover_def INTERNAL_MALLOC_CHUNK_SIZE_def)



text \<open>(C4) Freeing a live block through any worker always returns: the loop that trims the free
  list ends within as many passes as the list has blocks, and the worker's list is back within its
  limit.\<close>

theorem free_total:
  assumes "im_reachable n s live" "w < n" "(p, sz, tag) \<in># live"
  shows "\<exists>s'. cilk_internal_free w p sz tag s = Inr ((), s') \<and> im_reachable n s' (live - {#(p, sz, tag)#}) \<and>
    free_list_size (buckets (wim s' w) (size_to_bucket sz)) \<le> bucket_capacity ! size_to_bucket sz"
proof -
  note good = im_reachable_good[OF assms(1)]
  obtain s' where s': "cilk_internal_free w p sz tag s = Inr ((), s')" "im_good n s' (live - {#(p, sz, tag)#})"
    using free_step[OF good assms(2,3)] by blast
  have "sz \<le> SIZE_THRESH" using good assms(3) by (auto simp: im_good_def books_def)
  then have "free_list_size (buckets (wim s' w) (size_to_bucket sz)) \<le> bucket_capacity ! size_to_bucket sz"
    using s'(2) assms(2) unfolding im_good_def im_inv_def worker_ok_def within_limits_def
    by (metis size_to_bucket_le)
  then show ?thesis
    using s'(1) im_reachable_step[OF assms(1) im_step.free_small[OF assms(2,3) s'(1)]] by blast
qed

theorem free_total_witness:
  "\<exists>s'. cilk_internal_free 0 71680 2000 IM_FIBER im_ex2 = Inr ((), s') \<and> im_reachable 1 s' {#} \<and>
     free_list_size (buckets (wim s' 0) (size_to_bucket 2000)) \<le> bucket_capacity ! size_to_bucket 2000"
  using free_total[OF im_ex_reachable(2), of 0 71680 2000 IM_FIBER] by simp



end
