(* ===== verification/Fiber_Correct.thy ===== *)
theory Fiber_Correct
  imports Fiber Malloc_Correct
begin

text \<open>
  The fiber pools (runtime/fiber-pool.c) lose no fiber and hand none out twice.  Every fiber in a pool or
  with a client is a live block of the allocator and has a descriptor; the pools of the workers and the
  global pool stay within their capacities, and the operations on them run without a failed assertion.
\<close>

section \<open>More about the allocator\<close>

subsection \<open>How much the list of chunks grows\<close>

definition grows :: "nat \<Rightarrow> ('a im_state_scheme, 'b) act \<Rightarrow> bool" where
  "grows k m \<longleftrightarrow> (\<forall>s x s'. m s = Inr (x, s') \<longrightarrow>
     unat (mem_list_size (im_pool s')) \<le> unat (mem_list_size (im_pool s)) + 8 * k)"

lemma growsI: "(\<And>s x s'. m s = Inr (x, s') \<Longrightarrow> unat (mem_list_size (im_pool s')) \<le> unat (mem_list_size (im_pool s)) + 8 * k) \<Longrightarrow> grows k m"
  by (auto simp: grows_def)

lemma grows_room: "grows j m \<Longrightarrow> m s = Inr (x, s') \<Longrightarrow> room (j + k) s \<Longrightarrow> room k s'"
  by (fastforce simp: grows_def room_def)

lemma grows_bindA: "grows j m \<Longrightarrow> (\<And>x. grows k (f x)) \<Longrightarrow> grows (j + k) (bindA m f)"
  unfolding grows_def bindA_Inr_iff by (fastforce simp: algebra_simps)

lemma grows_thenA: "grows j m \<Longrightarrow> grows k n \<Longrightarrow> grows (j + k) (thenA m n)"
  by (simp add: thenA_def grows_bindA)

lemma grows_mono: "grows j m \<Longrightarrow> j \<le> k \<Longrightarrow> grows k m"
  by (force simp: grows_def)

lemma grows_basic: "grows 0 (ret x)" "grows 0 (fail e)" "grows 0 (gets g)" "grows 0 (check c e)" "grows 0 (derefA p)"
  by (simp_all add: grows_def check_Inr_iff derefA_Inr_iff)

lemma grows_modify: "(\<And>s. mem_list_size (im_pool (g s)) = mem_list_size (im_pool s)) \<Longrightarrow> grows 0 (modify g)"
  by (simp add: grows_def)

lemma grows_whenA: "grows k m \<Longrightarrow> grows k (whenA b m)"
  by (cases b) (auto simp: grows_def)

lemma grows_repeatA: "grows k m \<Longrightarrow> grows (n * k) (repeatA n m)"
  by (induction n) (auto intro: grows_thenA grows_basic)

lemma grows_bindA0: "grows 0 m \<Longrightarrow> (\<And>x. grows k (f x)) \<Longrightarrow> grows k (bindA m f)"
  using grows_bindA[of 0 m k f] by simp

lemma grows_thenA0: "grows 0 m \<Longrightarrow> grows k n \<Longrightarrow> grows k (thenA m n)"
  using grows_thenA[of 0 m k n] by simp

lemma grows_case_prod: "(\<And>a b. grows k (f a b)) \<Longrightarrow> grows k (case p of (a, b) \<Rightarrow> f a b)"
  by (cases p) simp

lemma grows_case_option: "grows k m \<Longrightarrow> (\<And>a. grows k (f a)) \<Longrightarrow> grows k (case x of None \<Rightarrow> m | Some a \<Rightarrow> f a)"
  by (cases x) simp_all

lemma grows_extend: "grows 1 extend_global_pool"
proof (rule growsI)
  fix s u and s' :: "'a im_state_scheme"
  assume run: "extend_global_pool s = Inr (u, s')"
  have add: "unat (x + MEM_LIST_SIZE) \<le> unat x + 8" for x
    by (simp add: unat_word_ariths MEM_LIST_SIZE_def)
  show "unat (mem_list_size (im_pool s')) \<le> unat (mem_list_size (im_pool s)) + 8 * 1"
    using run by (auto simp: extend_global_pool_def act_dest grow_mem_list_def Let_def add
        elim!: malloc_from_system_Inr split: if_splits list.splits option.splits)
qed

lemma grows_carve: "grows 1 (pool_carve sz)"
proof (rule growsI)
  fix s x and s' :: "'a im_state_scheme"
  assume run: "pool_carve sz s = Inr (x, s')"
  let ?s = "s\<lparr>im_pool := (im_pool s)\<lparr>wasted := wasted (im_pool s) + (mem_end (im_pool s) - mem_begin (im_pool s))\<rparr>\<rparr>"
  have "unat (mem_list_size (im_pool s1)) \<le> unat (mem_list_size (im_pool s)) + 8" if "extend_global_pool ?s = Inr (u, s1)" for u s1
    using grows_extend that by (fastforce simp: grows_def)
  then show "unat (mem_list_size (im_pool s')) \<le> unat (mem_list_size (im_pool s)) + 8 * 1"
    using run by (auto simp: pool_carve_def act_dest split: if_splits)
qed

lemma grows_global_im_alloc: "grows 1 (global_im_alloc sz i)"
  unfolding global_im_alloc_def
  by (intro grows_thenA0 grows_bindA0 grows_basic grows_modify grows_case_prod grows_case_option grows_carve
      grows_mono[OF grows_basic(1)]) simp_all

lemma grows_lock: "grows 0 (cilk_mutex_lock im_lock (\<lambda>b s. s\<lparr>im_lock := b\<rparr>))"
  "grows 0 (cilk_mutex_unlock (\<lambda>b s. s\<lparr>im_lock := b\<rparr>))"
  by (rule growsI; auto simp: cilk_mutex_lock_Inr_iff)+

lemma grows_allocate_batch: "grows (bucket_capacity ! i div 2) (im_allocate_batch w sz i)"
proof -
  have "grows 1 (im_batch_body w sz i)"
    unfolding im_batch_body_def by (rule grows_mono[where j = "1 + 0"], intro grows_bindA grows_global_im_alloc grows_modify) simp_all
  from grows_repeatA[OF this] have b: "grows (bucket_capacity ! i div 2) (repeatA (bucket_capacity ! i div 2) (im_batch_body w sz i))"
    by simp
  show ?thesis
    unfolding im_allocate_batch_def Let_def
    by (rule grows_mono[where j = "0 + (bucket_capacity ! i div 2 + (0 + 0))"], intro grows_thenA b grows_lock grows_modify)
      simp_all
qed

lemma grows_worker_remove: "grows 0 (worker_remove w i)"
  by (rule growsI) (auto simp: worker_remove_run split: list.splits)

lemma grows_malloc:
  assumes "sz \<le> SIZE_THRESH"
  shows "grows 128 (cilk_internal_malloc w sz tag)"
proof -
  have i: "size_to_bucket sz < NUM_BUCKETS" using assms by (simp add: size_to_bucket_le)
  have b: "grows 128 (thenA (im_allocate_batch w csize (size_to_bucket sz))
      (bindA (worker_remove w (size_to_bucket sz)) (\<lambda>mem. case mem of Some m \<Rightarrow> ret m | None \<Rightarrow> fail e)))" for csize e
    by (rule grows_mono[where j = "bucket_capacity ! size_to_bucket sz div 2 + 0"],
        intro grows_thenA grows_allocate_batch grows_bindA0 grows_worker_remove grows_case_option grows_basic)
      (use bucket_tables(6)[OF i] in simp)
  show ?thesis
    unfolding cilk_internal_malloc_def Let_def using i
    by (simp add: not_le) (intro grows_thenA0 grows_bindA0 grows_modify grows_worker_remove grows_case_option b
        grows_mono[OF grows_basic(1)]; simp)
qed

lemma malloc_room:
  "cilk_internal_malloc w sz tag s = Inr (a, s') \<Longrightarrow> sz \<le> SIZE_THRESH \<Longrightarrow> room (128 + k) s \<Longrightarrow> room k s'"
  using grows_room[OF grows_malloc] by blast

subsection \<open>Chunks and the blocks in them\<close>

text \<open>No chunk is at address 0: \<open>malloc_from_system\<close> checks it.\<close>

definition chunks_nonzero :: "'a im_state_scheme \<Rightarrow> bool" where
  "chunks_nonzero s \<longleftrightarrow> (\<forall>m \<in> set (mem_list (im_pool s)). slot_addr m \<noteq> Some 0)"

lemma nonzero_extend: "preserves chunks_nonzero extend_global_pool"
proof (rule preserves_fun)
  fix s x and s' :: "'a im_state_scheme"
  assume run: "extend_global_pool s = Inr (x, s')" and nz: "chunks_nonzero s"
  have sl: "slot_addr (Chunk a) = Some a" "slot_addr Uninit = None" for a by (simp_all add: slot_addr_def)
  show "chunks_nonzero s'"
    using run nz by (auto simp: extend_global_pool_def act_dest grow_mem_list_def Let_def chunks_nonzero_def sl
        elim!: malloc_from_system_Inr split: if_splits list.splits option.splits
        dest!: set_update_subset_insert[THEN subsetD])
qed

lemma nonzero_carve: "preserves chunks_nonzero (pool_carve sz)"
proof (rule preserves_fun)
  fix s x and s' :: "'a im_state_scheme"
  assume run: "pool_carve sz s = Inr (x, s')" and nz: "chunks_nonzero s"
  let ?s = "s\<lparr>im_pool := (im_pool s)\<lparr>wasted := wasted (im_pool s) + (mem_end (im_pool s) - mem_begin (im_pool s))\<rparr>\<rparr>"
  have "chunks_nonzero ?s" using nz by (simp add: chunks_nonzero_def)
  then have "chunks_nonzero s1" if "extend_global_pool ?s = Inr (u, s1)" for u s1
    using preservesD[OF nonzero_extend _ that] by blast
  then show "chunks_nonzero s'"
    using run nz by (auto simp: pool_carve_def act_dest chunks_nonzero_def split: if_splits)
qed

lemma nonzero_malloc:
  assumes "sz \<le> SIZE_THRESH"
  shows "preserves chunks_nonzero (cilk_internal_malloc w sz tag)"
proof -
  have g: "preserves chunks_nonzero (global_im_alloc sz' i)" for sz' i
    unfolding global_im_alloc_def by (intro preserves_intros preserves_modify nonzero_carve) (simp_all add: chunks_nonzero_def)
  have l: "preserves chunks_nonzero (cilk_mutex_lock im_lock (\<lambda>b s. s\<lparr>im_lock := b\<rparr>))"
      "preserves chunks_nonzero (cilk_mutex_unlock (\<lambda>b s. s\<lparr>im_lock := b\<rparr>))"
    by (rule preserves_fun, auto simp: cilk_mutex_lock_Inr_iff chunks_nonzero_def)+
  have r: "preserves chunks_nonzero (worker_remove w i)" for i
    by (rule preserves_fun) (auto simp: worker_remove_run chunks_nonzero_def split: list.splits)
  have i: "\<not> NUM_BUCKETS \<le> size_to_bucket sz" using assms by (simp add: size_to_bucket_le not_le)
  show ?thesis
    unfolding cilk_internal_malloc_def Let_def im_allocate_batch_def im_batch_body_def if_not_P[OF i]
    by (intro preserves_intros preserves_modify g l r) (simp_all add: chunks_nonzero_def)
qed

text \<open>Freeing a block leaves the chunks alone.\<close>

lemma pool_free:
  assumes "sz \<le> SIZE_THRESH"
  shows "preserves (\<lambda>s. im_pool s = p) (cilk_internal_free w a sz tag)"
proof -
  have l: "preserves (\<lambda>s. im_pool s = p) (im_free_loop k w' sz' i)" for k w' sz' i
  proof (induction k)
    case (Suc k)
    then show ?case unfolding im_free_loop.simps by (intro preserves_intros preserves_modify) simp_all
  qed (simp only: im_free_loop.simps preserves_basic)
  have m: "preserves (\<lambda>s. im_pool s = p) (cilk_mutex_lock im_lock (\<lambda>b s. s\<lparr>im_lock := b\<rparr>))"
      "preserves (\<lambda>s. im_pool s = p) (cilk_mutex_unlock (\<lambda>b s. s\<lparr>im_lock := b\<rparr>))"
    by (rule preserves_fun, auto simp: cilk_mutex_lock_Inr_iff)+
  have t: "preserves (\<lambda>s. im_pool s = p) (im_trim k w' sz' i)" for k w' sz' i
  proof (induction k)
    case 0
    then show ?case unfolding im_trim.simps by (intro preserves_intros)
  next
    case (Suc k)
    then show ?case unfolding im_trim.simps im_free_batch_def by (intro preserves_intros l m)
  qed
  have i: "\<not> SIZE_THRESH < sz" using assms by simp
  show ?thesis
    unfolding cilk_internal_free_def Let_def if_not_P[OF i] by (intro preserves_intros preserves_modify t) simp_all
qed

text \<open>The system has given no chunk that overlaps another.\<close>

definition honest :: "'a im_state_scheme \<Rightarrow> bool" where
  "honest s \<longleftrightarrow> (\<forall>x. (\<Sum>a\<leftarrow>chunks (im_pool s). cover x a INTERNAL_MALLOC_CHUNK_SIZE) \<le> 1)"

lemma live_cover:
  assumes "im_good n s L"
  shows "(\<Sum>(a, sz, t)\<in>#L. cover x a (csize sz)) \<le> (\<Sum>a\<leftarrow>chunks (im_pool s). cover x a INTERNAL_MALLOC_CHUNK_SIZE)"
proof -
  have "client_weight (cover x) n s = (\<Sum>(a, sz, t)\<in>#L. cover x a (csize sz))"
    using assms cover.block_weight_axioms unfolding im_good_def books_def by blast
  moreover have "0 \<le> cover x a m" for a m by (simp add: cover_def)
  moreover have "0 \<le> desc_weight (cover x) d" for d
    by (auto simp: desc_weight_def bucket_weight_def cover_def intro!: sum_nonneg sum_list_nonneg)
  ultimately show ?thesis by (simp add: client_weight_def handed_out_def) (smt (verit) sum_nonneg)
qed

lemma csize_pos: "sz \<le> SIZE_THRESH \<Longrightarrow> 0 < csize sz"
  using bucket_tables(1)[of "size_to_bucket sz"] by (simp add: csize_def bucket_to_size_def size_to_bucket_le)

lemma cover_start: "0 < m \<Longrightarrow> cover a a m = 1"
  by (simp add: cover_def)

lemma cover_live_nonneg: "0 \<le> (\<Sum>(a, sz, t)\<in>#L. cover x a (csize sz))"
  by (induction L) (auto simp: cover_def)

lemma live_size: "im_good n s L \<Longrightarrow> (a, sz, t) \<in># L \<Longrightarrow> sz \<le> SIZE_THRESH"
  by (auto simp: im_good_def books_def)

lemma live_nonzero:
  assumes "im_good n s (add_mset (a, sz, t) L)" "chunks_nonzero s"
  shows "a \<noteq> 0"
proof
  assume a: "a = 0"
  have "sz \<le> SIZE_THRESH" using live_size[OF assms(1), of a sz t] by simp
  then have "1 \<le> (\<Sum>(c, sz, t)\<in>#add_mset (a, sz, t) L. cover 0 c (csize sz))"
    using cover_live_nonneg[of 0 L] csize_pos by (simp add: a cover_start)
  also have "\<dots> \<le> (\<Sum>a\<leftarrow>chunks (im_pool s). cover 0 a INTERNAL_MALLOC_CHUNK_SIZE)" by (rule live_cover[OF assms(1)])
  also have "\<dots> = (\<Sum>a\<leftarrow>chunks (im_pool s). 0)"
    using assms(2) by (intro arg_cong[of _ _ sum_list] map_cong)
      (auto simp: chunks_def chunks_nonzero_def cover_def List.map_filter_def)
  finally show False by simp
qed

lemma live_distinct:
  assumes "im_good n s (add_mset (a, sz, t) L)" "honest s" "(b, sz', t') \<in># L"
  shows "b \<noteq> a"
proof
  assume b: "b = a"
  obtain M where L: "L = add_mset (b, sz', t') M" using assms(3) by (metis insert_DiffM)
  have "sz \<le> SIZE_THRESH" "sz' \<le> SIZE_THRESH" using live_size[OF assms(1), of a sz t] live_size[OF assms(1), of b sz' t'] assms(3) by auto
  then have "2 \<le> (\<Sum>(c, sz, t)\<in>#add_mset (a, sz, t) L. cover a c (csize sz))"
    using cover_live_nonneg[of a M] csize_pos by (simp add: L b cover_start)
  also have "\<dots> \<le> 1" using live_cover[OF assms(1), of a] assms(2) by (auto simp: honest_def intro: order_trans)
  finally show False by simp
qed

lemma honest_pool: "im_pool s' = im_pool s \<Longrightarrow> honest s' = honest s"
  by (simp add: honest_def)

section \<open>Fibers\<close>

text \<open>The fibers \<open>F\<close>, wherever they are, are live blocks with a descriptor each; \<open>live\<close> are the other blocks.\<close>

definition fiber_led :: "addr multiset \<Rightarrow> ledger" where
  "fiber_led F = image_mset (\<lambda>f. (f, SIZEOF_FIBER, IM_FIBER)) F"

definition core :: "nat \<Rightarrow> ledger \<Rightarrow> addr multiset \<Rightarrow> 'a fiber_state_scheme \<Rightarrow> bool" where
  "core n live F s \<longleftrightarrow> im_good n s (live + fiber_led F) \<and> chunks_nonzero s \<and> (\<forall>f \<in># F. fibers s f \<noteq> None)"

lemma fiber_led_simps [simp]:
  "fiber_led {#} = {#}" "fiber_led (add_mset f F) = add_mset (f, SIZEOF_FIBER, IM_FIBER) (fiber_led F)"
  "fiber_led (F + G) = fiber_led F + fiber_led G"
  by (simp_all add: fiber_led_def)

lemma fiber_led_mem: "f \<in># F \<Longrightarrow> (f, SIZEOF_FIBER, IM_FIBER) \<in># fiber_led F"
  by (auto simp: fiber_led_def)

lemma SIZEOF_FIBER_le [simp]: "SIZEOF_FIBER \<le> SIZE_THRESH" "\<not> SIZE_THRESH < SIZEOF_FIBER"
  by (simp_all add: SIZEOF_FIBER_def SIZE_THRESH_def bucket_sizes_def NUM_BUCKETS_def)

lemma more_fiber_fields:
  assumes "im_state.more s' = im_state.more s"
  shows "fibers s' = fibers s" "get_pool r s' = get_pool r s" "opt_stacksize s' = opt_stacksize s"
    "opt_fiber_pool_cap s' = opt_fiber_pool_cap s" "fiber_state.more s' = fiber_state.more s"
  using assms by (cases s; cases s'; simp add: get_pool_def split: pool_ref.splits)+

lemma core_cong:
  "im_lock s' = im_lock s \<Longrightarrow> im_pool s' = im_pool s \<Longrightarrow> im_desc s' = im_desc s \<Longrightarrow> wim s' = wim s \<Longrightarrow> fibers s' = fibers s \<Longrightarrow>
   core n live F s' = core n live F s"
  using im_good_cong[of s' s] by (simp add: core_def chunks_nonzero_def)

lemma get_put_pool [simp]:
  "get_pool r (put_pool r f s) = f (get_pool r s)"
  "r \<noteq> r' \<Longrightarrow> get_pool r' (put_pool r f s) = get_pool r' s"
  "get_pool r (s\<lparr>fibers := F\<rparr>) = get_pool r s" "get_pool r (s\<lparr>os_mmap := om\<rparr>) = get_pool r s"
  "get_pool r (s\<lparr>os_heap := oh\<rparr>) = get_pool r s"
  "get_pool r (s\<lparr>os_unmapped := ou\<rparr>) = get_pool r s"
  by (auto simp: get_pool_def put_pool_def split: pool_ref.splits)

lemma get_pool_simps [simp]: "get_pool Global_pool s = gfiber_pool s" "get_pool (Worker_pool w) s = wfiber_pool s w"
  by (simp_all add: get_pool_def)

lemma put_pool_fields [simp]:
  "fibers (put_pool r f s) = fibers s" "os_heap (put_pool r f s) = os_heap s" "im_pool (put_pool r f s) = im_pool s"
  "opt_stacksize (put_pool r f s) = opt_stacksize s" "opt_fiber_pool_cap (put_pool r f s) = opt_fiber_pool_cap s"
  by (auto simp: put_pool_def split: pool_ref.splits)

lemma core_put_pool [simp]: "core n live F (put_pool r f s) = core n live F s"
  by (rule core_cong) (auto simp: put_pool_def split: pool_ref.splits)

lemma room_put_pool [simp]: "room k (put_pool r f s) = room k s"
  by (simp add: room_def)

subsection \<open>One fiber\<close>

text \<open>How the system refuses memory: to the allocator, or for a stack.\<close>

definition no_memory :: "fault set" where
  "no_memory = insert (Bug Fiber_c 64) out_of_memory"

definition same_pools :: "'a fiber_state_scheme \<Rightarrow> 'a fiber_state_scheme \<Rightarrow> bool" where
  "same_pools s s' \<longleftrightarrow> (\<forall>r. get_pool r s' = get_pool r s) \<and> opt_fiber_pool_cap s' = opt_fiber_pool_cap s
     \<and> opt_stacksize s' = opt_stacksize s"

lemma same_poolsD: "same_pools s s' \<Longrightarrow> get_pool r s' = get_pool r s"
  by (simp add: same_pools_def)

lemma get_put_if: "get_pool q (put_pool r f s) = (if q = r then f (get_pool r s) else get_pool q s)"
  by simp

lemma same_pools_again:
  assumes "same_pools (put_pool r f s) s1" "same_pools (put_pool r g s1) s'"
  shows "same_pools (put_pool r (\<lambda>p. g (f p)) s) s'"
  using assms by (simp add: same_pools_def get_put_if)

lemma fiber_allocate_run:
  assumes "core n live F s" "w < n" "room (128 + k) s"
  shows "(\<exists>f s'. cilk_fiber_allocate w sz s = Inr (f, s') \<and> core n live (add_mset f F) s' \<and> same_pools s s' \<and> room k s')
    \<or> (\<exists>e \<in> no_memory. cilk_fiber_allocate w sz s = Inl e)"
proof (cases "cilk_internal_malloc w SIZEOF_FIBER IM_FIBER s")
  case (Inl e)
  have "e \<in> out_of_memory"
    using malloc_Inl[OF _ assms(2) _ _ Inl] assms(1,3) by (auto simp: core_def room_def)
  then show ?thesis using Inl by (auto simp: cilk_fiber_allocate_def no_memory_def run_bindA_Inl)
next
  case (Inr r)
  obtain f s1 where r: "cilk_internal_malloc w SIZEOF_FIBER IM_FIBER s = Inr (f, s1)" using Inr by (cases r) simp
  have g: "im_good n s1 (add_mset (f, SIZEOF_FIBER, IM_FIBER) (live + fiber_led F))"
    using malloc_step[OF _ assms(2) _ _ r] assms(1,3) by (auto simp: core_def room_def)
  have nz: "chunks_nonzero s1"
    using preservesD[OF nonzero_malloc _ r] assms(1) by (simp add: core_def)
  have rm: "room k s1" using malloc_room[OF r] assms(3) by simp
  note same = more_fiber_fields[OF malloc_outside[OF r]]
  show ?thesis
  proof (cases "\<exists>low rest. os_mmap s1 = Some low # rest")
    case True
    then obtain low rest where os: "os_mmap s1 = Some low # rest" by blast
    obtain fb where run: "cilk_fiber_allocate w sz s = Inr (f, s1\<lparr>os_mmap := rest, fibers := (fibers s1)(f \<mapsto> fb)\<rparr>)"
      using os by (auto simp: cilk_fiber_allocate_def bindA_def thenA_def r make_stack_def Let_def run_thenA_Inr)
    have "im_good n (s1\<lparr>os_mmap := rest, fibers := (fibers s1)(f \<mapsto> fb)\<rparr>) L = im_good n s1 L" for L
      by (rule im_good_cong) simp_all
    then have "core n live (add_mset f F) (s1\<lparr>os_mmap := rest, fibers := (fibers s1)(f \<mapsto> fb)\<rparr>)"
      using g nz assms(1) same(1) by (auto simp: core_def chunks_nonzero_def)
    then show ?thesis using run rm same by (auto simp: same_pools_def room_def)
  next
    case False
    then show ?thesis
      by (auto simp: cilk_fiber_allocate_def bindA_def thenA_def r make_stack_def Let_def no_memory_def run_thenA_Inl
          split: list.splits option.splits)
  qed
qed

lemma free_stack_run:
  assumes "fibers s f \<noteq> None"
  shows "\<exists>ou fb. free_stack f s = Inr ((), s\<lparr>os_unmapped := ou, fibers := (fibers s)(f \<mapsto> fb)\<rparr>)"
proof -
  obtain fb where fb: "fibers s f = Some fb" using assms by blast
  show ?thesis
  proof (cases "alloc_low fb = 0")
    case True
    then show ?thesis using fb
      by (intro exI[of _ "os_unmapped s"] exI[of _ fb]) (simp add: free_stack_def fun_upd_idem)
  next
    case False
    then show ?thesis using fb by (auto simp: free_stack_def)
  qed
qed

lemma fiber_deallocate_run:
  assumes "core n live F s" "honest s" "w < n" "f \<in># F"
  shows "\<exists>s'. cilk_fiber_deallocate w f s = Inr ((), s') \<and> core n live (F - {#f#}) s' \<and> same_pools s s' \<and> im_pool s' = im_pool s"
proof -
  obtain G where F: "F = add_mset f G" using assms(4) by (metis insert_DiffM)
  have good: "im_good n s (add_mset (f, SIZEOF_FIBER, IM_FIBER) (live + fiber_led G))" using assms(1) by (simp add: core_def F)
  obtain ou fb where fs: "free_stack f s = Inr ((), s\<lparr>os_unmapped := ou, fibers := (fibers s)(f \<mapsto> fb)\<rparr>)"
    using free_stack_run[of s f] assms(1,4) by (auto simp: core_def)
  define s1 where "s1 = s\<lparr>os_unmapped := ou, fibers := (fibers s)(f := None)\<rparr>"
  have "im_good n s1 L = im_good n s L" for L unfolding s1_def by (rule im_good_cong) simp_all
  then obtain s' where s': "cilk_internal_free w f SIZEOF_FIBER IM_FIBER s1 = Inr ((), s')" "im_good n s' (live + fiber_led G)"
    using free_step[OF _ assms(3), of s1 "add_mset (f, SIZEOF_FIBER, IM_FIBER) (live + fiber_led G)" f SIZEOF_FIBER IM_FIBER] good
    by auto
  have run: "cilk_fiber_deallocate w f s = Inr ((), s')"
    using s'(1) by (simp add: cilk_fiber_deallocate_def thenA_def bindA_def fs s1_def)
  note same = more_fiber_fields[OF free_outside[OF s'(1)]]
  have pool: "im_pool s' = im_pool s" using preservesD[OF pool_free _ s'(1), of "im_pool s"] by (simp add: s1_def)
  have "fibers s' g \<noteq> None" if "g \<in># G" for g
    using live_distinct[OF good assms(2), of g SIZEOF_FIBER IM_FIBER] that assms(1) fiber_led_mem[OF that]
    by (auto simp: same(1) s1_def core_def F)
  then have "core n live G s'" using s'(2) assms(1) pool by (simp add: core_def chunks_nonzero_def)
  then show ?thesis using run pool same by (auto simp: F same_pools_def s1_def)
qed

section \<open>Pools\<close>

subsection \<open>Moving fibers\<close>

abbreviation put_fibers :: "pool_ref \<Rightarrow> addr list \<Rightarrow> 'a fiber_state_scheme \<Rightarrow> 'a fiber_state_scheme" where
  "put_fibers r fs \<equiv> put_pool r (\<lambda>p. p\<lparr>pfibers := fs\<rparr>)"

lemma put_pool_twice [simp]: "put_pool r f (put_pool r g s) = put_pool r (\<lambda>p. f (g p)) s"
  by (simp add: put_pool_def split: pool_ref.splits)

lemma put_pool_swap: "q \<noteq> r \<Longrightarrow> put_pool q f (put_pool r g s) = put_pool r g (put_pool q f s)"
  by (auto simp: put_pool_def fun_upd_twist split: pool_ref.splits)

lemma put_pool_idem: "f (get_pool r s) = get_pool r s \<Longrightarrow> put_pool r f s = s"
  by (cases s) (simp add: put_pool_def get_pool_def fun_upd_idem split: pool_ref.splits)

lemma pool_pop_run:
  "pfibers (get_pool r s) = fs @ [f] \<Longrightarrow> pool_pop r s = Inr (f, put_fibers r fs s)"
  by (simp add: pool_pop_def)

lemma pool_push_run:
  "length (pfibers (get_pool r s)) < pool_capacity (get_pool r s) \<Longrightarrow>
   pool_push r f s = Inr ((), put_fibers r (pfibers (get_pool r s) @ [f]) s)"
  by (simp add: pool_push_def) (simp add: put_pool_def get_pool_def split: pool_ref.splits)

lemma move_loop:
  assumes "q \<noteq> r" "k \<le> length (pfibers (get_pool q s))" "length (pfibers (get_pool r s)) + k \<le> pool_capacity (get_pool r s)"
  shows "\<exists>xs ys. pfibers (get_pool q s) = xs @ ys \<and> length ys = k \<and>
    repeatA k (bindA (pool_pop q) (pool_push r)) s = Inr ((), put_fibers r (pfibers (get_pool r s) @ rev ys) (put_fibers q xs s))"
  using assms(2,3)
proof (induction k arbitrary: s)
  case 0
  then show ?case using assms(1)
    by (intro exI[of _ "pfibers (get_pool q s)"] exI[of _ "[]"]) (simp add: put_pool_idem)
next
  case (Suc k)
  obtain fs f where fs: "pfibers (get_pool q s) = fs @ [f]" using Suc.prems(1) by (metis Zero_not_Suc le_zero_eq list.size(3) rev_exhaust)
  let ?s = "put_fibers r (pfibers (get_pool r s) @ [f]) (put_fibers q fs s)"
  have one: "bindA (pool_pop q) (pool_push r) s = Inr ((), ?s)"
    using Suc.prems(2) assms(1) by (simp add: bindA_def pool_pop_run[OF fs] pool_push_run)
  have "k \<le> length (pfibers (get_pool q ?s))" "length (pfibers (get_pool r ?s)) + k \<le> pool_capacity (get_pool r ?s)"
    using Suc.prems assms(1) fs by simp_all
  from Suc.IH[OF this] obtain xs ys where IH: "fs = xs @ ys" "length ys = k"
      "repeatA k (bindA (pool_pop q) (pool_push r)) ?s = Inr ((), put_fibers r (pfibers (get_pool r ?s) @ rev ys) (put_fibers q xs ?s))"
    using assms(1) by auto
  have eq: "put_fibers q xs ?s = put_fibers r (pfibers (get_pool r s) @ [f]) (put_fibers q xs s)"
    using assms(1) by (simp add: put_pool_swap[of q r])
  show ?case
    using IH fs assms(1) unfolding eq
    by (intro exI[of _ xs] exI[of _ "ys @ [f]"]) (simp add: run_thenA_Inr[where m = "bindA (pool_pop q) (pool_push r)", OF one])
qed

lemma allocate_loop:
  assumes "core n live F s" "w < n" "room (128 * k + j) s" "length (pfibers (get_pool r s)) + k \<le> pool_capacity (get_pool r s)"
  shows "(\<exists>fs s'. repeatA k (bindA (gets (\<lambda>s. pool_stack_size (get_pool r s))) (\<lambda>ss. bindA (cilk_fiber_allocate w ss) (pool_push r))) s = Inr ((), s')
      \<and> length fs = k \<and> core n live (F + mset fs) s' \<and> same_pools (put_fibers r (pfibers (get_pool r s) @ fs) s) s' \<and> room j s')
    \<or> (\<exists>e \<in> no_memory. repeatA k (bindA (gets (\<lambda>s. pool_stack_size (get_pool r s))) (\<lambda>ss. bindA (cilk_fiber_allocate w ss) (pool_push r))) s = Inl e)"
    (is "_ \<or> (\<exists>e \<in> _. repeatA k ?m s = _)")
  using assms(1,3,4)
proof (induction k arbitrary: s F)
  case 0
  then show ?case by (intro disjI1 exI[of _ "[]"] exI[of _ s]) (simp add: same_pools_def put_pool_idem)
next
  case (Suc k)
  have rm: "room (128 + (128 * k + j)) s" using Suc.prems(2) by (simp add: add.assoc)
  let ?sz = "pool_stack_size (get_pool r s)"
  from fiber_allocate_run[OF Suc.prems(1) assms(2) rm, of ?sz] show ?case
  proof (elim disjE exE conjE bexE)
    fix e assume "e \<in> no_memory" "cilk_fiber_allocate w ?sz s = Inl e"
    then show ?thesis by (auto simp: thenA_def bindA_def)
  next
    fix f s1 assume f: "cilk_fiber_allocate w ?sz s = Inr (f, s1)" "core n live (add_mset f F) s1" "same_pools s s1" "room (128 * k + j) s1"
    let ?s = "put_fibers r (pfibers (get_pool r s) @ [f]) s1"
    have one: "?m s = Inr ((), ?s)"
      using Suc.prems(3) by (simp add: bindA_def f(1) pool_push_run same_poolsD[OF f(3)])
    have rep: "repeatA (Suc k) ?m s = repeatA k ?m ?s"
      by (simp only: repeatA.simps run_thenA_Inr[where m = ?m and s = s, OF one])
    have pre: "core n live (add_mset f F) ?s" "room (128 * k + j) ?s"
        "length (pfibers (get_pool r ?s)) + k \<le> pool_capacity (get_pool r ?s)"
      using f Suc.prems(3) by (simp_all add: same_poolsD)
    from Suc.IH[OF pre] show ?thesis
    proof (elim disjE exE conjE bexE)
      fix e assume "e \<in> no_memory" "repeatA k ?m ?s = Inl e"
      then show ?thesis unfolding rep by blast
    next
      fix fs s' assume IH: "repeatA k ?m ?s = Inr ((), s')" "length fs = k" "core n live (add_mset f F + mset fs) s'"
        "same_pools (put_fibers r (pfibers (get_pool r ?s) @ fs) ?s) s'" "room j s'"
      have "same_pools (put_fibers r (pfibers (get_pool r s) @ f # fs) s) s'"
        using IH(4) f(3) by (simp add: same_pools_def) (metis get_put_pool(1,2))
      then show ?thesis using IH(1,2,3,5) unfolding rep
        by (intro disjI1 exI[of _ "f # fs"] exI[of _ s']) simp
    qed
  qed
qed

lemma deallocate_loop:
  assumes "core n live (F + mset (pfibers (get_pool r s))) s" "honest s" "w < n" "k \<le> length (pfibers (get_pool r s))"
  shows "\<exists>xs ys s'. pfibers (get_pool r s) = xs @ ys \<and> length ys = k
    \<and> repeatA k (bindA (pool_pop r) (cilk_fiber_deallocate w)) s = Inr ((), s')
    \<and> core n live (F + mset xs) s' \<and> same_pools (put_fibers r xs s) s' \<and> im_pool s' = im_pool s"
  using assms(1,2,4)
proof (induction k arbitrary: s)
  case 0
  then show ?case
    by (intro exI[of _ "pfibers (get_pool r s)"] exI[of _ "[]"] exI[of _ s]) (simp add: same_pools_def put_pool_idem)
next
  case (Suc k)
  let ?m = "bindA (pool_pop r) (cilk_fiber_deallocate w)"
  obtain fs f where fs: "pfibers (get_pool r s) = fs @ [f]" using Suc.prems(3) by (metis Zero_not_Suc le_zero_eq list.size(3) rev_exhaust)
  have "core n live (F + mset (pfibers (get_pool r s))) (put_fibers r fs s)" "honest (put_fibers r fs s)"
    using Suc.prems(1,2) honest_pool[of "put_fibers r fs s" s] by simp_all
  from fiber_deallocate_run[OF this assms(3), of f] obtain s1 where
    s1: "cilk_fiber_deallocate w f (put_fibers r fs s) = Inr ((), s1)" "core n live (F + mset fs) s1"
      "same_pools (put_fibers r fs s) s1" "im_pool s1 = im_pool s"
    using fs by auto
  have one: "?m s = Inr ((), s1)" by (simp add: bindA_def pool_pop_run[OF fs] s1(1))
  have rep: "repeatA (Suc k) ?m s = repeatA k ?m s1"
    by (simp only: repeatA.simps run_thenA_Inr[where m = ?m and s = s, OF one])
  have r: "pfibers (get_pool r s1) = fs" by (simp add: same_poolsD[OF s1(3)])
  have "core n live (F + mset (pfibers (get_pool r s1))) s1" "honest s1" "k \<le> length (pfibers (get_pool r s1))"
    using s1(2) r Suc.prems fs honest_pool[OF s1(4)] by simp_all
  from Suc.IH[OF this] obtain xs ys s' where IH: "fs = xs @ ys" "length ys = k" "repeatA k ?m s1 = Inr ((), s')"
      "core n live (F + mset xs) s'" "same_pools (put_fibers r xs s1) s'" "im_pool s' = im_pool s1"
    unfolding r by blast
  have "same_pools (put_fibers r xs s) s'" using same_pools_again[OF s1(3) IH(5)] by simp
  then show ?case
    unfolding rep using IH s1(4) fs by (intro exI[of _ xs] exI[of _ "ys @ [f]"] exI[of _ s']) simp
qed

subsection \<open>The invariant\<close>

definition pooled :: "nat \<Rightarrow> 'a fiber_state_scheme \<Rightarrow> addr multiset" where
  "pooled n s = mset (pfibers (gfiber_pool s)) + (\<Sum>v < n. mset (pfibers (wfiber_pool s v)))"

text \<open>The fibers in the pools of the other workers.\<close>

definition elsewhere :: "nat \<Rightarrow> worker_id \<Rightarrow> 'a fiber_state_scheme \<Rightarrow> addr multiset" where
  "elsewhere n w s = (\<Sum>v \<in> {..< n} - {w}. mset (pfibers (wfiber_pool s v)))"

definition wpool_ok :: "cilk_fiber_pool \<Rightarrow> bool" where
  "wpool_ok p \<longleftrightarrow> \<not> shared p \<and> pool_parent p = Some Global_pool \<and> length (pfibers p) \<le> pool_capacity p \<and> 2 \<le> pool_capacity p"

definition gpool_ok :: "cilk_fiber_pool \<Rightarrow> bool" where
  "gpool_ok g \<longleftrightarrow> shared g \<and> \<not> pool_lock g \<and> pool_owner g = NO_WORKER \<and> length (pfibers g) \<le> pool_capacity g"

text \<open>\<open>out\<close> are the fibers with a client, \<open>live\<close> the other blocks of the allocator.\<close>

definition pools_inv :: "nat \<Rightarrow> ledger \<Rightarrow> addr multiset \<Rightarrow> 'a fiber_state_scheme \<Rightarrow> bool" where
  "pools_inv n live out s \<longleftrightarrow> n \<le> NO_WORKER \<and> core n live (pooled n s + out) s
     \<and> gpool_ok (gfiber_pool s) \<and> (\<forall>w < n. wpool_ok (wfiber_pool s w))"

lemma pooled_eq:
  "w < n \<Longrightarrow> pooled n s = elsewhere n w s + mset (pfibers (gfiber_pool s)) + mset (pfibers (wfiber_pool s w))"
  unfolding pooled_def elsewhere_def by (subst sum.remove[of "{..< n}" w]) auto

lemma elsewhere_cong: "(\<And>v. v \<noteq> w \<Longrightarrow> wfiber_pool s' v = wfiber_pool s v) \<Longrightarrow> elsewhere n w s' = elsewhere n w s"
  unfolding elsewhere_def by (intro sum.cong) auto

lemma room_le: "room k s \<Longrightarrow> j \<le> k \<Longrightarrow> room j s"
  by (simp add: room_def)

lemma pools_invD:
  assumes "pools_inv n live out s" "w < n"
  shows "\<not> shared (wfiber_pool s w)" "pool_parent (wfiber_pool s w) = Some Global_pool"
    "length (pfibers (wfiber_pool s w)) \<le> pool_capacity (wfiber_pool s w)" "2 \<le> pool_capacity (wfiber_pool s w)"
    "gpool_ok (gfiber_pool s)" "n \<le> NO_WORKER" "core n live (pooled n s + out) s"
  using assms by (auto simp: pools_inv_def wpool_ok_def)

subsection \<open>Batches\<close>

lemma lock_global_run:
  assumes "gpool_ok (gfiber_pool s)" "w < n" "n \<le> NO_WORKER"
  shows "fiber_pool_lock w Global_pool s = Inr ((), put_pool Global_pool (\<lambda>p. p\<lparr>pool_lock := True, pool_owner := w\<rparr>) s)"
  using assms by (simp add: fiber_pool_lock_def fiber_pool_assert_alienation_def gpool_ok_def thenA_def bindA_def cilk_mutex_lock_def)

lemma unlock_global_run:
  assumes "shared (gfiber_pool s)" "pool_owner (gfiber_pool s) = w"
  shows "fiber_pool_unlock w Global_pool s = Inr ((), put_pool Global_pool (\<lambda>p. p\<lparr>pool_owner := NO_WORKER, pool_lock := False\<rparr>) s)"
  using assms by (simp add: fiber_pool_unlock_def fiber_pool_assert_ownership_def thenA_def bindA_def cilk_mutex_unlock_def)

text \<open>The exchange with the global pool: \<open>xs\<close> are the fibers of the global pool afterwards, \<open>zs\<close> those of
  the worker; the allocator is not touched.\<close>

definition exchanged :: "worker_id \<Rightarrow> addr list \<Rightarrow> addr list \<Rightarrow> 'a fiber_state_scheme \<Rightarrow> 'a fiber_state_scheme \<Rightarrow> bool" where
  "exchanged w xs zs s s' \<longleftrightarrow> (\<forall>n live F. core n live F s' = core n live F s) \<and> im_pool s' = im_pool s
     \<and> gpool_ok (gfiber_pool s') \<and> pfibers (gfiber_pool s') = xs \<and> pool_stack_size (gfiber_pool s') = pool_stack_size (gfiber_pool s)
     \<and> get_pool (Worker_pool w) s' = (get_pool (Worker_pool w) s)\<lparr>pfibers := zs\<rparr>
     \<and> (\<forall>v. v \<noteq> w \<longrightarrow> wfiber_pool s' v = wfiber_pool s v)
     \<and> opt_fiber_pool_cap s' = opt_fiber_pool_cap s \<and> opt_stacksize s' = opt_stacksize s"

lemma wfiber_put: "wfiber_pool (put_pool r f s) v = (if r = Worker_pool v then f (wfiber_pool s v) else wfiber_pool s v)"
  "gfiber_pool (put_pool r f s) = (if r = Global_pool then f (gfiber_pool s) else gfiber_pool s)"
  by (auto simp: put_pool_def split: pool_ref.splits)

lemma pooled_put_same:
  assumes "pfibers (f (get_pool r s)) = pfibers (get_pool r s)"
  shows "pooled n (put_pool r f s) = pooled n s"
proof -
  have "pfibers (wfiber_pool (put_pool r f s) v) = pfibers (wfiber_pool s v)"
    "pfibers (gfiber_pool (put_pool r f s)) = pfibers (gfiber_pool s)" for v
    using assms by (auto simp: wfiber_put)
  then show ?thesis by (simp add: pooled_def)
qed

lemma from_parent_run:
  assumes "gpool_ok (gfiber_pool s)" "w < n" "n \<le> NO_WORKER"
    "length (pfibers (wfiber_pool s w)) + b \<le> pool_capacity (wfiber_pool s w)"
  shows "\<exists>xs ys s'. pfibers (gfiber_pool s) = xs @ ys \<and> length ys \<le> b
    \<and> thenA (fiber_pool_lock w Global_pool)
       (bindA (gets (\<lambda>s. min (length (pfibers (get_pool Global_pool s))) b)) (\<lambda>from_parent.
        thenA (repeatA from_parent (bindA (pool_pop Global_pool) (pool_push (Worker_pool w))))
       (thenA (modify (put_pool Global_pool (\<lambda>p. p\<lparr>pool_stats :=
                 max_in_use_upd ((pool_stats p)\<lparr>in_use := in_use (pool_stats p) + int from_parent\<rparr>)\<rparr>)))
       (thenA (fiber_pool_unlock w Global_pool)
              (ret from_parent))))) s = Inr (length ys, s')
    \<and> exchanged w xs (pfibers (wfiber_pool s w) @ rev ys) s s'"
proof -
  let ?k = "min (length (pfibers (gfiber_pool s))) b"
  let ?s1 = "put_pool Global_pool (\<lambda>p. p\<lparr>pool_lock := True, pool_owner := w\<rparr>) s"
  have "length (pfibers (wfiber_pool s w)) + ?k \<le> pool_capacity (wfiber_pool s w)" using assms(4) by simp
  then have "\<exists>xs ys. pfibers (gfiber_pool s) = xs @ ys \<and> length ys = ?k \<and>
      repeatA ?k (bindA (pool_pop Global_pool) (pool_push (Worker_pool w))) ?s1 =
       Inr ((), put_fibers (Worker_pool w) (pfibers (wfiber_pool s w) @ rev ys) (put_fibers Global_pool xs ?s1))"
    using move_loop[of Global_pool "Worker_pool w" ?k ?s1] by (simp add: wfiber_put)
  then obtain xs ys where m: "pfibers (gfiber_pool s) = xs @ ys" "length ys = ?k"
      "repeatA ?k (bindA (pool_pop Global_pool) (pool_push (Worker_pool w))) ?s1 =
       Inr ((), put_fibers (Worker_pool w) (pfibers (wfiber_pool s w) @ rev ys) (put_fibers Global_pool xs ?s1))"
    by blast
  let ?s2 = "put_fibers (Worker_pool w) (pfibers (wfiber_pool s w) @ rev ys) (put_fibers Global_pool xs ?s1)"
  let ?s3 = "put_pool Global_pool (\<lambda>p. p\<lparr>pool_stats := max_in_use_upd ((pool_stats p)\<lparr>in_use := in_use (pool_stats p) + int ?k\<rparr>)\<rparr>) ?s2"
  let ?s4 = "put_pool Global_pool (\<lambda>p. p\<lparr>pool_owner := NO_WORKER, pool_lock := False\<rparr>) ?s3"
  have sh: "shared (gfiber_pool s)" using assms(1) by (simp add: gpool_ok_def)
  have u: "fiber_pool_unlock w Global_pool ?s3 = Inr ((), ?s4)"
    by (rule unlock_global_run) (simp_all add: wfiber_put sh)
  have "exchanged w xs (pfibers (wfiber_pool s w) @ rev ys) s ?s4"
    using assms(1) m(1) by (simp add: exchanged_def wfiber_put gpool_ok_def get_put_if)
  moreover have "length ys \<le> b" by (simp add: m(2))
  moreover have "thenA (fiber_pool_lock w Global_pool)
       (bindA (gets (\<lambda>s. min (length (pfibers (get_pool Global_pool s))) b)) (\<lambda>from_parent.
        thenA (repeatA from_parent (bindA (pool_pop Global_pool) (pool_push (Worker_pool w))))
       (thenA (modify (put_pool Global_pool (\<lambda>p. p\<lparr>pool_stats :=
                 max_in_use_upd ((pool_stats p)\<lparr>in_use := in_use (pool_stats p) + int from_parent\<rparr>)\<rparr>)))
       (thenA (fiber_pool_unlock w Global_pool)
              (ret from_parent))))) s = Inr (?k, ?s4)"
    (is "thenA _ (bindA _ (\<lambda>from_parent. thenA (?move from_parent) (thenA (?stats from_parent) _))) s = _")
  proof -
    have k: "min (length (pfibers (get_pool Global_pool ?s1))) b = ?k" by (simp add: wfiber_put)
    show ?thesis
      unfolding run_thenA_Inr[where m = "fiber_pool_lock w Global_pool" and s = s, OF lock_global_run[OF assms(1-3)]] run_bind_basic(2) k
        run_thenA_Inr[where m = "?move ?k" and s = ?s1, OF m(3)] run_bind_basic(5)
        run_thenA_Inr[where m = "fiber_pool_unlock w Global_pool" and s = ?s3, OF u] by (rule run_basic(1))
  qed
  ultimately show ?thesis
    unfolding m(2)[symmetric] using m(1) by blast
qed

lemma own_pool_run:
  assumes "\<not> shared (wfiber_pool s w)"
  shows "fiber_pool_assert_ownership w (Worker_pool w) s = Inr ((), s)"
  using assms by (simp add: fiber_pool_assert_ownership_def)

text \<open>The worker's pool after an operation, the others being unchanged.\<close>

lemma pools_invI:
  assumes "pools_inv n live out s" "w < n" "\<And>v. v \<noteq> w \<Longrightarrow> wfiber_pool s' v = wfiber_pool s v" "gpool_ok (gfiber_pool s')"
    "wpool_ok (wfiber_pool s' w)" "core n live (elsewhere n w s + mset (pfibers (gfiber_pool s')) + mset (pfibers (wfiber_pool s' w)) + out') s'"
  shows "pools_inv n live out' s'"
  using assms elsewhere_cong[of w s' s n] by (auto simp: pools_inv_def pooled_eq[OF assms(2)]) (metis wpool_ok_def)

lemma allocate_batch_run:
  assumes inv: "pools_inv n live out s" and w: "w < n" and room: "room (128 * b + j) s"
    and cap: "length (pfibers (wfiber_pool s w)) + b \<le> pool_capacity (wfiber_pool s w)"
  shows "(\<exists>s'. fiber_pool_allocate_batch w (Worker_pool w) b s = Inr ((), s') \<and> pools_inv n live out s'
      \<and> length (pfibers (wfiber_pool s' w)) = length (pfibers (wfiber_pool s w)) + b
      \<and> pool_capacity (wfiber_pool s' w) = pool_capacity (wfiber_pool s w) \<and> room j s'
      \<and> opt_fiber_pool_cap s' = opt_fiber_pool_cap s \<and> opt_stacksize s' = opt_stacksize s
      \<and> pool_stack_size (gfiber_pool s') = pool_stack_size (gfiber_pool s))
    \<or> (\<exists>e \<in> no_memory. fiber_pool_allocate_batch w (Worker_pool w) b s = Inl e)"
    (is "?ok \<or> ?oom")
proof -
  note i = pools_invD[OF inv w]
  let ?W = "pfibers (wfiber_pool s w)"
  obtain xs ys s1 where p: "pfibers (gfiber_pool s) = xs @ ys" "length ys \<le> b" "exchanged w xs (?W @ rev ys) s s1"
      "thenA (fiber_pool_lock w Global_pool)
       (bindA (gets (\<lambda>s. min (length (pfibers (get_pool Global_pool s))) b)) (\<lambda>from_parent.
        thenA (repeatA from_parent (bindA (pool_pop Global_pool) (pool_push (Worker_pool w))))
       (thenA (modify (put_pool Global_pool (\<lambda>p. p\<lparr>pool_stats :=
                 max_in_use_upd ((pool_stats p)\<lparr>in_use := in_use (pool_stats p) + int from_parent\<rparr>)\<rparr>)))
       (thenA (fiber_pool_unlock w Global_pool)
              (ret from_parent))))) s = Inr (length ys, s1)"
    using from_parent_run[OF i(5) w i(6) cap] by blast
  let ?k = "b - length ys"
  let ?new = "repeatA ?k (bindA (gets (\<lambda>s. pool_stack_size (get_pool (Worker_pool w) s))) (\<lambda>ss.
     bindA (cilk_fiber_allocate w ss) (pool_push (Worker_pool w))))"
  have run: "fiber_pool_allocate_batch w (Worker_pool w) b s = thenA ?new (modify (put_pool (Worker_pool w) max_free_upd)) s1"
  proof -
    have "fiber_pool_increase_capacity w (Worker_pool w) (b + length ?W) s = Inr ((), s)"
      using cap i(1) by (simp add: fiber_pool_increase_capacity_def own_pool_run thenA_def bindA_def)
    then show ?thesis
      using i(1,2) p(4) by (simp add: fiber_pool_allocate_batch_def own_pool_run thenA_def bindA_def)
  qed
  have w1: "wfiber_pool s1 w = (wfiber_pool s w)\<lparr>pfibers := ?W @ rev ys\<rparr>" "\<And>v. v \<noteq> w \<Longrightarrow> wfiber_pool s1 v = wfiber_pool s v"
      "pfibers (gfiber_pool s1) = xs" "gpool_ok (gfiber_pool s1)" "im_pool s1 = im_pool s"
      "opt_fiber_pool_cap s1 = opt_fiber_pool_cap s" "opt_stacksize s1 = opt_stacksize s"
      "pool_stack_size (gfiber_pool s1) = pool_stack_size (gfiber_pool s)"
    using p(3) by (simp_all add: exchanged_def)
  let ?F = "elsewhere n w s + mset xs + mset (?W @ rev ys) + out"
  have c1: "core n live ?F s1"
    using i(7) p(1,3) by (simp add: exchanged_def pooled_eq[OF w] ac_simps)
  have r1: "room (128 * ?k + j) s1" using room w1(5) by (simp add: room_def)
  have cap1: "length (pfibers (get_pool (Worker_pool w) s1)) + ?k \<le> pool_capacity (get_pool (Worker_pool w) s1)"
    using cap p(2) by (simp add: w1(1))
  from allocate_loop[OF c1 w r1 cap1] show ?thesis
  proof (elim disjE exE conjE bexE)
    fix e assume "e \<in> no_memory" "?new s1 = Inl e"
    then have ?oom unfolding run by (intro bexI[of _ e]) (simp_all add: thenA_def bindA_def)
    then show ?thesis ..
  next
    fix fs s2 assume n2: "?new s1 = Inr ((), s2)" "length fs = ?k" "core n live (?F + mset fs) s2"
      "same_pools (put_fibers (Worker_pool w) (pfibers (get_pool (Worker_pool w) s1) @ fs) s1) s2" "room j s2"
    let ?s = "put_pool (Worker_pool w) max_free_upd s2"
    have W2: "wfiber_pool s2 v = (if v = w then (wfiber_pool s w)\<lparr>pfibers := ?W @ rev ys @ fs\<rparr> else wfiber_pool s v)" for v
      using same_poolsD[OF n2(4), of "Worker_pool v"] by (auto simp: get_put_if w1)
    have G2: "gfiber_pool s2 = gfiber_pool s1" using same_poolsD[OF n2(4), of Global_pool] by (simp add: wfiber_put)
    have mf: "pfibers (max_free_upd p) = pfibers p" "pool_capacity (max_free_upd p) = pool_capacity p"
        "shared (max_free_upd p) = shared p" "pool_parent (max_free_upd p) = pool_parent p" for p
      by (simp_all add: max_free_upd_def)
    have "pools_inv n live out ?s"
    proof (rule pools_invI[OF inv w])
      show "wpool_ok (wfiber_pool ?s w)" using i cap p(2) n2(2) by (simp add: wpool_ok_def wfiber_put mf W2)
      show "core n live (elsewhere n w s + mset (pfibers (gfiber_pool ?s)) + mset (pfibers (wfiber_pool ?s w)) + out) ?s"
        using n2(3) by (simp add: wfiber_put mf W2 G2 w1 ac_simps)
    qed (simp_all add: wfiber_put W2 G2 w1)
    moreover have "thenA ?new (modify (put_pool (Worker_pool w) max_free_upd)) s1 = Inr ((), ?s)"
      by (simp only: run_thenA_Inr[where m = ?new and s = s1, OF n2(1)] run_basic)
    ultimately have ?ok unfolding run using n2(2,4,5) p(2)
      by (intro exI[of _ ?s]) (simp add: wfiber_put mf W2 same_pools_def w1 G2)
    then show ?thesis ..
  qed
qed

lemma to_parent_run:
  assumes "gpool_ok (gfiber_pool s)" "w < n" "n \<le> NO_WORKER" "b \<le> length (pfibers (wfiber_pool s w))"
  shows "\<exists>xs ys s'. pfibers (wfiber_pool s w) = xs @ ys \<and> length ys \<le> b
    \<and> thenA (fiber_pool_lock w Global_pool)
       (bindA (gets (\<lambda>s. min b (pool_capacity (get_pool Global_pool s) - length (pfibers (get_pool Global_pool s))))) (\<lambda>to_parent.
        thenA (repeatA to_parent (bindA (pool_pop (Worker_pool w)) (pool_push Global_pool)))
       (thenA (check (\<lambda>s. length (pfibers (get_pool Global_pool s)) \<le> pool_capacity (get_pool Global_pool s)) (Assertion Fiber_pool_c 235))
       (thenA (modify (put_pool Global_pool (\<lambda>p. max_free_upd (p\<lparr>pool_stats :=
                 (pool_stats p)\<lparr>in_use := in_use (pool_stats p) - int to_parent\<rparr>\<rparr>))))
       (thenA (fiber_pool_unlock w Global_pool)
              (ret to_parent)))))) s = Inr (length ys, s')
    \<and> exchanged w (pfibers (gfiber_pool s) @ rev ys) xs s s'"
proof -
  let ?G = "pfibers (gfiber_pool s)" and ?k = "min b (pool_capacity (gfiber_pool s) - length (pfibers (gfiber_pool s)))"
  let ?s1 = "put_pool Global_pool (\<lambda>p. p\<lparr>pool_lock := True, pool_owner := w\<rparr>) s"
  have le: "length ?G \<le> pool_capacity (gfiber_pool s)" using assms(1) by (simp add: gpool_ok_def)
  have "?k \<le> length (pfibers (wfiber_pool s w))" "length ?G + ?k \<le> pool_capacity (gfiber_pool s)" using assms(4) le by simp_all
  then have "\<exists>xs ys. pfibers (wfiber_pool s w) = xs @ ys \<and> length ys = ?k \<and>
      repeatA ?k (bindA (pool_pop (Worker_pool w)) (pool_push Global_pool)) ?s1 =
       Inr ((), put_fibers Global_pool (?G @ rev ys) (put_fibers (Worker_pool w) xs ?s1))"
    using move_loop[of "Worker_pool w" Global_pool ?k ?s1] by (simp add: wfiber_put)
  then obtain xs ys where m: "pfibers (wfiber_pool s w) = xs @ ys" "length ys = ?k"
      "repeatA ?k (bindA (pool_pop (Worker_pool w)) (pool_push Global_pool)) ?s1 =
       Inr ((), put_fibers Global_pool (?G @ rev ys) (put_fibers (Worker_pool w) xs ?s1))"
    by blast
  let ?s2 = "put_fibers Global_pool (?G @ rev ys) (put_fibers (Worker_pool w) xs ?s1)"
  let ?s3 = "put_pool Global_pool (\<lambda>p. max_free_upd (p\<lparr>pool_stats := (pool_stats p)\<lparr>in_use := in_use (pool_stats p) - int ?k\<rparr>\<rparr>)) ?s2"
  let ?s4 = "put_pool Global_pool (\<lambda>p. p\<lparr>pool_owner := NO_WORKER, pool_lock := False\<rparr>) ?s3"
  have sh: "shared (gfiber_pool s)" using assms(1) by (simp add: gpool_ok_def)
  have mf: "pfibers (max_free_upd p) = pfibers p" "pool_capacity (max_free_upd p) = pool_capacity p"
      "shared (max_free_upd p) = shared p" "pool_owner (max_free_upd p) = pool_owner p" for p
    by (simp_all add: max_free_upd_def)
  have ms: "pool_stack_size (max_free_upd p) = pool_stack_size p" for p by (simp add: max_free_upd_def)
  have u: "fiber_pool_unlock w Global_pool ?s3 = Inr ((), ?s4)"
    by (rule unlock_global_run) (simp_all add: wfiber_put mf sh)
  have within: "length (?G @ rev ys) \<le> pool_capacity (gfiber_pool s)" using m(2) le by simp
  then have "exchanged w (?G @ rev ys) xs s ?s4"
    using assms(1) by (simp add: exchanged_def wfiber_put gpool_ok_def get_put_if mf ms)
  moreover have "length ys \<le> b" by (simp add: m(2))
  moreover have "thenA (fiber_pool_lock w Global_pool)
       (bindA (gets (\<lambda>s. min b (pool_capacity (get_pool Global_pool s) - length (pfibers (get_pool Global_pool s))))) (\<lambda>to_parent.
        thenA (repeatA to_parent (bindA (pool_pop (Worker_pool w)) (pool_push Global_pool)))
       (thenA (check (\<lambda>s. length (pfibers (get_pool Global_pool s)) \<le> pool_capacity (get_pool Global_pool s)) (Assertion Fiber_pool_c 235))
       (thenA (modify (put_pool Global_pool (\<lambda>p. max_free_upd (p\<lparr>pool_stats :=
                 (pool_stats p)\<lparr>in_use := in_use (pool_stats p) - int to_parent\<rparr>\<rparr>))))
       (thenA (fiber_pool_unlock w Global_pool)
              (ret to_parent)))))) s = Inr (?k, ?s4)"
    (is "thenA _ (bindA _ (\<lambda>to_parent. thenA (?move to_parent) (thenA (check ?c ?e) (thenA (?stats to_parent) _)))) s = _")
  proof -
    have k: "min b (pool_capacity (get_pool Global_pool ?s1) - length (pfibers (get_pool Global_pool ?s1))) = ?k" by (simp add: wfiber_put)
    have c: "?c ?s2 = True" using within by (simp add: wfiber_put)
    show ?thesis
      unfolding run_thenA_Inr[where m = "fiber_pool_lock w Global_pool" and s = s, OF lock_global_run[OF assms(1-3)]] run_bind_basic(2) k
        run_thenA_Inr[where m = "?move ?k" and s = ?s1, OF m(3)] run_bind_basic(7) c if_True run_bind_basic(5)
        run_thenA_Inr[where m = "fiber_pool_unlock w Global_pool" and s = ?s3, OF u] by (rule run_basic(1))
  qed
  ultimately show ?thesis
    unfolding m(2)[symmetric] using m(1) by blast
qed

lemma free_batch_run:
  assumes inv: "pools_inv n live out s" and h: "honest s" and w: "w < n" and b: "b \<le> length (pfibers (wfiber_pool s w))"
  shows "\<exists>s'. fiber_pool_free_batch w (Worker_pool w) b s = Inr ((), s') \<and> pools_inv n live out s' \<and> im_pool s' = im_pool s
      \<and> length (pfibers (wfiber_pool s' w)) = length (pfibers (wfiber_pool s w)) - b
      \<and> pool_capacity (wfiber_pool s' w) = pool_capacity (wfiber_pool s w)"
proof -
  note i = pools_invD[OF inv w]
  let ?W = "pfibers (wfiber_pool s w)" and ?G = "pfibers (gfiber_pool s)"
  obtain xs ys s1 where p: "?W = xs @ ys" "length ys \<le> b" "exchanged w (?G @ rev ys) xs s s1"
      "thenA (fiber_pool_lock w Global_pool)
       (bindA (gets (\<lambda>s. min b (pool_capacity (get_pool Global_pool s) - length (pfibers (get_pool Global_pool s))))) (\<lambda>to_parent.
        thenA (repeatA to_parent (bindA (pool_pop (Worker_pool w)) (pool_push Global_pool)))
       (thenA (check (\<lambda>s. length (pfibers (get_pool Global_pool s)) \<le> pool_capacity (get_pool Global_pool s)) (Assertion Fiber_pool_c 235))
       (thenA (modify (put_pool Global_pool (\<lambda>p. max_free_upd (p\<lparr>pool_stats :=
                 (pool_stats p)\<lparr>in_use := in_use (pool_stats p) - int to_parent\<rparr>\<rparr>))))
       (thenA (fiber_pool_unlock w Global_pool)
              (ret to_parent)))))) s = Inr (length ys, s1)"
    using to_parent_run[OF i(5) w i(6) b] by blast
  let ?k = "b - length ys"
  let ?old = "repeatA ?k (bindA (pool_pop (Worker_pool w)) (cilk_fiber_deallocate w))"
  have run: "fiber_pool_free_batch w (Worker_pool w) b s = ?old s1"
    using i(1,2) b p(4) by (simp add: fiber_pool_free_batch_def own_pool_run thenA_def bindA_def)
  have w1: "wfiber_pool s1 w = (wfiber_pool s w)\<lparr>pfibers := xs\<rparr>" "\<And>v. v \<noteq> w \<Longrightarrow> wfiber_pool s1 v = wfiber_pool s v"
      "pfibers (gfiber_pool s1) = ?G @ rev ys" "gpool_ok (gfiber_pool s1)" "im_pool s1 = im_pool s"
    using p(3) by (simp_all add: exchanged_def)
  let ?F = "elsewhere n w s + mset (?G @ rev ys) + out"
  have c1: "core n live (?F + mset (pfibers (get_pool (Worker_pool w) s1))) s1"
    using i(7) p(1,3) w1(1) by (simp add: exchanged_def pooled_eq[OF w] ac_simps)
  have k1: "?k \<le> length (pfibers (get_pool (Worker_pool w) s1))" using b p(1,2) by (simp add: w1(1))
  obtain us vs s2 where d: "pfibers (get_pool (Worker_pool w) s1) = us @ vs" "length vs = ?k" "?old s1 = Inr ((), s2)"
      "core n live (?F + mset us) s2" "same_pools (put_fibers (Worker_pool w) us s1) s2" "im_pool s2 = im_pool s1"
    using deallocate_loop[OF c1 _ w k1] h honest_pool[OF w1(5)] by blast
  have W2: "wfiber_pool s2 v = (if v = w then (wfiber_pool s w)\<lparr>pfibers := us\<rparr> else wfiber_pool s v)" for v
    using same_poolsD[OF d(5), of "Worker_pool v"] by (auto simp: get_put_if w1)
  have G2: "gfiber_pool s2 = gfiber_pool s1" using same_poolsD[OF d(5), of Global_pool] by (simp add: wfiber_put)
  have len: "length us = length ?W - b" using d(1,2) p(1,2) b by (simp add: w1(1))
  have "pools_inv n live out s2"
  proof (rule pools_invI[OF inv w])
    show "wpool_ok (wfiber_pool s2 w)" using i len by (simp add: wpool_ok_def W2)
    show "core n live (elsewhere n w s + mset (pfibers (gfiber_pool s2)) + mset (pfibers (wfiber_pool s2 w)) + out) s2"
      using d(4) by (simp add: W2 G2 w1 ac_simps)
  qed (simp_all add: W2 G2 w1)
  then show ?thesis unfolding run using d(3,6) len w1(5) by (simp add: W2)
qed

subsection \<open>Taking and giving back a fiber\<close>

lemma core_nonzero:
  assumes "core n live F s" "f \<in># F"
  shows "f \<noteq> 0"
proof -
  obtain G where F: "F = add_mset f G" using assms(2) by (metis insert_DiffM)
  have "im_good n s (add_mset (f, SIZEOF_FIBER, IM_FIBER) (live + fiber_led G))" using assms(1) by (simp add: core_def F)
  then show ?thesis using live_nonzero assms(1) by (auto simp: core_def)
qed

lemma pop_own_run:
  assumes inv: "pools_inv n live out s" and w: "w < n" and ne: "pfibers (wfiber_pool s w) \<noteq> []"
    and fields: "\<And>p. pfibers (g p) = pfibers p \<and> pool_capacity (g p) = pool_capacity p \<and> shared (g p) = shared p \<and> pool_parent (g p) = pool_parent p"
  shows "\<exists>f s'. bindA (pool_pop (Worker_pool w)) (\<lambda>f. thenA (modify (put_pool (Worker_pool w) g)) (ret f)) s = Inr (f, s')
    \<and> pools_inv n live (add_mset f out) s' \<and> im_pool s' = im_pool s \<and> f \<noteq> 0"
proof -
  note i = pools_invD[OF inv w]
  obtain fs f where fs: "pfibers (wfiber_pool s w) = fs @ [f]" using ne by (metis rev_exhaust)
  let ?s = "put_pool (Worker_pool w) (\<lambda>p. g (p\<lparr>pfibers := fs\<rparr>)) s"
  have "pools_inv n live (add_mset f out) ?s"
  proof (rule pools_invI[OF inv w])
    show "wpool_ok (wfiber_pool ?s w)" using i fs fields by (simp add: wpool_ok_def wfiber_put)
    show "core n live (elsewhere n w s + mset (pfibers (gfiber_pool ?s)) + mset (pfibers (wfiber_pool ?s w)) + add_mset f out) ?s"
      using i(7) by (simp add: wfiber_put fields pooled_eq[OF w] fs)
  qed (use i in \<open>simp_all add: wfiber_put\<close>)
  moreover have "f \<noteq> 0" using core_nonzero[OF i(7), of f] by (simp add: pooled_eq[OF w] fs)
  ultimately show ?thesis
    using fs by (intro exI[of _ f] exI[of _ ?s]) (simp add: bindA_def pool_pop_run)
qed

definition batch_room :: "worker_id \<Rightarrow> 'a fiber_state_scheme \<Rightarrow> bool" where
  "batch_room w s \<longleftrightarrow> room (128 * (pool_capacity (wfiber_pool s w) div BATCH_FRACTION)) s"

lemma take_run:
  assumes inv: "pools_inv n live out s" and w: "w < n" and room: "batch_room w s"
  shows "(\<exists>f s'. cilk_fiber_allocate_from_pool w s = Inr (f, s') \<and> pools_inv n live (add_mset f out) s')
    \<or> (pfibers (wfiber_pool s w) = [] \<and> (\<exists>e \<in> no_memory. cilk_fiber_allocate_from_pool w s = Inl e))"
proof -
  note i = pools_invD[OF inv w]
  let ?g = "\<lambda>p. p\<lparr>pool_stats := max_in_use_upd ((pool_stats p)\<lparr>in_use := in_use (pool_stats p) + 1\<rparr>)\<rparr>"
  have pop: "\<exists>f s'. bindA (pool_pop (Worker_pool w)) (\<lambda>f. thenA (modify (put_pool (Worker_pool w) ?g)) (thenA (check (\<lambda>_. f \<noteq> 0) (Assertion Fiber_pool_c 336)) (ret f))) s1 = Inr (f, s')
      \<and> pools_inv n live (add_mset f out) s'" if a: "pools_inv n live out s1" and ne: "pfibers (wfiber_pool s1 w) \<noteq> []" for s1
  proof -
    obtain f s' where f: "bindA (pool_pop (Worker_pool w)) (\<lambda>f. thenA (modify (put_pool (Worker_pool w) ?g)) (ret f)) s1 = Inr (f, s')"
        "pools_inv n live (add_mset f out) s'" "f \<noteq> 0"
      using pop_own_run[OF a w ne, of ?g] by auto
    have "bindA (pool_pop (Worker_pool w)) (\<lambda>f. thenA (modify (put_pool (Worker_pool w) ?g)) (thenA (check (\<lambda>_. f \<noteq> 0) (Assertion Fiber_pool_c 336)) (ret f))) s1 = Inr (f, s')"
      using f(1,3) by (auto simp: bindA_def thenA_def split: sum.splits prod.splits)
    then show ?thesis using f(2) by blast
  qed
  show ?thesis
  proof (cases "pfibers (wfiber_pool s w) = []")
    case False
    then show ?thesis using pop[OF inv] by (simp add: cilk_fiber_allocate_from_pool_def)
  next
    case True
    let ?b = "pool_capacity (wfiber_pool s w) div BATCH_FRACTION"
    have "room (128 * ?b + 0) s" "length (pfibers (wfiber_pool s w)) + ?b \<le> pool_capacity (wfiber_pool s w)"
      using room True by (simp_all add: batch_room_def BATCH_FRACTION_def)
    from allocate_batch_run[OF inv w this] show ?thesis
    proof (elim disjE exE conjE bexE)
      fix e assume "e \<in> no_memory" "fiber_pool_allocate_batch w (Worker_pool w) ?b s = Inl e"
      then show ?thesis using True by (auto simp: cilk_fiber_allocate_from_pool_def thenA_def bindA_def)
    next
      fix s1 assume s1: "fiber_pool_allocate_batch w (Worker_pool w) ?b s = Inr ((), s1)" "pools_inv n live out s1"
        "length (pfibers (wfiber_pool s1 w)) = length (pfibers (wfiber_pool s w)) + ?b"
      have "1 \<le> ?b" using i(4) by (simp add: BATCH_FRACTION_def)
      then have "pfibers (wfiber_pool s1 w) \<noteq> []" using s1(3) by auto
      then show ?thesis using pop[OF s1(2)] True
        by (simp add: cilk_fiber_allocate_from_pool_def run_thenA_Inr[where m = "fiber_pool_allocate_batch w (Worker_pool w) ?b" and s = s, OF s1(1)])
    qed
  qed
qed

lemma push_own_run:
  assumes inv: "pools_inv n live (add_mset f out) s" and w: "w < n"
    and len: "length (pfibers (wfiber_pool s w)) < pool_capacity (wfiber_pool s w)"
    and fields: "\<And>p. pfibers (g p) = pfibers p \<and> pool_capacity (g p) = pool_capacity p \<and> shared (g p) = shared p \<and> pool_parent (g p) = pool_parent p"
  shows "\<exists>s'. thenA (pool_push (Worker_pool w) f) (modify (put_pool (Worker_pool w) g)) s = Inr ((), s')
    \<and> pools_inv n live out s' \<and> im_pool s' = im_pool s"
proof -
  note i = pools_invD[OF inv w]
  let ?s = "put_pool (Worker_pool w) (\<lambda>p. g (p\<lparr>pfibers := pfibers (wfiber_pool s w) @ [f]\<rparr>)) s"
  have "pools_inv n live out ?s"
  proof (rule pools_invI[OF inv w])
    show "wpool_ok (wfiber_pool ?s w)" using i len fields by (simp add: wpool_ok_def wfiber_put)
    show "core n live (elsewhere n w s + mset (pfibers (gfiber_pool ?s)) + mset (pfibers (wfiber_pool ?s w)) + out) ?s"
      using i(7) by (simp add: wfiber_put fields pooled_eq[OF w])
  qed (use i in \<open>simp_all add: wfiber_put\<close>)
  then show ?thesis using len by (intro exI[of _ ?s]) (simp add: thenA_def bindA_def pool_push_run)
qed

lemma give_run:
  assumes inv: "pools_inv n live (add_mset f out) s" and h: "honest s" and w: "w < n"
  shows "\<exists>s'. cilk_fiber_deallocate_to_pool w (Some f) s = Inr ((), s') \<and> pools_inv n live out s' \<and> im_pool s' = im_pool s"
proof -
  note i = pools_invD[OF inv w]
  let ?g = "\<lambda>p. max_free_upd (p\<lparr>pool_stats := (pool_stats p)\<lparr>in_use := in_use (pool_stats p) - 1\<rparr>\<rparr>)"
  have mf: "pfibers (max_free_upd p) = pfibers p \<and> pool_capacity (max_free_upd p) = pool_capacity p
      \<and> shared (max_free_upd p) = shared p \<and> pool_parent (max_free_upd p) = pool_parent p" for p
    by (simp add: max_free_upd_def)
  have push: "\<exists>s'. thenA (pool_push (Worker_pool w) f) (modify (put_pool (Worker_pool w) ?g)) s1 = Inr ((), s')
      \<and> pools_inv n live out s' \<and> im_pool s' = im_pool s1"
    if "pools_inv n live (add_mset f out) s1" "length (pfibers (wfiber_pool s1 w)) < pool_capacity (wfiber_pool s1 w)" for s1
    using push_own_run[OF that(1) w that(2), of ?g] by (simp add: mf)
  show ?thesis
  proof (cases "length (pfibers (wfiber_pool s w)) = pool_capacity (wfiber_pool s w)")
    case False
    then show ?thesis using push[OF inv] i(3) by (simp add: cilk_fiber_deallocate_to_pool_def)
  next
    case True
    let ?b = "pool_capacity (wfiber_pool s w) div BATCH_FRACTION"
    have "?b \<le> length (pfibers (wfiber_pool s w))" using True by (simp add: BATCH_FRACTION_def)
    from free_batch_run[OF inv h w this] obtain s1 where
      s1: "fiber_pool_free_batch w (Worker_pool w) ?b s = Inr ((), s1)" "pools_inv n live (add_mset f out) s1" "im_pool s1 = im_pool s"
        "length (pfibers (wfiber_pool s1 w)) = length (pfibers (wfiber_pool s w)) - ?b"
        "pool_capacity (wfiber_pool s1 w) = pool_capacity (wfiber_pool s w)" by blast
    have "1 \<le> ?b" using i(4) by (simp add: BATCH_FRACTION_def)
    then have lt: "length (pfibers (wfiber_pool s1 w)) < pool_capacity (wfiber_pool s1 w)"
      and c: "pool_capacity (wfiber_pool s1 w) div BATCH_FRACTION \<le> pool_capacity (wfiber_pool s1 w) - length (pfibers (wfiber_pool s1 w))"
      using s1(4,5) True i(4) by (auto simp: BATCH_FRACTION_def)
    show ?thesis using push[OF s1(2) lt] s1(3) True c
      by (simp add: cilk_fiber_deallocate_to_pool_def thenA_assoc run_thenA_Inr[where m = "fiber_pool_free_batch w (Worker_pool w) ?b" and s = s, OF s1(1)])
  qed
qed

section \<open>Start-up\<close>

text \<open>As \<open>global_state_init\<close> and \<open>workers_init\<close> do it.\<close>

definition worker_start :: "worker_id \<Rightarrow> ('a fiber_state_scheme, unit) act" where
  "worker_start w = thenA (cilk_internal_malloc_per_worker_init w) (cilk_fiber_pool_per_worker_init w)"

definition pools_start :: "nat \<Rightarrow> ('a fiber_state_scheme, unit) act" where
  "pools_start n = thenA cilk_internal_malloc_global_init
    (thenA cilk_fiber_pool_global_init
           (forA [0 ..< n] worker_start))"

lemma im_good_Suc:
  assumes "im_good n s L"
  shows "im_good (Suc n) (upd_wdesc n init_im_buckets s) L"
proof -
  let ?s = "upd_wdesc n init_im_buckets s"
  have sums: "(\<Sum>w < n. f (wim ?s w)) = (\<Sum>w < n. f (wim s w))" for f :: "cilk_im_desc \<Rightarrow> int"
    by (intro sum.cong) auto
  have "im_inv (Suc n) ?s" using assms by (auto simp: im_good_def im_inv_def less_Suc_eq init_desc_facts)
  moreover have "within_limits (wim ?s w)" if "w < Suc n" for w
    using that assms by (auto simp: im_good_def less_Suc_eq init_desc_facts)
  moreover have "client_weight phi (Suc n) ?s = client_weight phi n s" for phi
    using sums[of "desc_weight phi"] by (simp add: client_weight_def init_desc_facts)
  then have "books (Suc n) ?s L"
    using assms sums[of used] sums[of wasted_bytes] sums[of "\<lambda>d. num_malloc d t" for t]
    by (simp add: im_good_def books_def used_gap_def init_desc_facts)
  ultimately show ?thesis by (simp add: im_good_def)
qed

text \<open>The pools of the first \<open>k\<close> workers are ready, with the stack size of the global pool.\<close>

definition started :: "nat \<Rightarrow> 'a fiber_state_scheme \<Rightarrow> bool" where
  "started k s \<longleftrightarrow> pools_inv k {#} {#} s \<and> pool_stack_size (gfiber_pool s) = opt_stacksize s \<and> 2 \<le> opt_fiber_pool_cap s"

lemma worker_start_run:
  assumes st: "started k s" and k: "Suc k \<le> NO_WORKER" and room: "room (128 * (opt_fiber_pool_cap s div 2) + j) s"
  shows "(\<exists>s'. worker_start k s = Inr ((), s') \<and> started (Suc k) s' \<and> room j s' \<and> opt_fiber_pool_cap s' = opt_fiber_pool_cap s)
    \<or> (\<exists>e \<in> no_memory. worker_start k s = Inl e)"
proof -
  let ?cap = "opt_fiber_pool_cap s"
  let ?s1 = "upd_wdesc k init_im_buckets s"
  let ?s2 = "put_pool (Worker_pool k) (fiber_pool_init (opt_stacksize s) ?cap (Some Global_pool) False) ?s1"
  have i: "pools_inv k {#} {#} s" "pool_stack_size (gfiber_pool s) = opt_stacksize s" "2 \<le> ?cap"
    using st by (simp_all add: started_def)
  have core: "core k {#} (pooled k s) s" using i(1) by (simp add: pools_inv_def)
  have po: "pooled (Suc k) ?s2 = pooled k s" by (simp add: pooled_def wfiber_put fiber_pool_init_def)
  have "core (Suc k) {#} (pooled k s) ?s1"
    using core im_good_Suc[of k s] by (simp add: core_def chunks_nonzero_def)
  then have "core (Suc k) {#} (pooled (Suc k) ?s2) ?s2" unfolding po by simp
  then have inv2: "pools_inv (Suc k) {#} {#} ?s2"
    using i(1,3) k by (auto simp: pools_inv_def wfiber_put less_Suc_eq wpool_ok_def fiber_pool_init_def)
  have run: "worker_start k s = thenA (fiber_pool_allocate_batch k (Worker_pool k) (?cap div 2))
      (modify (put_pool (Worker_pool k) fiber_pool_stat_init)) ?s2"
    by (simp add: worker_start_def cilk_internal_malloc_per_worker_init_def cilk_fiber_pool_per_worker_init_def wfiber_put
        i(2) fiber_pool_init_def BATCH_FRACTION_def)
  have "room (128 * (?cap div 2) + j) ?s2" using room by (simp add: room_def)
  note batch = allocate_batch_run[OF inv2 lessI this]
  have "length (pfibers (wfiber_pool ?s2 k)) + ?cap div 2 \<le> pool_capacity (wfiber_pool ?s2 k)"
    by (simp add: wfiber_put fiber_pool_init_def)
  from batch[OF this] show ?thesis
  proof (elim disjE exE conjE bexE)
    fix e assume "e \<in> no_memory" "fiber_pool_allocate_batch k (Worker_pool k) (?cap div 2) ?s2 = Inl e"
    then show ?thesis unfolding run by (intro disjI2 bexI[of _ e] run_thenA_Inl)
  next
    fix s3 assume s3: "fiber_pool_allocate_batch k (Worker_pool k) (?cap div 2) ?s2 = Inr ((), s3)" "pools_inv (Suc k) {#} {#} s3"
      "room j s3" "opt_fiber_pool_cap s3 = opt_fiber_pool_cap ?s2" "opt_stacksize s3 = opt_stacksize ?s2"
      "pool_stack_size (gfiber_pool s3) = pool_stack_size (gfiber_pool ?s2)"
    let ?s4 = "put_pool (Worker_pool k) fiber_pool_stat_init s3"
    have si: "pfibers (fiber_pool_stat_init p) = pfibers p" "pool_capacity (fiber_pool_stat_init p) = pool_capacity p"
        "shared (fiber_pool_stat_init p) = shared p" "pool_parent (fiber_pool_stat_init p) = pool_parent p" for p
      by (simp_all add: fiber_pool_stat_init_def)
    have "pooled (Suc k) ?s4 = pooled (Suc k) s3" by (rule pooled_put_same) (simp add: si)
    then have "pools_inv (Suc k) {#} {#} ?s4"
      using s3(2) by (auto simp: pools_inv_def wfiber_put wpool_ok_def si)
    then have "started (Suc k) ?s4" using s3 i by (simp add: started_def wfiber_put)
    then show ?thesis unfolding run
      using s3 by (intro disjI1 exI[of _ ?s4]) (simp add: run_thenA_Inr[where m = "fiber_pool_allocate_batch k (Worker_pool k) (?cap div 2)" and s = ?s2, OF s3(1)])
  qed
qed

lemma workers_start_run:
  assumes "started 0 s" "n \<le> NO_WORKER" "room (n * (128 * (opt_fiber_pool_cap s div 2)) + j) s"
  shows "(\<exists>s'. forA [0 ..< n] worker_start s = Inr ((), s') \<and> started n s' \<and> room j s' \<and> opt_fiber_pool_cap s' = opt_fiber_pool_cap s)
    \<or> (\<exists>e \<in> no_memory. forA [0 ..< n] worker_start s = Inl e)"
  using assms(2,3)
proof (induction n arbitrary: j)
  case 0
  then show ?case using assms(1) by simp
next
  case (Suc n)
  let ?b = "128 * (opt_fiber_pool_cap s div 2)"
  have split: "forA [0 ..< Suc n] worker_start = thenA (forA [0 ..< n] worker_start) (thenA (worker_start n) (ret ()))"
    by (simp add: forA_append)
  have "n \<le> NO_WORKER" "room (n * ?b + (?b + j)) s" using Suc.prems by (simp_all add: algebra_simps)
  from Suc.IH[OF this] show ?case
  proof (elim disjE exE conjE bexE)
    fix e assume "e \<in> no_memory" "forA [0 ..< n] worker_start s = Inl e"
    then show ?thesis unfolding split by (intro disjI2 bexI[of _ e] run_thenA_Inl)
  next
    fix s1 assume s1: "forA [0 ..< n] worker_start s = Inr ((), s1)" "started n s1" "room (?b + j) s1"
      "opt_fiber_pool_cap s1 = opt_fiber_pool_cap s"
    have run: "forA [0 ..< Suc n] worker_start s = thenA (worker_start n) (ret ()) s1"
      unfolding split by (rule run_thenA_Inr[where m = "forA [0 ..< n] worker_start" and s = s, OF s1(1)])
    have "room (128 * (opt_fiber_pool_cap s1 div 2) + j) s1" using s1(3,4) by simp
    from worker_start_run[OF s1(2) Suc.prems(1) this] show ?thesis
    proof (elim disjE exE conjE bexE)
      fix e assume "e \<in> no_memory" "worker_start n s1 = Inl e"
      then show ?thesis unfolding run by (intro disjI2 bexI[of _ e] run_thenA_Inl)
    next
      fix s2 assume "worker_start n s1 = Inr ((), s2)" "started (Suc n) s2" "room j s2" "opt_fiber_pool_cap s2 = opt_fiber_pool_cap s1"
      then show ?thesis unfolding run using s1(4)
        by (intro disjI1 exI[of _ s2]) (simp add: thenA_def bindA_def)
    qed
  qed
qed

text \<open>The counter of chunks cannot wrap around: there are fewer than about four million fibers in all.\<close>

definition start_room :: "nat \<Rightarrow> 'a fiber_state_scheme \<Rightarrow> bool" where
  "start_room n s \<longleftrightarrow> 8 + 8 * (n * (128 * (opt_fiber_pool_cap s div 2))) < 2 ^ 32"

lemma global_start_run:
  assumes "cilk_internal_malloc_global_init s = Inr ((), s1)"
  shows "im_good 0 s1 {#} \<and> chunks_nonzero s1 \<and> mem_list_size (im_pool s1) = 8 \<and> im_state.more s1 = im_state.more s"
proof -
  have "im_start 0 s = Inr ((), s1)" using assms by (simp add: im_start_def thenA_def bindA_def)
  then have "im_good 0 s1 {#}" by (rule im_start_good)
  moreover obtain s2 where s2: "init_page_shift s = Inr ((), s2)" "alloc_mem_list s2 = Inr ((), s1)"
    using assms by (auto simp: cilk_internal_malloc_global_init_def thenA_Inr_iff)
  have "im_state.more s2 = im_state.more s"
    using s2(1) by (auto simp: init_page_shift_def act_dest split: if_splits)
  moreover obtain a rest where os: "os_heap s2 = Some a # rest"
    using s2(2) by (auto simp: alloc_mem_list_def split: list.splits option.splits)
  have "im_state.more s1 = im_state.more s2 \<and> mem_list (im_pool s1) = replicate (unat MEM_LIST_SIZE) Null_slot \<and> mem_list_size (im_pool s1) = MEM_LIST_SIZE"
    using s2(2) by (auto simp: alloc_mem_list_def os)
  ultimately have "chunks_nonzero s1 \<and> mem_list_size (im_pool s1) = 8 \<and> im_state.more s1 = im_state.more s"
    by (simp add: chunks_nonzero_def MEM_LIST_SIZE_def slot_addr_def)
  with \<open>im_good 0 s1 {#}\<close> show ?thesis by simp
qed

lemma pools_start_good:
  assumes "pools_start n s0 = Inr ((), s)" "n \<le> NO_WORKER" "2 \<le> opt_fiber_pool_cap s0" "start_room n s0"
  shows "pools_inv n {#} {#} s"
proof -
  obtain s1 where s1: "cilk_internal_malloc_global_init s0 = Inr ((), s1)"
    using assms(1) by (auto simp: pools_start_def thenA_Inr_iff)
  note g = global_start_run[OF s1]
  have f: "opt_fiber_pool_cap s1 = opt_fiber_pool_cap s0" "opt_stacksize s1 = opt_stacksize s0"
    using more_fiber_fields[of s1 s0] g by simp_all
  let ?s2 = "s1\<lparr>gfiber_pool := fiber_pool_stat_init
       (fiber_pool_init (opt_stacksize s1) (GLOBAL_POOL_RATIO * opt_fiber_pool_cap s1) None True (gfiber_pool s1))\<rparr>"
  have run: "pools_start n s0 = forA [0 ..< n] worker_start ?s2"
    by (simp add: pools_start_def run_thenA_Inr[where m = cilk_internal_malloc_global_init and s = s0, OF s1] cilk_fiber_pool_global_init_def)
  have core: "core 0 {#} {#} s1" using g by (simp add: core_def)
  have "core 0 {#} {#} ?s2 = core 0 {#} {#} s1" by (rule core_cong) simp_all
  then have "started 0 ?s2"
    using core assms(3) f by (simp add: started_def pools_inv_def pooled_def gpool_ok_def fiber_pool_stat_init_def fiber_pool_init_def
        cilk_mutex_init_def)
  moreover have "room (n * (128 * (opt_fiber_pool_cap ?s2 div 2)) + 0) ?s2"
    using assms(4) g f by (simp add: room_def start_room_def)
  ultimately have "(\<exists>s'. forA [0 ..< n] worker_start ?s2 = Inr ((), s') \<and> started n s') \<or> (\<exists>e. forA [0 ..< n] worker_start ?s2 = Inl e)"
    using workers_start_run[of ?s2 n 0] assms(2) by blast
  then show ?thesis using assms(1) unfolding run by (auto simp: started_def)
qed

section \<open>Runs of the pools\<close>

text \<open>After start-up the \<open>n\<close> workers take fibers from their pools and give them back, create and destroy
  single fibers, and use the allocator for other things, in any order; a fiber may be given back by another
  worker than took it.  \<open>honest\<close> says that the chunks the system has given so far do not overlap.\<close>

type_synonym 'a fiber_run = "'a fiber_state_scheme \<times> ledger \<times> addr multiset"

inductive fiber_step :: "nat \<Rightarrow> 'a fiber_run \<Rightarrow> 'a fiber_run \<Rightarrow> bool" for n where
  take_fiber: "w < n \<Longrightarrow> batch_room w s \<Longrightarrow> cilk_fiber_allocate_from_pool w s = Inr (f, s') \<Longrightarrow> honest s'
    \<Longrightarrow> fiber_step n (s, live, out) (s', live, add_mset f out)"
| give_fiber: "w < n \<Longrightarrow> f \<in># out \<Longrightarrow> cilk_fiber_deallocate_to_pool w (Some f) s = Inr (u, s')
    \<Longrightarrow> fiber_step n (s, live, out) (s', live, out - {#f#})"
| new_fiber: "w < n \<Longrightarrow> room 128 s \<Longrightarrow> cilk_fiber_allocate w sz s = Inr (f, s') \<Longrightarrow> honest s'
    \<Longrightarrow> fiber_step n (s, live, out) (s', live, add_mset f out)"
| delete_fiber: "w < n \<Longrightarrow> f \<in># out \<Longrightarrow> cilk_fiber_deallocate w f s = Inr (u, s')
    \<Longrightarrow> fiber_step n (s, live, out) (s', live, out - {#f#})"
| other_malloc: "w < n \<Longrightarrow> sz \<le> SIZE_THRESH \<Longrightarrow> room 128 s \<Longrightarrow> cilk_internal_malloc w sz tag s = Inr (a, s') \<Longrightarrow> honest s'
    \<Longrightarrow> fiber_step n (s, live, out) (s', add_mset (a, sz, tag) live, out)"
| other_free: "w < n \<Longrightarrow> (p, sz, tag) \<in># live \<Longrightarrow> cilk_internal_free w p sz tag s = Inr (u, s')
    \<Longrightarrow> fiber_step n (s, live, out) (s', live - {#(p, sz, tag)#}, out)"

definition fiber_reachable :: "nat \<Rightarrow> 'a fiber_state_scheme \<Rightarrow> ledger \<Rightarrow> addr multiset \<Rightarrow> bool" where
  "fiber_reachable n s live out \<longleftrightarrow>
     (\<exists>s0 s1. pools_start n s0 = Inr ((), s1) \<and> n \<le> NO_WORKER \<and> 2 \<le> opt_fiber_pool_cap s0 \<and> start_room n s0 \<and> honest s1
        \<and> (fiber_step n)\<^sup>*\<^sup>* (s1, {#}, {#}) (s, live, out))"

lemma same_pools_fields:
  assumes "same_pools s s'"
  shows "gfiber_pool s' = gfiber_pool s" "wfiber_pool s' v = wfiber_pool s v" "pooled n s' = pooled n s"
proof -
  show g: "gfiber_pool s' = gfiber_pool s" using same_poolsD[OF assms, of Global_pool] by simp
  have w: "wfiber_pool s' v = wfiber_pool s v" for v using same_poolsD[OF assms, of "Worker_pool v"] by simp
  then show "wfiber_pool s' v = wfiber_pool s v" .
  show "pooled n s' = pooled n s" by (simp add: pooled_def g w)
qed

lemma pools_inv_same:
  assumes "pools_inv n live out s" "same_pools s s'" "core n live' (pooled n s + out') s'"
  shows "pools_inv n live' out' s'"
  using assms same_pools_fields[OF assms(2)] by (simp add: pools_inv_def)

lemma more_same_pools: "im_state.more s' = im_state.more s \<Longrightarrow> same_pools s s'"
  using more_fiber_fields[of s' s] by (simp add: same_pools_def)

lemma fiber_step_inv:
  assumes "fiber_step n (s, live, out) (s', live', out')" "pools_inv n live out s" "honest s"
  shows "pools_inv n live' out' s' \<and> honest s'"
  using assms(1)
proof cases
  case (take_fiber w f)
  then show ?thesis using take_run[OF assms(2) take_fiber(3,4)] by auto
next
  case (give_fiber w f u)
  then obtain G where "out = add_mset f G" by (metis insert_DiffM)
  then show ?thesis using give_run[of n live f G s w] assms(2,3) give_fiber honest_pool[of s' s] by auto
next
  case (new_fiber w sz f)
  have "core n live (add_mset f (pooled n s + out)) s'" "same_pools s s'"
    using fiber_allocate_run[OF pools_invD(7)[OF assms(2) new_fiber(3)] new_fiber(3), of 0 sz] new_fiber(4,5) by auto
  then show ?thesis using pools_inv_same[OF assms(2), of s' live "add_mset f out"] new_fiber by simp
next
  case (delete_fiber w f u)
  then have f: "f \<in># pooled n s + out" by simp
  obtain G where G: "out = add_mset f G" using delete_fiber by (metis insert_DiffM)
  obtain t where "cilk_fiber_deallocate w f s = Inr ((), t)" "core n live (pooled n s + out - {#f#}) t" "same_pools s t" "im_pool t = im_pool s"
    using fiber_deallocate_run[OF _ assms(3) delete_fiber(3) f] assms(2) by (auto simp: pools_inv_def)
  then show ?thesis
    using delete_fiber pools_inv_same[OF assms(2), of t live G] assms(3) honest_pool[of t s] by (auto simp: G)
next
  case (other_malloc w sz tag a)
  have "core n live' (pooled n s + out) s'"
    using malloc_step[OF _ other_malloc(3,4,5,6)] preservesD[OF nonzero_malloc[OF other_malloc(4)] _ other_malloc(6)] assms(2)
      more_fiber_fields(1)[OF malloc_outside[OF other_malloc(6)]] other_malloc(1)
    by (simp add: pools_inv_def core_def)
  then show ?thesis
    using pools_inv_same[OF assms(2) more_same_pools[OF malloc_outside[OF other_malloc(6)]]] other_malloc by simp
next
  case (other_free w p sz tag u)
  have sz: "sz \<le> SIZE_THRESH" using assms(2) other_free(4) by (auto simp: pools_inv_def core_def dest: live_size)
  have pool: "im_pool s' = im_pool s" using preservesD[OF pool_free[OF sz] _ other_free(5), of "im_pool s"] by simp
  obtain L where L: "live = add_mset (p, sz, tag) L" using other_free(4) by (metis insert_DiffM)
  have "core n L (pooled n s + out) s'"
    using free_step[OF _ other_free(3), of s "live + fiber_led (pooled n s + out)" p sz tag] assms(2) other_free(5) pool
      more_fiber_fields(1)[OF free_outside[OF other_free(5)]]
    by (auto simp: pools_inv_def core_def L chunks_nonzero_def)
  then show ?thesis
    using pools_inv_same[OF assms(2) more_same_pools[OF free_outside[OF other_free(5)]]] other_free(1,2) honest_pool[OF pool] assms(3)
    by (simp add: L)
qed

lemma fiber_reachable_inv:
  assumes "fiber_reachable n s live out"
  shows "pools_inv n live out s \<and> honest s"
proof -
  obtain s0 s1 where s1: "pools_start n s0 = Inr ((), s1)" "n \<le> NO_WORKER" "2 \<le> opt_fiber_pool_cap s0" "start_room n s0" "honest s1"
      "(fiber_step n)\<^sup>*\<^sup>* (s1, {#}, {#}) (s, live, out)"
    using assms by (auto simp: fiber_reachable_def)
  have "case x of (s, live, out) \<Rightarrow> pools_inv n live out s \<and> honest s" if "(fiber_step n)\<^sup>*\<^sup>* (s1, {#}, {#}) x" for x
    using that
  proof (induction rule: rtranclp_induct)
    case base
    then show ?case using pools_start_good[OF s1(1-4)] s1(5) by simp
  next
    case (step y z)
    obtain a b c a' b' c' where "y = (a, b, c)" "z = (a', b', c')" by (cases y; cases z) simp
    then show ?case using step fiber_step_inv[of n a b c a' b' c'] by simp
  qed
  from this[OF s1(6)] show ?thesis by simp
qed

section \<open>A small run\<close>

text \<open>Filling a worker's free list from a fresh chunk.\<close>

lemma first_block:
  assumes "free_list (buckets (im_desc s) i) = []" "i < NUM_BUCKETS" "0 < sz" "sz \<le> SIZE_THRESH" "page_shift s = 12"
    "os_mmap s = Some a # rest" "a \<noteq> 0" "im_pool s = \<lparr>mem_begin = 0, mem_end = 0, mem_list = replicate 8 Null_slot, mem_list_index = -1,
                 mem_list_size = 8, allocated = 0, wasted = 0\<rparr>"
  shows "\<exists>s'. im_batch_body w sz i s = Inr ((), s') \<and> os_mmap s' = rest \<and> free_list (buckets (im_desc s') i) = []
    \<and> chunks (im_pool s') = [a] \<and> mem_begin (im_pool s') = a + sz \<and> mem_end (im_pool s') = a + INTERNAL_MALLOC_CHUNK_SIZE
    \<and> im_lock s' = im_lock s \<and> free_list (buckets (wim s' w) i) \<noteq> []"
proof -
  have rep: "replicate 8 Null_slot = [Null_slot, Null_slot, Null_slot, Null_slot, Null_slot, Null_slot, Null_slot, Null_slot]"
    by (simp add: numeral_eq_Suc)
  show ?thesis using assms
    by (simp add: im_batch_body_def global_im_alloc_def pool_carve_def extend_global_pool_def malloc_from_system_def
        is_page_aligned_def remove_from_free_list_def add_to_free_list_def INTERNAL_MALLOC_CHUNK_SIZE_def rep
        thenA_def bindA_def chunks_def slot_addr_def whenA_def)
qed

lemma more_blocks:
  assumes "free_list (buckets (im_desc s) i) = []" "i < NUM_BUCKETS" "sz \<le> SIZE_THRESH" "mem_begin (im_pool s) + k * sz \<le> mem_end (im_pool s)"
  shows "\<exists>s'. repeatA k (im_batch_body w sz i) s = Inr ((), s') \<and> os_mmap s' = os_mmap s \<and> chunks (im_pool s') = chunks (im_pool s)
    \<and> (free_list (buckets (wim s w) i) \<noteq> [] \<longrightarrow> free_list (buckets (wim s' w) i) \<noteq> [])"
  using assms
proof (induction k arbitrary: s)
  case (Suc k)
  obtain s1 where s1: "im_batch_body w sz i s = Inr ((), s1)" "os_mmap s1 = os_mmap s" "free_list (buckets (im_desc s1) i) = []"
      "chunks (im_pool s1) = chunks (im_pool s)" "mem_begin (im_pool s1) = mem_begin (im_pool s) + sz" "mem_end (im_pool s1) = mem_end (im_pool s)"
      "free_list (buckets (wim s1 w) i) \<noteq> []"
    using Suc.prems by (simp add: im_batch_body_def global_im_alloc_def pool_carve_def remove_from_free_list_def
        add_to_free_list_def thenA_def bindA_def chunks_def)
  have "mem_begin (im_pool s1) + k * sz \<le> mem_end (im_pool s1)" using s1(5,6) Suc.prems(4) by simp
  from Suc.IH[OF s1(3) Suc.prems(2,3) this] s1 show ?case by (auto simp: thenA_def bindA_def)
qed simp

definition fresh :: "worker_id \<Rightarrow> addr \<Rightarrow> addr \<Rightarrow> 'a im_state_scheme \<Rightarrow> bool" where
  "fresh w a low s \<longleftrightarrow> free_list (buckets (im_desc s) 1) = [] \<and> free_list (buckets (wim s w) 1) = [] \<and> page_shift s = 12
     \<and> os_mmap s = [Some a, Some low] \<and> a \<noteq> 0 \<and> \<not> im_lock s
     \<and> im_pool s = \<lparr>mem_begin = 0, mem_end = 0, mem_list = replicate 8 Null_slot, mem_list_index = -1,
                 mem_list_size = 8, allocated = 0, wasted = 0\<rparr>"

lemma SIZEOF_FIBER_bucket: "size_to_bucket SIZEOF_FIBER = 1" "bucket_sizes ! 1 = 64" "bucket_capacity ! 1 div 2 = Suc 63"
  "1 < NUM_BUCKETS" "64 \<le> SIZE_THRESH"
  by (simp_all add: size_to_bucket_def SIZEOF_FIBER_def NUM_BUCKETS_def bucket_sizes_def bucket_capacity_def SIZE_THRESH_def upt_rec)

lemma fresh_batch:
  assumes "fresh w a low s"
  shows "\<exists>s'. im_allocate_batch w (bucket_sizes ! 1) 1 s = Inr ((), s') \<and> chunks (im_pool s') = [a] \<and> os_mmap s' = [Some low]
    \<and> free_list (buckets (wim s' w) 1) \<noteq> []"
proof -
  let ?s = "s\<lparr>im_lock := True\<rparr>"
  obtain s1 where s1: "im_batch_body w 64 1 ?s = Inr ((), s1)" "os_mmap s1 = [Some low]" "free_list (buckets (im_desc s1) 1) = []"
      "chunks (im_pool s1) = [a]" "mem_begin (im_pool s1) = a + 64" "mem_end (im_pool s1) = a + INTERNAL_MALLOC_CHUNK_SIZE"
      "free_list (buckets (wim s1 w) 1) \<noteq> []"
    using first_block[of ?s 1 64 a "[Some low]" w] assms SIZEOF_FIBER_bucket by (auto simp: fresh_def)
  have "mem_begin (im_pool s1) + 63 * 64 \<le> mem_end (im_pool s1)" using s1(5,6) by (simp add: INTERNAL_MALLOC_CHUNK_SIZE_def)
  then obtain s2 where s2: "repeatA 63 (im_batch_body w 64 1) s1 = Inr ((), s2)" "os_mmap s2 = [Some low]" "chunks (im_pool s2) = [a]"
      "free_list (buckets (wim s2 w) 1) \<noteq> []"
    using more_blocks[OF s1(3) SIZEOF_FIBER_bucket(4,5), of 63 w] s1 by auto
  have "repeatA (Suc 63) (im_batch_body w 64 1) ?s = Inr ((), s2)"
    by (simp only: repeatA.simps run_thenA_Inr[where m = "im_batch_body w 64 1" and s = ?s, OF s1(1)] s2(1))
  then show ?thesis
    using assms s2(2-4) unfolding im_allocate_batch_def Let_def SIZEOF_FIBER_bucket(2,3)
    by (simp add: fresh_def thenA_def bindA_def cilk_mutex_lock_def cilk_mutex_unlock_def)
qed

lemma fresh_fiber:
  assumes "fresh w a low s"
  shows "\<exists>f s'. cilk_fiber_allocate w sz s = Inr (f, s') \<and> chunks (im_pool s') = [a] \<and> same_pools s s' \<and> room 128 s'"
proof -
  let ?s = "s\<lparr>wim := (wim s)(w := charge 1 SIZEOF_FIBER IM_FIBER (wim s w))\<rparr>"
  have "free_list (buckets (charge 1 SIZEOF_FIBER IM_FIBER d) 1) = free_list (buckets d 1)" for d
    by (simp add: charge_def Let_def)
  then have "fresh w a low ?s" using assms by (simp add: fresh_def)
  from fresh_batch[OF this] obtain s1 where s1: "im_allocate_batch w (bucket_sizes ! 1) 1 ?s = Inr ((), s1)" "chunks (im_pool s1) = [a]"
      "os_mmap s1 = [Some low]" "free_list (buckets (wim s1 w) 1) \<noteq> []" by blast
  obtain f fs where f: "free_list (buckets (wim s1 w) 1) = f # fs" using s1(4) by (cases "free_list (buckets (wim s1 w) 1)") auto
  let ?s2 = "s1\<lparr>wim := (wim s1)(w := pop_worker 1 (wim s1 w))\<rparr>"
  have run: "cilk_internal_malloc w SIZEOF_FIBER IM_FIBER s = Inr (f, ?s2)"
    using assms s1(1) f by (simp add: malloc_run[OF SIZEOF_FIBER_bucket(1)[symmetric] SIZEOF_FIBER_bucket(4) refl] fresh_def)
  note same = more_fiber_fields[OF malloc_outside[OF run]]
  have "room (128 + 128) s" using assms by (simp add: room_def fresh_def)
  then have "room 128 ?s2" using malloc_room[OF run] by simp
  then show ?thesis
    using s1(2,3) same by (simp add: room_def cilk_fiber_allocate_def bindA_def thenA_def run make_stack_def Let_def same_pools_def)
qed

lemma fresh_put_pool [simp]: "fresh w a low (put_pool r f s) = fresh w a low s"
  by (simp add: fresh_def put_pool_def split: pool_ref.splits)

lemma fresh_pool_batch:
  assumes "fresh w a low s" "\<not> shared (wfiber_pool s w)" "pool_parent (wfiber_pool s w) = Some Global_pool" "pfibers (wfiber_pool s w) = []"
    "1 \<le> pool_capacity (wfiber_pool s w)" "gpool_ok (gfiber_pool s)" "pfibers (gfiber_pool s) = []" "w < NO_WORKER"
  shows "\<exists>s'. fiber_pool_allocate_batch w (Worker_pool w) 1 s = Inr ((), s') \<and> chunks (im_pool s') = [a]
    \<and> length (pfibers (wfiber_pool s' w)) = 1 \<and> pool_capacity (wfiber_pool s' w) = pool_capacity (wfiber_pool s w) \<and> room 128 s'"
proof -
  let ?s1 = "put_pool Global_pool (\<lambda>p. p\<lparr>pool_lock := True, pool_owner := w\<rparr>) s"
  let ?s2 = "put_pool Global_pool (\<lambda>p. p\<lparr>pool_stats := max_in_use_upd ((pool_stats p)\<lparr>in_use := in_use (pool_stats p) + int 0\<rparr>)\<rparr>) ?s1"
  let ?s3 = "put_pool Global_pool (\<lambda>p. p\<lparr>pool_owner := NO_WORKER, pool_lock := False\<rparr>) ?s2"
  have lock: "fiber_pool_lock w Global_pool s = Inr ((), ?s1)" using lock_global_run[OF assms(6,8)] by simp
  have unlock: "fiber_pool_unlock w Global_pool ?s2 = Inr ((), ?s3)"
    using assms(6) by (intro unlock_global_run) (simp_all add: wfiber_put gpool_ok_def)
  obtain f s4 where f: "cilk_fiber_allocate w (pool_stack_size (wfiber_pool s w)) ?s3 = Inr (f, s4)" "chunks (im_pool s4) = [a]" "same_pools ?s3 s4" "room 128 s4"
    using fresh_fiber[of w a low ?s3 "pool_stack_size (wfiber_pool s w)"] assms(1) by auto
  have w4: "wfiber_pool s4 w = wfiber_pool s w" using same_pools_fields(2)[OF f(3), of w] by (simp add: wfiber_put)
  let ?s5 = "put_pool (Worker_pool w) max_free_upd (put_fibers (Worker_pool w) [f] s4)"
  have "repeatA (1 - 0) (bindA (gets (\<lambda>s. pool_stack_size (get_pool (Worker_pool w) s))) (\<lambda>ss. bindA (cilk_fiber_allocate w ss) (pool_push (Worker_pool w)))) ?s3
      = Inr ((), put_fibers (Worker_pool w) [f] s4)"
    using f(1) assms(4,5) by (simp add: thenA_def bindA_def wfiber_put pool_push_run w4)
  then have "fiber_pool_allocate_batch w (Worker_pool w) 1 s = Inr ((), ?s5)"
    using assms lock unlock by (simp add: fiber_pool_allocate_batch_def own_pool_run fiber_pool_increase_capacity_def thenA_def bindA_def wfiber_put)
  then show ?thesis using f(2,4) by (intro exI[of _ ?s5]) (simp add: wfiber_put max_free_upd_def w4)
qed

text \<open>One worker with a pool of two fibers; start-up makes one of them.\<close>

definition fiber_ex0 :: fiber_state where
  "fiber_ex0 = undefined\<lparr>os_page_size := 4096, page_shift := 12, os_mmap := [Some 65536, Some 1048576], os_heap := [Some 8],
     fibers := (\<lambda>_. None), opt_stacksize := 65536, opt_fiber_pool_cap := 2\<rparr>"

lemma fiber_ex_start: "\<exists>s. pools_start 1 fiber_ex0 = Inr ((), s) \<and> chunks (im_pool s) = [65536] \<and> length (pfibers (wfiber_pool s 0)) = 1
    \<and> batch_room 0 s"
proof -
  have r8: "unat MEM_LIST_SIZE = 8" by (simp add: MEM_LIST_SIZE_def)
  obtain s1 where s1: "thenA cilk_internal_malloc_global_init cilk_fiber_pool_global_init fiber_ex0 = Inr ((), s1)"
      "fresh 0 65536 1048576 (upd_wdesc 0 init_im_buckets s1)" "opt_fiber_pool_cap s1 = 2" "gpool_ok (gfiber_pool s1)"
      "pfibers (gfiber_pool s1) = []" "pool_stack_size (gfiber_pool s1) = opt_stacksize s1"
    by (simp add: thenA_def bindA_def cilk_internal_malloc_global_init_def init_page_shift_def alloc_mem_list_def fiber_ex0_def
        cilk_fiber_pool_global_init_def fiber_pool_init_def fiber_pool_stat_init_def fresh_def r8 gpool_ok_def cilk_mutex_init_def
        init_im_buckets_def init_bucket_def NUM_BUCKETS_def MEM_LIST_SIZE_def)
  let ?s2 = "put_pool (Worker_pool 0) (fiber_pool_init (opt_stacksize s1) 2 (Some Global_pool) False) (upd_wdesc 0 init_im_buckets s1)"
  have "(pools_start 1 :: (fiber_state, unit) act) = thenA (thenA cilk_internal_malloc_global_init cilk_fiber_pool_global_init) (thenA (worker_start 0) (ret ()))"
    by (simp add: pools_start_def thenA_assoc)
  then have run: "pools_start 1 fiber_ex0 = thenA (worker_start 0) (ret ()) s1"
    by (simp only: run_thenA_Inr[where m = "thenA cilk_internal_malloc_global_init cilk_fiber_pool_global_init" and s = fiber_ex0, OF s1(1)])
  have "fresh 0 65536 1048576 ?s2" using s1(2) by simp
  then obtain s3 where s3: "fiber_pool_allocate_batch 0 (Worker_pool 0) 1 ?s2 = Inr ((), s3)" "chunks (im_pool s3) = [65536]"
      "length (pfibers (wfiber_pool s3 0)) = 1" "pool_capacity (wfiber_pool s3 0) = 2" "room 128 s3"
    using fresh_pool_batch[of 0 65536 1048576 ?s2] s1(4,5) by (auto simp: wfiber_put fiber_pool_init_def NO_WORKER_def)
  have "worker_start 0 s1 = Inr ((), put_pool (Worker_pool 0) fiber_pool_stat_init s3)"
    using s3(1) s1(3,6) by (simp add: worker_start_def cilk_internal_malloc_per_worker_init_def cilk_fiber_pool_per_worker_init_def
        wfiber_put fiber_pool_init_def BATCH_FRACTION_def thenA_def bindA_def)
  then show ?thesis unfolding run using s3(2-) by (simp add: thenA_def bindA_def wfiber_put fiber_pool_stat_init_def batch_room_def BATCH_FRACTION_def)
qed

definition fiber_ex1 :: fiber_state where
  "fiber_ex1 = (case pools_start 1 fiber_ex0 of Inr (_, s) \<Rightarrow> s | Inl _ \<Rightarrow> fiber_ex0)"

lemma fiber_ex1_run: "pools_start 1 fiber_ex0 = Inr ((), fiber_ex1)" "chunks (im_pool fiber_ex1) = [65536]"
  "length (pfibers (wfiber_pool fiber_ex1 0)) = 1" "batch_room 0 fiber_ex1"
  using fiber_ex_start by (auto simp: fiber_ex1_def)

lemma fiber_ex_reachable: "fiber_reachable 1 fiber_ex1 {#} {#}"
proof -
  have "honest fiber_ex1" by (simp add: honest_def fiber_ex1_run(2) cover_def)
  moreover have "2 \<le> opt_fiber_pool_cap fiber_ex0" "start_room 1 fiber_ex0" by (simp_all add: fiber_ex0_def start_room_def)
  ultimately show ?thesis
    using fiber_ex1_run(1) unfolding fiber_reachable_def
    by (intro exI[of _ fiber_ex0] exI[of _ fiber_ex1]) (simp add: NO_WORKER_def)
qed


section \<open>Properties\<close>

lemma core_disjoint:
  assumes "core n live F s" "honest s"
  shows "(\<Sum>(a, sz, t)\<in>#live + fiber_led F. cover x a (bucket_sizes ! size_to_bucket sz)) \<le> 1"
proof -
  have "(\<Sum>(a, sz, t)\<in>#live + fiber_led F. cover x a (csize sz)) \<le> 1"
    using live_cover[of n s "live + fiber_led F" x] assms by (auto simp: core_def honest_def intro: order_trans)
  then show ?thesis by (simp add: csize_def bucket_to_size_def)
qed

lemma core_once:
  assumes "core n live F s" "honest s" "f \<in># F"
  shows "count F f = 1"
proof -
  obtain G where F: "F = add_mset f G" using assms(3) by (metis insert_DiffM)
  have "im_good n s (add_mset (f, SIZEOF_FIBER, IM_FIBER) (live + fiber_led G))" using assms(1) by (simp add: core_def F)
  then have "f \<notin># G" using live_distinct[OF _ assms(2), of n f _ _ _ f] fiber_led_mem by fastforce
  then show ?thesis by (simp add: F not_in_iff)
qed

text \<open>(C6) The fiber pools lose no fiber and hand none out twice: after start-up and any interleaving of the
  workers, the fibers in the pools and those with a client are different blocks of the allocator that
  overlap neither each other nor any other live block, each with its descriptor; the pools are within their
  capacities, the lock of the global one is free, and the allocator's own check succeeds.\<close>

theorem fibers_conserved:
  assumes "fiber_reachable n s live out"
  shows "(\<forall>x. (\<Sum>(a, sz, t)\<in>#live + fiber_led (pooled n s + out). cover x a (bucket_sizes ! size_to_bucket sz)) \<le> 1)
    \<and> (\<forall>f \<in># pooled n s + out. f \<noteq> 0 \<and> fibers s f \<noteq> None \<and> count (pooled n s + out) f = 1)
    \<and> (\<forall>w < n. length (pfibers (wfiber_pool s w)) \<le> pool_capacity (wfiber_pool s w))
    \<and> length (pfibers (gfiber_pool s)) \<le> pool_capacity (gfiber_pool s) \<and> \<not> pool_lock (gfiber_pool s)
    \<and> internal_malloc_global_check [0 ..< n] s = Inr ((), s)"
proof -
  have inv: "pools_inv n live out s" "honest s" using fiber_reachable_inv[OF assms] by simp_all
  then have core: "core n live (pooled n s + out) s" by (simp add: pools_inv_def)
  have "internal_malloc_global_check [0 ..< n] s = Inr ((), s)"
    using core by (intro global_check_good[where live = "live + fiber_led (pooled n s + out)"]) (simp add: core_def)
  moreover have "fibers s f \<noteq> None" if "f \<in># pooled n s + out" for f using core that by (simp add: core_def)
  ultimately show ?thesis
    using core_disjoint[OF core inv(2)] core_nonzero[OF core] core_once[OF core inv(2)] inv(1)
    by (auto simp: pools_inv_def wpool_ok_def gpool_ok_def)
qed

lemma fibers_conserved_witness:
  "\<exists>f. pfibers (wfiber_pool fiber_ex1 0) = [f] \<and> f \<noteq> 0 \<and> fibers fiber_ex1 f \<noteq> None"
proof -
  obtain f where f: "pfibers (wfiber_pool fiber_ex1 0) = [f]" using fiber_ex1_run(3) by (auto simp: length_Suc_conv)
  then have "f \<in># pooled 1 fiber_ex1 + {#}" by (simp add: pooled_def)
  then show ?thesis using fibers_conserved[OF fiber_ex_reachable] f by blast
qed



end
