(* ===== verification/Pedigree.thy ===== *)
theory Pedigree
  imports Rts_Prelude
begin

unbundle bit_operations_syntax

text \<open>
  Pedigrees and the deterministic parallel random-number generator (runtime/pedigree_globals.c and the
  parts of runtime/cilk2c_inlined.c under \<open>ENABLE_CILKRTS_PEDIGREE\<close>).  Ranks, dot products and the
  coefficients are 64-bit words; arithmetic modulo the prime \<open>2 ^ 64 - 59\<close> is done on them with
  wrap-around.  A worker is given by the frame it runs, \<open>current_sf\<close>.
\<close>

section \<open>Arithmetic\<close>

definition DPRNG_PRIME :: "64 word" where "DPRNG_PRIME = - 59"

definition dprng_swap_halves :: "64 word \<Rightarrow> 64 word" where
  "dprng_swap_halves x = drop_bit 32 x OR push_bit 32 x"

primrec dprng_mix_loop :: "nat \<Rightarrow> 64 word \<Rightarrow> 64 word" where
  "dprng_mix_loop 0 x = x"
| "dprng_mix_loop (Suc n) x = dprng_mix_loop n (dprng_swap_halves (x * (2 * x + 1)))"

definition dprng_mix :: "64 word \<Rightarrow> 64 word" where
  "dprng_mix x = dprng_mix_loop 4 x"

definition dprng_mix_mod_p :: "64 word \<Rightarrow> 64 word" where
  "dprng_mix_mod_p x0 = (let x = dprng_mix x0 in x - (DPRNG_PRIME AND - (if DPRNG_PRIME \<le> x then 1 else 0)))"

definition dprng_sum_mod_p :: "64 word \<Rightarrow> 64 word \<Rightarrow> 64 word" where
  "dprng_sum_mod_p a b = (let z = a + b in if z < a \<or> DPRNG_PRIME \<le> z then z - DPRNG_PRIME else z)"

section \<open>Frames\<close>

record ped_frame =
  ped_rank :: "64 word"
  ped_parent :: "addr option"
  rank :: "64 word"
  dprng_dotproduct :: "64 word"
  dprng_depth :: nat

record ped_state =
  pframes :: "addr \<Rightarrow> ped_frame option"
  current_sf :: "worker_id \<Rightarrow> addr option"
  root_rank :: "64 word"
  dprng_m_array :: "64 word list"
  dprng_m_X :: "64 word"

definition init_dprng :: "(ped_state, unit) act" where
  "init_dprng = modify (\<lambda>s. s\<lparr>
     dprng_m_array := map (\<lambda>i. dprng_mix_mod_p (0x8c679c168e6bf733 + of_nat i)) [0..<4096],
     dprng_m_X := dprng_mix_mod_p (0x8c679c168e6bf733 + 4096)\<rparr>)"

definition get_pf :: "addr \<Rightarrow> (ped_state, ped_frame) act" where
  "get_pf f = bindA (gets (\<lambda>s. pframes s f)) derefA"

definition upd_pf :: "addr \<Rightarrow> (ped_frame \<Rightarrow> ped_frame) \<Rightarrow> (ped_state, unit) act" where
  "upd_pf f g = bindA (get_pf f) (\<lambda>p. modify (\<lambda>s. s\<lparr>pframes := (pframes s)(f \<mapsto> g p)\<rparr>))"

text \<open>\<open>dprng_m_array[i]\<close>.\<close>

definition dprng_m :: "nat \<Rightarrow> (ped_state, 64 word) act" where
  "dprng_m i = thenA (check (\<lambda>s. i < length (dprng_m_array s)) Out_of_bounds) (gets (\<lambda>s. dprng_m_array s ! i))"

text \<open>Pedigree maintenance in \<open>__cilkrts_enter_frame\<close> and \<open>__cilkrts_enter_frame_fast\<close>, for a frame \<open>sf\<close> with the
  given \<open>call_parent\<close>; \<open>is_last\<close> is the flag \<open>CILK_FRAME_LAST\<close>.\<close>

definition enter_pedigree :: "addr \<Rightarrow> addr option \<Rightarrow> bool \<Rightarrow> (ped_state, unit) act" where
  "enter_pedigree sf call_parent is_last =
     thenA (case call_parent of
        Some p \<Rightarrow>
          if \<not> is_last then
            bindA (get_pf p) (\<lambda>pf.
            thenA (upd_pf sf (\<lambda>f. f\<lparr>ped_rank := rank pf\<rparr>))
           (thenA (upd_pf p (\<lambda>f. f\<lparr>rank := rank f + 1\<rparr>))
           (thenA (upd_pf sf (\<lambda>f. f\<lparr>ped_parent := Some p\<rparr>))
           (thenA (upd_pf sf (\<lambda>f. f\<lparr>dprng_depth := dprng_depth pf + 1\<rparr>))
           (bindA (dprng_m (dprng_depth pf)) (\<lambda>m.
            thenA (upd_pf p (\<lambda>f. f\<lparr>dprng_dotproduct := dprng_sum_mod_p (dprng_dotproduct f) m\<rparr>))
           (bindA (get_pf p) (\<lambda>pf.
            upd_pf sf (\<lambda>f. f\<lparr>dprng_dotproduct := dprng_dotproduct pf\<rparr>)))))))))
          else bindA (gets dprng_m_X) (\<lambda>x. upd_pf sf (\<lambda>f. f\<lparr>ped_rank := 0, ped_parent := None, dprng_depth := 0, dprng_dotproduct := x\<rparr>))
      | None \<Rightarrow> bindA (gets dprng_m_X) (\<lambda>x. upd_pf sf (\<lambda>f. f\<lparr>ped_rank := 0, ped_parent := None, dprng_depth := 0, dprng_dotproduct := x\<rparr>)))
    (upd_pf sf (\<lambda>f. f\<lparr>rank := 0\<rparr>))"

text \<open>\<open>w->current_stack_frame\<close>.\<close>

definition current_frame :: "worker_id option \<Rightarrow> (ped_state, addr) act" where
  "current_frame w = bindA (derefA w) (\<lambda>v. bindA (gets (\<lambda>s. current_sf s v)) derefA)"

definition get_pedigree :: "worker_id option \<Rightarrow> (ped_state, 64 word \<times> addr option) act" where
  "get_pedigree w = (case w of
      None \<Rightarrow> gets (\<lambda>s. (root_rank s, None))
    | Some v \<Rightarrow> bindA (current_frame w) (\<lambda>f. bindA (get_pf f) (\<lambda>pf. ret (rank pf, Some f))))"

definition bump_worker_rank :: "worker_id option \<Rightarrow> (ped_state, unit) act" where
  "bump_worker_rank w =
     thenA (case w of
        None \<Rightarrow> modify (\<lambda>s. s\<lparr>root_rank := root_rank s + 1\<rparr>)
      | Some v \<Rightarrow> bindA (current_frame w) (\<lambda>f. upd_pf f (\<lambda>p. p\<lparr>rank := rank p + 1\<rparr>)))
    (bindA (current_frame w) (\<lambda>f.
     bindA (get_pf f) (\<lambda>pf.
     bindA (dprng_m (dprng_depth pf)) (\<lambda>m.
     upd_pf f (\<lambda>p. p\<lparr>dprng_dotproduct := dprng_sum_mod_p (dprng_dotproduct p) m\<rparr>)))))"

definition get_dprand :: "worker_id option \<Rightarrow> (ped_state, 64 word) act" where
  "get_dprand w =
     thenA (bump_worker_rank w)
    (bindA (current_frame w) (\<lambda>f. bindA (get_pf f) (\<lambda>pf. ret (dprng_mix_mod_p (dprng_dotproduct pf)))))"

section \<open>The arithmetic is that of the prime field\<close>

definition prime_p :: nat where "prime_p = 2 ^ 64 - 59"

lemma unat_prime: "unat DPRNG_PRIME = prime_p"
  by (simp add: DPRNG_PRIME_def prime_p_def)

lemma minus_prime: "x - DPRNG_PRIME = x + 59"
  by (simp add: DPRNG_PRIME_def)

lemma unat_sum_mod_p:
  assumes "unat a < prime_p" "unat b < prime_p"
  shows "unat (dprng_sum_mod_p a b) = (unat a + unat b) mod prime_p"
proof -
  let ?n = "unat a + unat b"
  have z: "unat (a + b) = ?n mod 2 ^ 64" by (simp add: unat_word_ariths)
  have z59: "unat (a + b + 59) = (?n mod 2 ^ 64 + 59) mod 2 ^ 64" unfolding unat_word_ariths(1)[of "a + b"] z by simp
  have lt: "a + b < a \<longleftrightarrow> ?n mod 2 ^ 64 < unat a" "DPRNG_PRIME \<le> a + b \<longleftrightarrow> prime_p \<le> ?n mod 2 ^ 64"
    by (simp_all add: word_less_nat_alt word_le_nat_alt unat_prime z)
  consider "?n < prime_p" | "prime_p \<le> ?n" "?n < 2 ^ 64" | "2 ^ 64 \<le> ?n" by linarith
  then show ?thesis
  proof cases
    case 1
    then have "?n mod 2 ^ 64 = ?n" by (simp add: prime_p_def)
    then show ?thesis using 1 by (simp add: dprng_sum_mod_p_def Let_def lt z)
  next
    case 2
    then have m: "?n mod 2 ^ 64 = ?n" "?n mod prime_p = ?n - prime_p" using assms by (simp_all add: le_mod_geq)
    have "unat (a + b + 59) = ?n - prime_p" using 2 assms unfolding z59 m(1) prime_p_def by (simp add: mod_if)
    then show ?thesis using 2 m by (simp add: dprng_sum_mod_p_def Let_def lt minus_prime)
  next
    case 3
    then have m: "?n mod 2 ^ 64 = ?n - 2 ^ 64" "?n mod prime_p = ?n - prime_p" using assms by (simp_all add: le_mod_geq prime_p_def)
    have "unat (a + b + 59) = ?n - prime_p" using 3 assms unfolding z59 m(1) prime_p_def by simp
    moreover have "?n mod 2 ^ 64 < unat a" using 3 assms unfolding m(1) prime_p_def by simp
    ultimately show ?thesis using m by (simp add: dprng_sum_mod_p_def Let_def lt minus_prime)
  qed
qed

lemma sum_mod_p_lt: "unat a < prime_p \<Longrightarrow> unat b < prime_p \<Longrightarrow> unat (dprng_sum_mod_p a b) < prime_p"
  by (simp add: unat_sum_mod_p prime_p_def)

lemma unat_mix_mod_p: "unat (dprng_mix_mod_p x) = unat (dprng_mix x) mod prime_p"
proof (cases "DPRNG_PRIME \<le> dprng_mix x")
  case True
  have "unat (dprng_mix x) < 2 ^ 64" using unsigned_less[of "dprng_mix x"] by simp
  then have "unat (dprng_mix x - DPRNG_PRIME) = unat (dprng_mix x) mod prime_p"
    using True by (simp add: unat_sub unat_prime word_le_nat_alt le_mod_geq prime_p_def)
  then show ?thesis using True by (simp add: dprng_mix_mod_p_def Let_def)
next
  case False
  then show ?thesis by (simp add: dprng_mix_mod_p_def Let_def word_le_nat_alt unat_prime)
qed

text \<open>Every step of the mixing function can be undone.\<close>

lemma odd_factor_zero:
  fixes x y :: "'a::len word"
  assumes "x * (2 * y + 1) = 0"
  shows "x = 0"
proof -
  let ?n = "2 ^ LENGTH('a) :: int"
  have dvd: "?n dvd k \<longleftrightarrow> word_of_int k = (0 :: 'a word)" for k by (rule word_of_int_eq_0_iff[symmetric])
  have "word_of_int (uint x * (2 * uint y + 1)) = (0 :: 'a word)" using assms by simp
  then have "?n dvd uint x * (2 * uint y + 1)" unfolding dvd .
  moreover have "coprime ?n (2 * uint y + 1)" by (simp add: coprime_left_2_iff_odd)
  ultimately have "?n dvd uint x" using coprime_dvd_mult_left_iff by blast
  then show ?thesis unfolding dvd by simp
qed

lemma mix_step_inj: "(x :: 'a::len word) * (2 * x + 1) = y * (2 * y + 1) \<Longrightarrow> x = y"
proof -
  assume e: "x * (2 * x + 1) = y * (2 * y + 1)"
  have "(x - y) * (2 * (x + y) + 1) = x * (2 * x + 1) - y * (2 * y + 1)" by (simp add: algebra_simps)
  then have "x - y = 0" using e by (intro odd_factor_zero[of "x - y" "x + y"]) simp
  then show ?thesis by simp
qed

lemma swap_halves_inv: "dprng_swap_halves (dprng_swap_halves x) = x"
proof (rule bit_word_eqI)
  fix n assume "n < LENGTH(64)"
  then show "bit (dprng_swap_halves (dprng_swap_halves x)) n = bit x n"
    by (cases "n < 32") (auto simp: dprng_swap_halves_def bit_simps)
qed

lemma mix_loop_inj: "dprng_mix_loop n x = dprng_mix_loop n y \<Longrightarrow> x = y"
  by (induction n arbitrary: x y) (simp, metis dprng_mix_loop.simps(2) mix_step_inj swap_halves_inv)


section \<open>Dot products follow pedigrees\<close>

text \<open>
  The pedigree of a strand is the list of the ranks at which its ancestors were entered, and its own
  rank.  \<open>ped_sum ms x ps\<close> is the dot product a frame with these entry ranks starts from: \<open>x\<close> and, for
  the ancestor at depth \<open>k\<close>, the coefficient of this depth once for each rank up to the next one.
\<close>

fun ped_sum :: "64 word list \<Rightarrow> 64 word \<Rightarrow> 64 word list \<Rightarrow> nat" where
  "ped_sum ms x ps = unat x + (\<Sum>k<length ps. (unat (ps ! k) + 1) * unat (ms ! k))"

declare ped_sum.simps [simp del]

definition ped_value :: "64 word list \<Rightarrow> 64 word \<Rightarrow> 64 word list \<Rightarrow> nat \<Rightarrow> nat" where
  "ped_value ms x ps r = (ped_sum ms x ps + r * unat (ms ! length ps)) mod prime_p"

lemma ped_sum_snoc: "ped_sum ms x (ps @ [r]) = ped_sum ms x ps + (unat r + 1) * unat (ms ! length ps)"
  by (simp add: ped_sum.simps nth_append)

definition coefficients_ok :: "ped_state \<Rightarrow> bool" where
  "coefficients_ok s \<longleftrightarrow> length (dprng_m_array s) = 4096 \<and> (\<forall>m \<in> set (dprng_m_array s). unat m < prime_p) \<and> unat (dprng_m_X s) < prime_p"

text \<open>A frame whose ancestors were entered at the ranks \<open>ps\<close>.\<close>

definition dot_ok :: "ped_state \<Rightarrow> 64 word list \<Rightarrow> ped_frame \<Rightarrow> bool" where
  "dot_ok s ps f \<longleftrightarrow> dprng_depth f = length ps \<and>
     unat (dprng_dotproduct f) = ped_value (dprng_m_array s) (dprng_m_X s) ps (unat (rank f))"

lemma dot_ok_lt: "dot_ok s ps f \<Longrightarrow> unat (dprng_dotproduct f) < prime_p"
  by (simp add: dot_ok_def ped_value_def prime_p_def)

lemma dot_ok_state: "dprng_m_array s' = dprng_m_array s \<Longrightarrow> dprng_m_X s' = dprng_m_X s \<Longrightarrow> dot_ok s' ps f = dot_ok s ps f"
  by (simp add: dot_ok_def)

lemma unat_succ:
  fixes r :: "64 word"
  assumes "r \<noteq> - 1"
  shows "unat (r + 1) = unat r + 1"
proof -
  have "unat (- 1 :: 64 word) = 2 ^ 64 - 1" by (simp add: unsigned_minus_1_eq_mask mask_eq_exp_minus_1)
  then have "unat r \<noteq> 2 ^ 64 - 1" using assms word_unat_eq_iff[of r "- 1"] by simp
  moreover have "unat r < 2 ^ 64" using unsigned_less[of r] by simp
  ultimately have "unat r + 1 < 2 ^ 64" by simp
  then show ?thesis by (simp add: unat_word_ariths)
qed

text \<open>One more rank adds one more coefficient.\<close>

lemma dot_ok_step:
  assumes s: "coefficients_ok s" "dot_ok s ps f" "length ps < 4096" "rank f \<noteq> - 1"
  shows "dot_ok s ps (f\<lparr>rank := rank f + 1, dprng_dotproduct := dprng_sum_mod_p (dprng_dotproduct f) (dprng_m_array s ! length ps)\<rparr>)"
proof -
  have m: "unat (dprng_m_array s ! length ps) < prime_p" using s(1,3) by (simp add: coefficients_ok_def)
  have r: "unat (rank f + 1) = unat (rank f) + 1" by (rule unat_succ[OF s(4)])
  show ?thesis
    using s(2) unat_sum_mod_p[OF dot_ok_lt[OF s(2)] m] r by (simp add: dot_ok_def ped_value_def mod_simps algebra_simps)
qed

lemma dot_ok_child:
  assumes "dot_ok s ps f" "0 < unat (rank f)" "r = rank f - 1"
  shows "unat (dprng_dotproduct f) = ped_value (dprng_m_array s) (dprng_m_X s) (ps @ [r]) 0"
proof -
  have "unat r + 1 = unat (rank f)" using assms(2,3) by (metis unat_minus_one Suc_eq_plus1 Suc_pred' unat_eq_zero less_irrefl)
  then show ?thesis using assms(1) by (simp add: dot_ok_def ped_value_def ped_sum_snoc)
qed


section \<open>Running the operations\<close>

lemma pf_run [simp]:
  "pframes s f = Some pf \<Longrightarrow> bindA (get_pf f) k s = k pf s"
  "pframes s f = Some pf \<Longrightarrow> thenA (upd_pf f g) n s = n (s\<lparr>pframes := (pframes s)(f \<mapsto> g pf)\<rparr>)"
  "pframes s f = Some pf \<Longrightarrow> upd_pf f g s = Inr ((), s\<lparr>pframes := (pframes s)(f \<mapsto> g pf)\<rparr>)"
  "i < length (dprng_m_array s) \<Longrightarrow> bindA (dprng_m i) k' s = k' (dprng_m_array s ! i) s"
  "current_sf s w = Some f \<Longrightarrow> bindA (current_frame (Some w)) k'' s = k'' f s"
  by (simp_all add: get_pf_def upd_pf_def dprng_m_def current_frame_def act_flat_run)

definition bumped :: "ped_state \<Rightarrow> ped_frame \<Rightarrow> ped_frame" where
  "bumped s p = p\<lparr>rank := rank p + 1, dprng_dotproduct := dprng_sum_mod_p (dprng_dotproduct p) (dprng_m_array s ! dprng_depth p)\<rparr>"

definition root_ped :: "ped_state \<Rightarrow> ped_frame \<Rightarrow> ped_frame" where
  "root_ped s f = f\<lparr>ped_rank := 0, ped_parent := None, dprng_depth := 0, dprng_dotproduct := dprng_m_X s, rank := 0\<rparr>"

definition child_ped :: "ped_state \<Rightarrow> addr \<Rightarrow> ped_frame \<Rightarrow> ped_frame \<Rightarrow> ped_frame" where
  "child_ped s p pf f = f\<lparr>ped_rank := rank pf, ped_parent := Some p, dprng_depth := dprng_depth pf + 1,
     dprng_dotproduct := dprng_dotproduct (bumped s pf), rank := 0\<rparr>"

lemma enter_root_run:
  assumes "pframes s sf = Some f" "cp = None \<or> is_last"
  shows "enter_pedigree sf cp is_last s = Inr ((), s\<lparr>pframes := (pframes s)(sf \<mapsto> root_ped s f)\<rparr>)"
  using assms by (cases cp) (auto simp: enter_pedigree_def root_ped_def act_flat_run)

lemma enter_child_run:
  assumes "pframes s sf = Some f" "pframes s p = Some pf" "sf \<noteq> p" "dprng_depth pf < length (dprng_m_array s)"
  shows "enter_pedigree sf (Some p) False s = Inr ((), s\<lparr>pframes := (pframes s)(p \<mapsto> bumped s pf, sf \<mapsto> child_ped s p pf f)\<rparr>)"
  using assms by (simp add: enter_pedigree_def bumped_def child_ped_def act_flat_run fun_upd_twist cong: run_cong)

lemma bump_run:
  assumes "current_sf s w = Some f" "pframes s f = Some pf" "dprng_depth pf < length (dprng_m_array s)"
  shows "bump_worker_rank (Some w) s = Inr ((), s\<lparr>pframes := (pframes s)(f \<mapsto> bumped s pf)\<rparr>)"
  using assms by (simp add: bump_worker_rank_def bumped_def act_flat_run)

lemma bump_run_inv:
  assumes "bump_worker_rank (Some w) s = Inr ((), s')"
  obtains f pf where "current_sf s w = Some f" "pframes s f = Some pf" "dprng_depth pf < length (dprng_m_array s)"
    "s' = s\<lparr>pframes := (pframes s)(f \<mapsto> bumped s pf)\<rparr>"
proof -
  obtain f where f: "current_sf s w = Some f"
    using assms by (cases "current_sf s w") (simp_all add: bump_worker_rank_def current_frame_def bindA_def thenA_def derefA_def)
  obtain pf where pf: "pframes s f = Some pf"
    using assms f by (cases "pframes s f") (simp_all add: bump_worker_rank_def act_flat_run current_frame_def upd_pf_def get_pf_def thenA_def bindA_def derefA_def)
  have d: "dprng_depth pf < length (dprng_m_array s)"
    using assms f pf by (cases "dprng_depth pf < length (dprng_m_array s)") (simp_all add: bump_worker_rank_def current_frame_def dprng_m_def get_pf_def upd_pf_def bindA_def thenA_def)
  show thesis using that[OF f pf d] assms bump_run[OF f pf d] by simp
qed

section \<open>All interleavings\<close>

text \<open>
  Steps of any number of workers on the tree of frames.  The ghost component gives the pedigree of
  every live frame: entering a frame extends the pedigree of its parent by the rank at which the parent was.
  The scheduler may change at any time which frame a worker runs.  Fewer than \<open>2 ^ 64\<close> ranks are used in
  one frame.
\<close>

inductive ped_step :: "ped_state \<times> (addr \<Rightarrow> 64 word list option) \<Rightarrow> ped_state \<times> (addr \<Rightarrow> 64 word list option) \<Rightarrow> bool" where
  enter_root: "G sf = None \<Longrightarrow> pframes s sf \<noteq> None \<Longrightarrow> cp = None \<or> is_last \<Longrightarrow> enter_pedigree sf cp is_last s = Inr ((), s') \<Longrightarrow>
    ped_step (s, G) (s', G(sf \<mapsto> []))"
| enter_child: "G sf = None \<Longrightarrow> pframes s sf \<noteq> None \<Longrightarrow> G p = Some ps \<Longrightarrow> pframes s p = Some pf \<Longrightarrow> rank pf \<noteq> - 1 \<Longrightarrow>
    length ps < 4096 \<Longrightarrow> enter_pedigree sf (Some p) False s = Inr ((), s') \<Longrightarrow> ped_step (s, G) (s', G(sf \<mapsto> ps @ [rank pf]))"
| bump: "current_sf s w = Some f \<Longrightarrow> pframes s f = Some pf \<Longrightarrow> rank pf \<noteq> - 1 \<Longrightarrow> bump_worker_rank (Some w) s = Inr ((), s') \<Longrightarrow>
    ped_step (s, G) (s', G)"
| leave: "ped_step (s, G) (s, G(f := None))"
| schedule: "ped_step (s, G) (s\<lparr>current_sf := c\<rparr>, G)"
| alloc: "G f = None \<Longrightarrow> ped_step (s, G) (s\<lparr>pframes := (pframes s)(f := x)\<rparr>, G)"

definition ped_inv :: "64 word list \<Rightarrow> 64 word \<Rightarrow> ped_state \<times> (addr \<Rightarrow> 64 word list option) \<Rightarrow> bool" where
  "ped_inv ms x = (\<lambda>(s, G). dprng_m_array s = ms \<and> dprng_m_X s = x \<and> coefficients_ok s \<and>
     (\<forall>f ps. G f = Some ps \<longrightarrow> (\<exists>pf. pframes s f = Some pf \<and> dot_ok s ps pf)))"

lemma bumped_ok:
  assumes "coefficients_ok s" "dot_ok s ps pf" "dprng_depth pf < length (dprng_m_array s)" "rank pf \<noteq> - 1"
  shows "dot_ok s ps (bumped s pf)"
  using dot_ok_step[OF assms(1,2) _ assms(4)] assms by (simp add: bumped_def dot_ok_def coefficients_ok_def)

lemma ped_inv_pframes:
  assumes "ped_inv ms x (s, G)" and "\<And>f ps. H f = Some ps \<Longrightarrow> \<exists>pf. F f = Some pf \<and> dot_ok s ps pf"
  shows "ped_inv ms x (s\<lparr>pframes := F\<rparr>, H)"
  using assms unfolding ped_inv_def by (auto simp: coefficients_ok_def dot_ok_def)

lemma ped_step_inv:
  assumes "ped_step (s, G) (s', G')" "ped_inv ms x (s, G)"
  shows "ped_inv ms x (s', G')"
proof -
  have s: "coefficients_ok s" "dprng_m_X s = x" "dprng_m_array s = ms" using assms(2) by (simp_all add: ped_inv_def)
  have live: "\<exists>pf. pframes s f = Some pf \<and> dot_ok s ps pf" if "G f = Some ps" for f ps using assms(2) that by (simp add: ped_inv_def)
  show ?thesis using assms(1)
  proof cases
    case (enter_root sf cp is_last)
    then obtain f where f: "pframes s sf = Some f" by auto
    have "dot_ok s [] (root_ped s f)" using s(1) by (simp add: dot_ok_def root_ped_def ped_value_def ped_sum.simps coefficients_ok_def)
    then show ?thesis using enter_root_run[OF f enter_root(4)] enter_root live
      by (auto intro!: ped_inv_pframes[OF assms(2)] split: if_splits)
  next
    case (enter_child sf p ps pf)
    then obtain f where f: "pframes s sf = Some f" by auto
    have ok: "dot_ok s ps pf" using live[OF enter_child(4)] enter_child(5) by simp
    have ne: "sf \<noteq> p" using enter_child(2,4) by auto
    have d: "dprng_depth pf < length (dprng_m_array s)" using ok enter_child(7) s(1) by (simp add: dot_ok_def coefficients_ok_def)
    have b: "dot_ok s ps (bumped s pf)" by (rule bumped_ok[OF s(1) ok d enter_child(6)])
    have "dot_ok s (ps @ [rank pf]) (child_ped s p pf f)"
      using dot_ok_child[OF b] unat_succ[OF enter_child(6)] ok by (simp add: dot_ok_def child_ped_def bumped_def)
    then show ?thesis using enter_child_run[OF f enter_child(5) ne d] enter_child live b
      by (auto intro!: ped_inv_pframes[OF assms(2)] split: if_splits)
  next
    case (bump w f pf)
    obtain f' pf' where b: "current_sf s w = Some f'" "pframes s f' = Some pf'" "dprng_depth pf' < length (dprng_m_array s)"
        "s' = s\<lparr>pframes := (pframes s)(f' \<mapsto> bumped s pf')\<rparr>" by (rule bump_run_inv[OF bump(5)])
    have "dot_ok s ps (bumped s pf')" if "G f' = Some ps" for ps
      using bumped_ok[OF s(1) _ b(3)] live[OF that] b(1,2) bump(2-4) by auto
    then show ?thesis using live unfolding b(4) bump(1) by (auto intro!: ped_inv_pframes[OF assms(2)] split: if_splits)
  next
    case (leave f)
    then show ?thesis using assms(2) by (auto simp: ped_inv_def)
  next
    case (schedule c)
    then show ?thesis using assms(2) by (auto simp: ped_inv_def coefficients_ok_def dot_ok_def)
  next
    case (alloc f z)
    then show ?thesis using live by (auto intro!: ped_inv_pframes[OF assms(2)])
  qed
qed


lemma ped_steps_inv: "ped_step\<^sup>*\<^sup>* a b \<Longrightarrow> ped_inv ms x a \<Longrightarrow> ped_inv ms x b"
proof (induction rule: rtranclp_induct)
  case (step y z)
  then show ?case using ped_step_inv[of "fst y" "snd y" "fst z" "snd z" ms x] by simp
qed

text \<open>The coefficients the generator starts from.\<close>

definition dprng_ms :: "64 word list" where
  "dprng_ms = map (\<lambda>i. dprng_mix_mod_p (0x8c679c168e6bf733 + of_nat i)) [0..<4096]"

definition dprng_X :: "64 word" where
  "dprng_X = dprng_mix_mod_p (0x8c679c168e6bf733 + 4096)"

lemma init_dprng_inv: "init_dprng s = Inr ((), s0) \<Longrightarrow> ped_inv dprng_ms dprng_X (s0, \<lambda>_. None)"
  by (auto simp: init_dprng_def ped_inv_def coefficients_ok_def dprng_ms_def dprng_X_def unat_mix_mod_p prime_p_def)

section \<open>Properties\<close>

text \<open>
  Random numbers follow the pedigree (C22): start the generator and let any number of workers enter frames,
  bump ranks, leave frames and exchange frames in any order.  A call of \<open>__cilkrts_get_dprand\<close> in a frame
  whose ancestors were entered at the ranks \<open>ps\<close>, and which is at rank \<open>r\<close>, gives the mix of a number
  that depends on \<open>ps\<close> and \<open>r\<close> only: neither the schedule nor the worker matters.
\<close>

theorem dprand_deterministic:
  assumes "init_dprng i = Inr ((), s0)" "ped_step\<^sup>*\<^sup>* (s0, \<lambda>_. None) (s, G)"
    and "current_sf s w = Some f" "G f = Some ps" "pframes s f = Some pf" "rank pf \<noteq> - 1" "length ps < 4096"
  shows "\<exists>v s'. get_dprand (Some w) s = Inr (v, s') \<and>
    unat v = unat (dprng_mix (of_nat (ped_value dprng_ms dprng_X ps (unat (rank pf) + 1)))) mod prime_p"
proof -
  have inv: "ped_inv dprng_ms dprng_X (s, G)" by (rule ped_steps_inv[OF assms(2) init_dprng_inv[OF assms(1)]])
  then have s: "coefficients_ok s" "dprng_m_X s = dprng_X" "dprng_m_array s = dprng_ms" 
    by (simp_all add: ped_inv_def)
  have "\<exists>pf. pframes s f = Some pf \<and> dot_ok s ps pf" using inv assms(4) by (simp add: ped_inv_def)
  then have ok: "dot_ok s ps pf" using assms(5) by simp
  have d: "dprng_depth pf < length (dprng_m_array s)" using ok assms(7) s(1) by (simp add: dot_ok_def coefficients_ok_def)
  have b: "dot_ok s ps (bumped s pf)" by (rule bumped_ok[OF s(1) ok d assms(6)])
  let ?s' = "s\<lparr>pframes := (pframes s)(f \<mapsto> bumped s pf)\<rparr>"
  have "get_dprand (Some w) s = Inr (dprng_mix_mod_p (dprng_dotproduct (bumped s pf)), ?s')"
    using bump_run[OF assms(3,5) d] assms(3) by (simp add: get_dprand_def run_thenA_Inr)
  moreover have "unat (dprng_dotproduct (bumped s pf)) = ped_value dprng_ms dprng_X ps (unat (rank pf) + 1)"
    using b s unat_succ[OF assms(6)] by (auto simp: dot_ok_def bumped_def)
  then have "of_nat (unat (dprng_dotproduct (bumped s pf))) = (of_nat (ped_value dprng_ms dprng_X ps (unat (rank pf) + 1)) :: 64 word)"
    by (simp only:)
  then have "dprng_dotproduct (bumped s pf) = of_nat (ped_value dprng_ms dprng_X ps (unat (rank pf) + 1))" by simp
  ultimately show ?thesis by (simp add: unat_mix_mod_p)
qed

text \<open>One frame, entered as the root by worker 0.\<close>

definition ped_ex :: ped_state where
  "ped_ex = \<lparr>pframes = [1 \<mapsto> \<lparr>ped_rank = 5, ped_parent = Some 3, rank = 2, dprng_dotproduct = 7, dprng_depth = 9\<rparr>],
     current_sf = [0 \<mapsto> 1], root_rank = 0, dprng_m_array = [], dprng_m_X = 0\<rparr>"

theorem dprand_deterministic_witness:
  "\<exists>s v s'. get_dprand (Some 0) s = Inr (v, s') \<and>
     unat v = unat (dprng_mix (of_nat (ped_value dprng_ms dprng_X [] 1))) mod prime_p"
proof -
  let ?a = "ped_ex\<lparr>dprng_m_array := dprng_ms, dprng_m_X := dprng_X\<rparr>"
  let ?f = "\<lparr>ped_rank = 5, ped_parent = Some 3, rank = 2, dprng_dotproduct = 7, dprng_depth = 9\<rparr>"
  let ?s = "?a\<lparr>pframes := (pframes ?a)(1 \<mapsto> root_ped ?a ?f)\<rparr>"
  have i: "init_dprng ped_ex = Inr ((), ?a)" by (simp add: init_dprng_def dprng_ms_def dprng_X_def)
  have f: "pframes ?a 1 = Some ?f" by (simp add: ped_ex_def)
  have "ped_step (?a, \<lambda>_. None) (?s, (\<lambda>_. None)(1 \<mapsto> []))"
    by (rule ped_step.enter_root[OF _ _ _ enter_root_run[OF f, of None False]]) (simp_all add: ped_ex_def)
  then have "ped_step\<^sup>*\<^sup>* (?a, \<lambda>_. None) (?s, (\<lambda>_. None)(1 \<mapsto> []))" by (rule r_into_rtranclp)
  from dprand_deterministic[OF i this, of 0 1 "[]" "root_ped ?a ?f"]
  show ?thesis by (simp add: ped_ex_def root_ped_def) blast
qed

text \<open>
  The arithmetic of the generator (C23): on residues, \<open>__cilkrts_dprng_sum_mod_p\<close> is addition modulo the
  prime \<open>2 ^ 64 - 59\<close> although the 64-bit sum may wrap around; the mixing function is a permutation of the
  64-bit words, and \<open>__cilkrts_dprng_mix_mod_p\<close> is this permutation modulo the prime, again a residue.
\<close>

theorem dprng_arithmetic:
  "(unat a < prime_p \<and> unat b < prime_p \<longrightarrow> unat (dprng_sum_mod_p a b) = (unat a + unat b) mod prime_p) \<and> bij dprng_mix \<and>
    unat (dprng_mix_mod_p x) = unat (dprng_mix x) mod prime_p"
proof (intro conjI impI)
  have "inj dprng_mix" by (rule injI) (simp add: dprng_mix_def mix_loop_inj)
  then show "bij dprng_mix" by (simp add: bij_def finite_UNIV_inj_surj)
qed (simp_all add: unat_sum_mod_p unat_mix_mod_p)

theorem dprng_arithmetic_witness:
  "unat (dprng_sum_mod_p (DPRNG_PRIME - 1) 5) = 4"
proof -
  have "unat (DPRNG_PRIME - 1) = prime_p - 1" by (simp add: DPRNG_PRIME_def prime_p_def)
  then show ?thesis using dprng_arithmetic[of "DPRNG_PRIME - 1" 5 0] by (simp add: prime_p_def)
qed

end
