(* ===== verification/Reducer_Map.thy ===== *)
theory Reducer_Map
  imports Fiber
begin

text \<open>
  Reducer maps (runtime/cilkred_map.c, cilkred_map.h) and their merge (the end of
  runtime/reducer_impl.c).  A map is a sparse array of views indexed by reducer id, with a log of
  the ids in use that is kept while it is short.

  The monoid of a hyperobject is code of the user: \<open>reduce_fn\<close> and \<open>identity_fn\<close> are fields
  of the hyperobject in the model as they are in the source, arbitrary functions on a type
  \<open>'v\<close> of view contents.  A view is owned by one map entry, so the model stores the content of the
  view where the code stores its address.  The calls of \<open>destroy_fn\<close> and \<open>deallocate_fn\<close> are
  recorded, newest first, in \<open>cleared\<close>.
\<close>

section \<open>Data\<close>

record 'v hyperobject =
  reduce_fn :: "'v \<Rightarrow> 'v \<Rightarrow> 'v"
  identity_fn :: 'v
  id_num :: "32 word"
  leftmost_view :: 'v

record 'v ViewInfo =
  vi_val :: "'v option"
  vi_key :: "addr option"

record 'v cilkred_map =
  spa_cap :: nat
  num_of_vinfo :: nat
  num_of_logs :: nat
  merging :: bool
  rlog :: "nat list"
  vinfo :: "'v ViewInfo list"

datatype merge_kind = MERGE_UNORDERED | MERGE_INTO_LEFT | MERGE_INTO_RIGHT

record 'v red_state = fiber_state +
  rmaps :: "addr \<Rightarrow> 'v cilkred_map option"
  hyperobjs :: "addr \<Rightarrow> 'v hyperobject option"
  cleared_views :: "(addr \<times> 'v option) list"
  wrmap :: "worker_id \<Rightarrow> addr option"

definition HYPER_ID_VALID :: "32 word" where "HYPER_ID_VALID = 0x80000000"

text \<open>\<open>sizeof(struct cilkred_map)\<close>.\<close>

definition SIZEOF_RMAP :: nat where "SIZEOF_RMAP = 32"

definition empty_view :: "'v ViewInfo" where
  "empty_view = \<lparr>vi_val = None, vi_key = None\<rparr>"

section \<open>Operations on one map\<close>

definition cilkred_map_log_id :: "'v cilkred_map \<Rightarrow> nat \<Rightarrow> fault + 'v cilkred_map" where
  "cilkred_map_log_id m i =
     (if \<not> num_of_logs m \<le> spa_cap m div 2 + 1 then Inl (Assertion Cilkred_map_c 41)
      else if \<not> num_of_vinfo m \<le> spa_cap m then Inl (Assertion Cilkred_map_c 42)
      else if num_of_vinfo m = spa_cap m then Inl (Bug Cilkred_map_c 45)
      else
        (let m' = (if num_of_logs m < spa_cap m div 2
                   then m\<lparr>rlog := (rlog m)[num_of_logs m := i], num_of_logs := num_of_logs m + 1\<rparr>
                   else if num_of_logs m = spa_cap m div 2
                   then m\<lparr>num_of_logs := num_of_logs m + 1\<rparr>
                   else m)
         in Inr (m'\<lparr>num_of_vinfo := num_of_vinfo m' + 1\<rparr>)))"

definition cilkred_map_unlog_id :: "'v cilkred_map \<Rightarrow> nat \<Rightarrow> fault + 'v cilkred_map" where
  "cilkred_map_unlog_id m i =
     (if \<not> num_of_logs m \<le> spa_cap m div 2 + 1 then Inl (Assertion Cilkred_map_c 60)
      else if \<not> num_of_vinfo m \<le> spa_cap m then Inl (Assertion Cilkred_map_c 61)
      else if \<not> i < spa_cap m then Inl (Assertion Cilkred_map_c 62)
      else
        (let m' = m\<lparr>vinfo := (vinfo m)[i := empty_view],
                    num_of_vinfo := (num_of_vinfo m + (2 ^ 32 - 1)) mod 2 ^ 32\<rparr>
         in Inr (if num_of_vinfo m' = 0 then m'\<lparr>num_of_logs := 0\<rparr> else m')))"

text \<open>The index of the entry that \<open>cilkred_map_lookup\<close> points to, \<open>None\<close> for \<open>NULL\<close>.\<close>

definition cilkred_map_lookup :: "'v cilkred_map \<Rightarrow> 32 word \<Rightarrow> nat option" where
  "cilkred_map_lookup m key_id =
     (if key_id AND HYPER_ID_VALID = 0 then None
      else
        (let i = unat (key_id AND NOT HYPER_ID_VALID) in
         if spa_cap m \<le> i then None
         else if vi_key (vinfo m ! i) = None \<and> vi_val (vinfo m ! i) = None then None
         else Some i))"

definition make_map :: "nat \<Rightarrow> 'v cilkred_map" where
  "make_map sz = \<lparr>spa_cap = sz, num_of_vinfo = 0, num_of_logs = 0, merging = False,
     rlog = replicate (sz div 2) 0, vinfo = replicate sz empty_view\<rparr>"

definition cilkred_map_is_empty :: "'v cilkred_map \<Rightarrow> bool" where
  "cilkred_map_is_empty m \<longleftrightarrow> num_of_vinfo m = 0"

definition cilkred_map_num_views :: "'v cilkred_map \<Rightarrow> nat" where
  "cilkred_map_num_views m = num_of_vinfo m"

definition cilkred_map_is_leftmost :: "'v cilkred_map \<Rightarrow> bool" where
  "cilkred_map_is_leftmost m = False"

definition cilkred_map_make_map :: "worker_id \<Rightarrow> nat \<Rightarrow> (('v, 'a) red_state_scheme, addr) act" where
  "cilkred_map_make_map w sz =
     thenA (check (\<lambda>_. 0 < sz \<and> sz < 2 ^ 32) (Assertion Cilkred_map_c 103))
    (bindA (cilk_internal_malloc w SIZEOF_RMAP IM_REDUCER_MAP) (\<lambda>h.
     thenA (modify (\<lambda>s. s\<lparr>rmaps := (rmaps s)(h \<mapsto> make_map sz)\<rparr>))
           (ret h)))"

definition cilkred_map_destroy_map :: "worker_id \<Rightarrow> addr option \<Rightarrow> (('v, 'a) red_state_scheme, unit) act" where
  "cilkred_map_destroy_map w p =
     (case p of
        None \<Rightarrow> ret ()
      | Some h \<Rightarrow>
          thenA (modify (\<lambda>s. s\<lparr>rmaps := (rmaps s)(h := None)\<rparr>))
                (cilk_internal_free w h SIZEOF_RMAP IM_REDUCER_MAP))"

section \<open>Merging\<close>

text \<open>The two maps of a merge and the views cleared so far.\<close>

record 'v merge_state =
  this_map :: "'v cilkred_map"
  other_map :: "'v cilkred_map"
  cleared :: "(addr \<times> 'v option) list"

definition upd_view :: "nat \<Rightarrow> 'v ViewInfo \<Rightarrow> 'v cilkred_map \<Rightarrow> 'v cilkred_map" where
  "upd_view i v m = m\<lparr>vinfo := (vinfo m)[i := v]\<rparr>"

definition swap_views :: "nat \<Rightarrow> 'v merge_state \<Rightarrow> 'v merge_state" where
  "swap_views i ms = ms\<lparr>this_map := upd_view i (vinfo (other_map ms) ! i) (this_map ms),
                         other_map := upd_view i (vinfo (this_map ms) ! i) (other_map ms)\<rparr>"

definition swap_vals :: "nat \<Rightarrow> 'v merge_state \<Rightarrow> 'v merge_state" where
  "swap_vals i ms =
     (let t = vinfo (this_map ms) ! i; q = vinfo (other_map ms) ! i
      in ms\<lparr>this_map := upd_view i (t\<lparr>vi_val := vi_val q\<rparr>) (this_map ms),
            other_map := upd_view i (q\<lparr>vi_val := vi_val t\<rparr>) (other_map ms)\<rparr>)"

definition clear_view :: "nat \<Rightarrow> 'v merge_state \<Rightarrow> 'v merge_state" where
  "clear_view i ms =
     (let v = vinfo (other_map ms) ! i
      in ms\<lparr>cleared := (case vi_key v of Some k \<Rightarrow> (k, vi_val v) # cleared ms | None \<Rightarrow> cleared ms),
            other_map := upd_view i empty_view (other_map ms)\<rparr>)"

text \<open>\<open>key->__c_monoid.reduce_fn(key, this.val, other.val)\<close>, which updates the left view in place.\<close>

definition reduce_view :: "(addr \<Rightarrow> 'v hyperobject option) \<Rightarrow> addr \<Rightarrow> nat \<Rightarrow> ('v merge_state, unit) act" where
  "reduce_view H key i =
     bindA (derefA (H key)) (\<lambda>h.
     bindA (gets (\<lambda>ms. vi_val (vinfo (this_map ms) ! i))) (\<lambda>lp.
     bindA (derefA lp) (\<lambda>l.
     bindA (gets (\<lambda>ms. vi_val (vinfo (other_map ms) ! i))) (\<lambda>rp.
     bindA (derefA rp) (\<lambda>r.
     modify (\<lambda>ms. ms\<lparr>this_map := upd_view i
        ((vinfo (this_map ms) ! i)\<lparr>vi_val := Some (reduce_fn h l r)\<rparr>) (this_map ms)\<rparr>))))))"

definition log_this :: "nat \<Rightarrow> ('v merge_state, unit) act" where
  "log_this i ms = (case cilkred_map_log_id (this_map ms) i of
     Inl e \<Rightarrow> Inl e | Inr m \<Rightarrow> Inr ((), ms\<lparr>this_map := m\<rparr>))"

text \<open>The body of either loop of \<open>cilkred_map_merge\<close> at index \<open>i\<close>; \<open>ln\<close> and \<open>ln'\<close> are the lines
  of its two assertions.\<close>

definition merge_view :: "(addr \<Rightarrow> 'v hyperobject option) \<Rightarrow> merge_kind \<Rightarrow> nat \<Rightarrow> nat \<Rightarrow> nat \<Rightarrow> ('v merge_state, unit) act" where
  "merge_view H kind ln ln' i =
     thenA (check (\<lambda>ms. i < length (vinfo (this_map ms)) \<and> i < length (vinfo (other_map ms))) Out_of_bounds)
    (bindA (gets (\<lambda>ms. (vinfo (this_map ms) ! i, vi_key (vinfo (other_map ms) ! i)))) (\<lambda>(t, key).
     if vi_key t \<noteq> None then
       thenA (check (\<lambda>_. key = vi_key t) (Assertion Cilkred_map_c ln))
      (thenA (whenA (kind = MERGE_INTO_RIGHT) (modify (swap_vals i)))
      (bindA (derefA key) (\<lambda>k.
       thenA (reduce_view H k i)
             (modify (clear_view i)))))
     else
       thenA (check (\<lambda>_. vi_val t = None) (Assertion Cilkred_map_c ln'))
      (thenA (modify (swap_views i))
             (log_this i))))"

definition merge_by_log :: "(addr \<Rightarrow> 'v hyperobject option) \<Rightarrow> merge_kind \<Rightarrow> ('v merge_state, unit) act" where
  "merge_by_log H kind =
     bindA (gets (\<lambda>ms. take (num_of_logs (other_map ms)) (rlog (other_map ms)))) (\<lambda>is.
     forA is (merge_view H kind 174 184))"

definition merge_by_scan :: "(addr \<Rightarrow> 'v hyperobject option) \<Rightarrow> merge_kind \<Rightarrow> ('v merge_state, unit) act" where
  "merge_by_scan H kind =
     bindA (gets (\<lambda>ms. [0..<spa_cap (other_map ms)])) (\<lambda>is.
     forA is (\<lambda>i.
       bindA (gets (\<lambda>ms. vi_key (vinfo (other_map ms) ! i))) (\<lambda>key.
       whenA (key \<noteq> None) (merge_view H kind 197 206 i))))"

definition merge_maps :: "(addr \<Rightarrow> 'v hyperobject option) \<Rightarrow> merge_kind \<Rightarrow> ('v merge_state, unit) act" where
  "merge_maps H kind =
     thenA (modify (\<lambda>ms. ms\<lparr>this_map := (this_map ms)\<lparr>merging := True\<rparr>, other_map := (other_map ms)\<lparr>merging := True\<rparr>\<rparr>))
    (bindA (gets other_map) (\<lambda>q.
     if num_of_vinfo q = 0 then ret ()
     else
       thenA (if num_of_logs q \<le> spa_cap q div 2 then merge_by_log H kind else merge_by_scan H kind)
             (modify (\<lambda>ms. ms\<lparr>
                this_map := (this_map ms)\<lparr>merging := False\<rparr>,
                other_map := (other_map ms)\<lparr>num_of_vinfo := 0, num_of_logs := 0, merging := False\<rparr>\<rparr>))))"

text \<open>The merge on the heap of maps: \<open>other\<close> is freed at the end of either exit.\<close>

definition cilkred_map_merge :: "addr \<Rightarrow> worker_id \<Rightarrow> addr \<Rightarrow> merge_kind \<Rightarrow> (('v, 'a) red_state_scheme, unit) act" where
  "cilkred_map_merge this w other kind =
     bindA (gets (\<lambda>s. rmaps s this)) (\<lambda>tp. bindA (derefA tp) (\<lambda>tm.
     bindA (gets (\<lambda>s. rmaps s other)) (\<lambda>qp. bindA (derefA qp) (\<lambda>qm.
     bindA (gets hyperobjs) (\<lambda>H.
       case merge_maps H kind \<lparr>this_map = tm, other_map = qm, cleared = []\<rparr> of
         Inl e \<Rightarrow> fail e
       | Inr (_, ms) \<Rightarrow>
           thenA (modify (\<lambda>s. s\<lparr>rmaps := (rmaps s)(this \<mapsto> this_map ms, other \<mapsto> other_map ms),
                                cleared_views := cleared ms @ cleared_views s\<rparr>))
                 (cilkred_map_destroy_map w (Some other)))))))"

definition merge_two_rmaps :: "worker_id \<Rightarrow> addr option \<Rightarrow> addr option \<Rightarrow> (('v, 'a) red_state_scheme, addr option) act" where
  "merge_two_rmaps w left right =
     (case left of
        None \<Rightarrow> ret right
      | Some l \<Rightarrow>
         (case right of
            None \<Rightarrow> ret left
          | Some r \<Rightarrow>
              bindA (gets (\<lambda>s. rmaps s l)) (\<lambda>lp. bindA (derefA lp) (\<lambda>lm.
              bindA (gets (\<lambda>s. rmaps s r)) (\<lambda>rp. bindA (derefA rp) (\<lambda>rm.
                if cilkred_map_is_leftmost lm \<or> cilkred_map_num_views rm < cilkred_map_num_views lm
                then thenA (cilkred_map_merge l w r MERGE_INTO_LEFT) (ret left)
                else thenA (cilkred_map_merge r w l MERGE_INTO_RIGHT) (ret right)))))))"

end
