(* ===== verification/Sched_State.thy ===== *)
theory Sched_State
  imports Reducer_Map
begin

text \<open>
  The scheduler's data: stack frames and their flag word (runtime/cilk-internal.h), closures
  (runtime/closure.h), ready deques (runtime/readydeque.h), workers (runtime/cilk-internal.h and
  local.h) and the parts of \<open>struct global_state\<close> (runtime/global.h) the scheduler uses, as the
  extension \<open>sched_state\<close> of the reducer state.

  Closures and frames live in heaps indexed by address, \<open>NULL\<close> is \<open>None\<close>, and following a pointer
  to nothing is the fault \<open>Null_pointer\<close>.  A shadow stack is a list of frame pointers; \<open>head\<close>,
  \<open>tail\<close> and \<open>exc\<close> are indices into it, integers because the victim's pop can move \<open>tail\<close> below the
  start of the array.  A worker is its number, and the code of a handler run by worker \<open>w\<close> is an
  action with argument \<open>w\<close>: the assertions \<open>w == __cilkrts_get_tls_worker()\<close> hold by construction.
  Exceptions are opaque numbers; deleting one is recorded in \<open>deleted_exns\<close>.
\<close>

section \<open>Frame flags\<close>

definition CILK_FRAME_STOLEN :: "32 word" where "CILK_FRAME_STOLEN = 0x001"
definition CILK_FRAME_UNSYNCHED :: "32 word" where "CILK_FRAME_UNSYNCHED = 0x002"
definition CILK_FRAME_DETACHED :: "32 word" where "CILK_FRAME_DETACHED = 0x004"
definition CILK_FRAME_EXCEPTION_PENDING :: "32 word" where "CILK_FRAME_EXCEPTION_PENDING = 0x008"
definition CILK_FRAME_EXCEPTING :: "32 word" where "CILK_FRAME_EXCEPTING = 0x010"
definition CILK_FRAME_LAST :: "32 word" where "CILK_FRAME_LAST = 0x080"
definition CILK_FRAME_EXITING :: "32 word" where "CILK_FRAME_EXITING = 0x100"
definition CILK_FRAME_SYNC_READY :: "32 word" where "CILK_FRAME_SYNC_READY = 0x200"

lemmas flag_defs = CILK_FRAME_STOLEN_def CILK_FRAME_UNSYNCHED_def CILK_FRAME_DETACHED_def
  CILK_FRAME_EXCEPTION_PENDING_def CILK_FRAME_EXCEPTING_def CILK_FRAME_LAST_def
  CILK_FRAME_EXITING_def CILK_FRAME_SYNC_READY_def

text \<open>The \<open>worker\<close> field of a frame: a worker, \<open>NULL\<close>, or one of the two odd filler addresses
  written into the frames of suspended closures.\<close>

datatype frame_worker = W worker_id | No_worker | Filler_bf5 | Filler_bf4

definition is_filler :: "frame_worker \<Rightarrow> bool" where
  "is_filler fw \<longleftrightarrow> fw = Filler_bf5 \<or> fw = Filler_bf4"

record stack_frame =
  flags :: "32 word"
  magic :: "32 word"
  sf_call_parent :: "addr option"
  sf_worker :: frame_worker
  SP :: "addr option"
  FP :: "addr option"

text \<open>\<open>frame_magic\<close>: the ABI version and the offsets of the fields in the layout of this build.\<close>

definition frame_magic :: "32 word" where
  "frame_magic = (((((3 * 13 + 16) * 13 + 24) * 13 + 4) * 13 + 0) * 13 + 8) * 13 + 64"

definition cilkrts_set_stolen :: "stack_frame \<Rightarrow> stack_frame" where
  "cilkrts_set_stolen sf = sf\<lparr>flags := flags sf OR CILK_FRAME_STOLEN\<rparr>"

definition cilkrts_set_unsynced :: "stack_frame \<Rightarrow> stack_frame" where
  "cilkrts_set_unsynced sf = sf\<lparr>flags := flags sf OR CILK_FRAME_UNSYNCHED\<rparr>"

definition cilkrts_set_synced :: "stack_frame \<Rightarrow> stack_frame" where
  "cilkrts_set_synced sf = sf\<lparr>flags := flags sf AND NOT CILK_FRAME_UNSYNCHED\<rparr>"

definition cilkrts_unsynced :: "stack_frame \<Rightarrow> bool" where
  "cilkrts_unsynced sf \<longleftrightarrow> flags sf AND CILK_FRAME_UNSYNCHED \<noteq> 0"

definition cilkrts_stolen :: "stack_frame \<Rightarrow> bool" where
  "cilkrts_stolen sf \<longleftrightarrow> flags sf AND CILK_FRAME_STOLEN \<noteq> 0"

definition cilkrts_synced :: "stack_frame \<Rightarrow> bool" where
  "cilkrts_synced sf \<longleftrightarrow> flags sf AND CILK_FRAME_UNSYNCHED = 0"

definition cilkrts_not_stolen :: "stack_frame \<Rightarrow> bool" where
  "cilkrts_not_stolen sf \<longleftrightarrow> flags sf AND CILK_FRAME_STOLEN = 0"

section \<open>Closures, deques and workers\<close>

datatype closure_status =
    CLOSURE_RUNNING | CLOSURE_SUSPENDED | CLOSURE_RETURNING | CLOSURE_READY
  | CLOSURE_PRE_INVALID | CLOSURE_POST_INVALID

record closure =
  cl_mutex :: cilk_mutex
  frame :: "addr option"
  fiber :: "addr option"
  fiber_child :: "addr option"
  owner_ready_deque :: worker_id
  mutex_owner :: worker_id
  status :: closure_status
  has_cilk_callee :: bool
  lock_wait :: bool
  simulated_stolen :: bool
  join_counter :: nat
  orig_rsp :: "addr option"
  callee :: "addr option"
  call_parent :: "addr option"
  spawn_parent :: "addr option"
  left_sib :: "addr option"
  right_sib :: "addr option"
  right_most_child :: "addr option"
  next_ready :: "addr option"
  prev_ready :: "addr option"
  right_exn :: "nat option"
  child_exn :: "nat option"
  user_exn :: "nat option"
  reraise_cfa :: "addr option"
  parent_rsp :: "addr option"
  saved_throwing_fiber :: "addr option"
  right_rmap :: "addr option"
  child_rmap :: "addr option"
  user_rmap :: "addr option"

record ready_deque =
  dq_mutex :: cilk_mutex
  top :: "addr option"
  bottom :: "addr option"
  dq_owner :: worker_id

datatype worker_state = WORKER_IDLE | WORKER_SCHED | WORKER_STEAL | WORKER_RUN

record worker =
  tail :: int
  head :: int
  exc :: int
  ltq_limit :: int
  shadow_stack :: "addr option list"
  current_stack_frame :: "addr option"
  w_state :: worker_state
  l_lock_wait :: bool
  provably_good_steal :: bool
  rand_next :: "32 word"
  fiber_to_free :: "addr option"

text \<open>\<open>EXCEPTION_INFINITY\<close>, the largest address, lies beyond every shadow stack.\<close>

definition EXCEPTION_INFINITY :: int where "EXCEPTION_INFINITY = 2 ^ 64 - 1"

record 'v sched_state = "'v red_state" +
  closures :: "addr \<Rightarrow> closure option"
  frames :: "addr \<Rightarrow> stack_frame option"
  deques :: "worker_id \<Rightarrow> ready_deque"
  workers :: "worker_id \<Rightarrow> worker"
  nworkers :: nat
  root_closure :: "addr option"
  root_closure_initialized :: bool
  g_done :: bool
  deleted_exns :: "nat list"

text \<open>\<open>sizeof(Closure)\<close> in the layout of this build.\<close>

definition SIZEOF_CLOSURE :: nat where "SIZEOF_CLOSURE = 192"

definition Closure_init :: closure where
  "Closure_init = \<lparr>cl_mutex = cilk_mutex_init, frame = None, fiber = None, fiber_child = None,
     owner_ready_deque = NO_WORKER, mutex_owner = NO_WORKER, status = CLOSURE_PRE_INVALID,
     has_cilk_callee = False, lock_wait = False, simulated_stolen = False, join_counter = 0, orig_rsp = None,
     callee = None, call_parent = None, spawn_parent = None, left_sib = None, right_sib = None,
     right_most_child = None, next_ready = None, prev_ready = None, right_exn = None, child_exn = None,
     user_exn = None, reraise_cfa = None, parent_rsp = None, saved_throwing_fiber = None,
     right_rmap = None, child_rmap = None, user_rmap = None\<rparr>"

section \<open>Access through pointers\<close>

definition get_cl :: "addr \<Rightarrow> (('v, 'a) sched_state_scheme, closure) act" where
  "get_cl c s = (case closures s c of None \<Rightarrow> Inl Null_pointer | Some cl \<Rightarrow> Inr (cl, s))"

definition upd_cl :: "addr \<Rightarrow> (closure \<Rightarrow> closure) \<Rightarrow> (('v, 'a) sched_state_scheme, unit) act" where
  "upd_cl c f s = (case closures s c of
     None \<Rightarrow> Inl Null_pointer | Some cl \<Rightarrow> Inr ((), s\<lparr>closures := (closures s)(c \<mapsto> f cl)\<rparr>))"

definition get_sf :: "addr option \<Rightarrow> (('v, 'a) sched_state_scheme, stack_frame) act" where
  "get_sf p = bindA (derefA p) (\<lambda>f. bindA (gets (\<lambda>s. frames s f)) derefA)"

definition upd_sf :: "addr option \<Rightarrow> (stack_frame \<Rightarrow> stack_frame) \<Rightarrow> (('v, 'a) sched_state_scheme, unit) act" where
  "upd_sf p f = bindA (derefA p) (\<lambda>a. bindA (get_sf p) (\<lambda>sf. modify (\<lambda>s. s\<lparr>frames := (frames s)(a \<mapsto> f sf)\<rparr>)))"

definition get_w :: "worker_id \<Rightarrow> (('v, 'a) sched_state_scheme, worker) act" where
  "get_w w = gets (\<lambda>s. workers s w)"

definition upd_w :: "worker_id \<Rightarrow> (worker \<Rightarrow> worker) \<Rightarrow> (('v, 'a) sched_state_scheme, unit) act" where
  "upd_w w f = modify (\<lambda>s. s\<lparr>workers := (workers s)(w := f (workers s w))\<rparr>)"

definition get_dq :: "worker_id \<Rightarrow> (('v, 'a) sched_state_scheme, ready_deque) act" where
  "get_dq pn = gets (\<lambda>s. deques s pn)"

definition upd_dq :: "worker_id \<Rightarrow> (ready_deque \<Rightarrow> ready_deque) \<Rightarrow> (('v, 'a) sched_state_scheme, unit) act" where
  "upd_dq pn f = modify (\<lambda>s. s\<lparr>deques := (deques s)(pn := f (deques s pn))\<rparr>)"

text \<open>An assertion on values already read.\<close>

abbreviation assertA :: "bool \<Rightarrow> srcfile \<Rightarrow> nat \<Rightarrow> ('s, unit) act" where
  "assertA b f n \<equiv> check (\<lambda>_. b) (Assertion f n)"

lemma run_access:
  "get_cl c s = (case closures s c of None \<Rightarrow> Inl Null_pointer | Some cl \<Rightarrow> Inr (cl, s))"
  "upd_cl c f s = (case closures s c of
     None \<Rightarrow> Inl Null_pointer | Some cl \<Rightarrow> Inr ((), s\<lparr>closures := (closures s)(c \<mapsto> f cl)\<rparr>))"
  by (simp_all add: get_cl_def upd_cl_def)

lemma run_access_simps [simp]:
  "get_w w s = Inr (workers s w, s)"
  "upd_w w g s = Inr ((), s\<lparr>workers := (workers s)(w := g (workers s w))\<rparr>)"
  "get_dq pn s = Inr (deques s pn, s)"
  "upd_dq pn h s = Inr ((), s\<lparr>deques := (deques s)(pn := h (deques s pn))\<rparr>)"
  by (simp_all add: get_w_def upd_w_def get_dq_def upd_dq_def)

lemma run_cl_Some [simp]:
  "closures s c = Some cl \<Longrightarrow> get_cl c s = Inr (cl, s)"
  "closures s c = Some cl \<Longrightarrow> upd_cl c f s = Inr ((), s\<lparr>closures := (closures s)(c \<mapsto> f cl)\<rparr>)"
  by (simp_all add: get_cl_def upd_cl_def)

lemma run_sf_Some [simp]:
  "frames s f = Some sf \<Longrightarrow> get_sf (Some f) s = Inr (sf, s)"
  "frames s f = Some sf \<Longrightarrow> upd_sf (Some f) g s = Inr ((), s\<lparr>frames := (frames s)(f \<mapsto> g sf)\<rparr>)"
  by (simp_all add: get_sf_def upd_sf_def bindA_def)

lemma run_bind_access [simp]:
  "bindA (get_w w) k s = k (workers s w) s"
  "thenA (upd_w w g) n s = n (s\<lparr>workers := (workers s)(w := g (workers s w))\<rparr>)"
  "bindA (get_dq pn) l s = l (deques s pn) s"
  "thenA (upd_dq pn h) n s = n (s\<lparr>deques := (deques s)(pn := h (deques s pn))\<rparr>)"
  by (simp_all add: bindA_def thenA_def)

lemma run_bind_cl [simp]:
  "closures s c = Some cl \<Longrightarrow> bindA (get_cl c) k s = k cl s"
  "closures s c = Some cl \<Longrightarrow> thenA (upd_cl c f) n s = n (s\<lparr>closures := (closures s)(c \<mapsto> f cl)\<rparr>)"
  by (simp_all add: bindA_def thenA_def)

lemma run_bind_sf [simp]:
  "frames s f = Some sf \<Longrightarrow> bindA (get_sf (Some f)) k s = k sf s"
  "frames s f = Some sf \<Longrightarrow> thenA (upd_sf (Some f) g) n s = n (s\<lparr>frames := (frames s)(f \<mapsto> g sf)\<rparr>)"
  by (simp_all add: bindA_def thenA_def)

section \<open>A runtime with nothing allocated\<close>

text \<open>The base of the concrete states the examples are built from.\<close>

definition idle_worker :: worker where
  "idle_worker = \<lparr>tail = 0, head = 0, exc = 0, ltq_limit = 0, shadow_stack = [], current_stack_frame = None,
     w_state = WORKER_IDLE, l_lock_wait = False, provably_good_steal = False, rand_next = 0, fiber_to_free = None\<rparr>"

definition empty_deque :: ready_deque where
  "empty_deque = \<lparr>dq_mutex = False, top = None, bottom = None, dq_owner = NO_WORKER\<rparr>"

definition empty_sched :: "'v sched_state" where
  "empty_sched =
    (let desc = init_im_buckets \<lparr>buckets = (\<lambda>_. init_bucket 0), used = 0, num_malloc = (\<lambda>_. 0)\<rparr>;
         pool = \<lparr>pool_lock = False, pool_owner = NO_WORKER, shared = False, pool_stack_size = 65536, pool_parent = None,
                 pfibers = [], pool_capacity = 0, pool_stats = \<lparr>in_use = 0, max_in_use = 0, max_free = 0\<rparr>\<rparr>
     in \<lparr>os_page_size = 4096, page_shift = 12,
         im_pool = \<lparr>mem_begin = 0, mem_end = 0, mem_list = [], mem_list_index = -1, mem_list_size = 0, allocated = 0, wasted = 0\<rparr>,
         im_desc = desc, im_lock = False, wim = (\<lambda>_. desc), os_mmap = [], os_heap = [], os_unmapped = [], os_freed = [],
         fibers = (\<lambda>_. None), gfiber_pool = pool, wfiber_pool = (\<lambda>_. pool), opt_stacksize = 65536, opt_fiber_pool_cap = 8,
         rmaps = (\<lambda>_. None), hyperobjs = (\<lambda>_. None), cleared_views = [], wrmap = (\<lambda>_. None),
         closures = (\<lambda>_. None), frames = (\<lambda>_. None), deques = (\<lambda>_. empty_deque), workers = (\<lambda>_. idle_worker),
         nworkers = 2, root_closure = None, root_closure_initialized = False, g_done = False, deleted_exns = []\<rparr>)"

lemma empty_sched_sel [simp]:
  "closures empty_sched = (\<lambda>_. None)" "frames empty_sched = (\<lambda>_. None)" "deques empty_sched = (\<lambda>_. empty_deque)"
  "workers empty_sched = (\<lambda>_. idle_worker)" "root_closure empty_sched = None" "rmaps empty_sched = (\<lambda>_. None)"
  "hyperobjs empty_sched = (\<lambda>_. None)" "wrmap empty_sched = (\<lambda>_. None)" "fibers empty_sched = (\<lambda>_. None)"
  by (simp_all add: empty_sched_def Let_def)

end
