(* ===== verification/Ready_Deque.thy ===== *)
theory Ready_Deque
  imports Sched_State
begin

text \<open>
  Ready deques (runtime/readydeque.c): one doubly-linked list of closures per worker, threaded
  through the closures' \<open>prev_ready\<close> and \<open>next_ready\<close> fields.  The relation \<open>deque_rep\<close> says which
  sequence of closures, top first, a deque holds; the operations refine push and pop at the two
  ends of that sequence and leave every other deque alone.  The interface is the locale \<open>deque\<close>.
\<close>

section \<open>Operations\<close>

definition deque_assert_ownership :: "worker_id \<Rightarrow> worker_id \<Rightarrow> (('v, 'a) sched_state_scheme, unit) act" where
  "deque_assert_ownership w pn = check (\<lambda>s. dq_owner (deques s pn) = w) (Assertion Readydeque_c 12)"

definition deque_lock :: "worker_id \<Rightarrow> worker_id \<Rightarrow> (('v, 'a) sched_state_scheme, unit) act" where
  "deque_lock w pn =
     thenA (upd_w w (\<lambda>l. l\<lparr>l_lock_wait := True\<rparr>))
    (thenA (cilk_mutex_lock (\<lambda>s. dq_mutex (deques s pn))
              (\<lambda>b s. s\<lparr>deques := (deques s)(pn := (deques s pn)\<lparr>dq_mutex := b\<rparr>)\<rparr>))
    (thenA (upd_w w (\<lambda>l. l\<lparr>l_lock_wait := False\<rparr>))
           (upd_dq pn (\<lambda>d. d\<lparr>dq_owner := w\<rparr>))))"

definition deque_lock_self :: "worker_id \<Rightarrow> (('v, 'a) sched_state_scheme, unit) act" where
  "deque_lock_self w =
     thenA (upd_w w (\<lambda>l. l\<lparr>l_lock_wait := True\<rparr>))
    (thenA (cilk_mutex_lock (\<lambda>s. dq_mutex (deques s w))
              (\<lambda>b s. s\<lparr>deques := (deques s)(w := (deques s w)\<lparr>dq_mutex := b\<rparr>)\<rparr>))
    (thenA (upd_w w (\<lambda>l. l\<lparr>l_lock_wait := False\<rparr>))
           (upd_dq w (\<lambda>d. d\<lparr>dq_owner := w\<rparr>))))"

definition deque_unlock :: "worker_id \<Rightarrow> worker_id \<Rightarrow> (('v, 'a) sched_state_scheme, unit) act" where
  "deque_unlock w pn =
     thenA (upd_dq pn (\<lambda>d. d\<lparr>dq_owner := NO_WORKER\<rparr>))
           (cilk_mutex_unlock (\<lambda>b s. s\<lparr>deques := (deques s)(pn := (deques s pn)\<lparr>dq_mutex := b\<rparr>)\<rparr>))"

definition deque_unlock_self :: "worker_id \<Rightarrow> (('v, 'a) sched_state_scheme, unit) act" where
  "deque_unlock_self w =
     thenA (upd_dq w (\<lambda>d. d\<lparr>dq_owner := NO_WORKER\<rparr>))
           (cilk_mutex_unlock (\<lambda>b s. s\<lparr>deques := (deques s)(w := (deques s w)\<lparr>dq_mutex := b\<rparr>)\<rparr>))"

definition deque_trylock :: "worker_id \<Rightarrow> worker_id \<Rightarrow> (('v, 'a) sched_state_scheme, bool) act" where
  "deque_trylock w pn =
     bindA (cilk_mutex_try (\<lambda>s. dq_mutex (deques s pn))
              (\<lambda>b s. s\<lparr>deques := (deques s)(pn := (deques s pn)\<lparr>dq_mutex := b\<rparr>)\<rparr>)) (\<lambda>r.
     thenA (whenA r (upd_dq pn (\<lambda>d. d\<lparr>dq_owner := w\<rparr>)))
           (ret r))"

definition deque_xtract_top :: "worker_id \<Rightarrow> worker_id \<Rightarrow> (('v, 'a) sched_state_scheme, addr option) act" where
  "deque_xtract_top w pn =
     thenA (deque_assert_ownership w pn)
    (bindA (get_dq pn) (\<lambda>d.
       case top d of
         Some c \<Rightarrow>
           bindA (get_cl c) (\<lambda>cl.
           thenA (assertA (owner_ready_deque cl = pn) Readydeque_c 72)
          (thenA (upd_dq pn (\<lambda>d. d\<lparr>top := next_ready cl\<rparr>))
          (thenA (if bottom d = Some c
                  then thenA (assertA (next_ready cl = None) Readydeque_c 76)
                             (upd_dq pn (\<lambda>d. d\<lparr>bottom := None\<rparr>))
                  else thenA (assertA (next_ready cl \<noteq> None) Readydeque_c 79)
                      (bindA (derefA (next_ready cl)) (\<lambda>n. upd_cl n (\<lambda>k. k\<lparr>prev_ready := None\<rparr>))))
          (thenA (upd_cl c (\<lambda>k. k\<lparr>owner_ready_deque := NO_WORKER\<rparr>))
                 (ret (Some c))))))
       | None \<Rightarrow>
           thenA (assertA (bottom d = None) Readydeque_c 84)
                 (ret None)))"

definition deque_peek_top :: "worker_id \<Rightarrow> worker_id \<Rightarrow> (('v, 'a) sched_state_scheme, addr option) act" where
  "deque_peek_top w pn =
     thenA (deque_assert_ownership w pn)
    (bindA (get_dq pn) (\<lambda>d.
       case top d of
         Some c \<Rightarrow>
           bindA (get_cl c) (\<lambda>cl.
           thenA (check (\<lambda>s. owner_ready_deque cl = pn \<or> (w \<noteq> pn \<and> root_closure s = Some c)) (Assertion Readydeque_c 104))
                 (ret (Some c)))
       | None \<Rightarrow>
           thenA (assertA (bottom d = None) Readydeque_c 107)
                 (ret None)))"

definition deque_xtract_bottom :: "worker_id \<Rightarrow> worker_id \<Rightarrow> (('v, 'a) sched_state_scheme, addr option) act" where
  "deque_xtract_bottom w pn =
     thenA (deque_assert_ownership w pn)
    (bindA (get_dq pn) (\<lambda>d.
       case bottom d of
         Some c \<Rightarrow>
           bindA (get_cl c) (\<lambda>cl.
           thenA (assertA (owner_ready_deque cl = pn) Readydeque_c 122)
          (thenA (upd_dq pn (\<lambda>d. d\<lparr>bottom := prev_ready cl\<rparr>))
          (thenA (if top d = Some c
                  then thenA (assertA (prev_ready cl = None) Readydeque_c 125)
                             (upd_dq pn (\<lambda>d. d\<lparr>top := None\<rparr>))
                  else thenA (assertA (prev_ready cl \<noteq> None) Readydeque_c 128)
                      (bindA (derefA (prev_ready cl)) (\<lambda>p. upd_cl p (\<lambda>k. k\<lparr>next_ready := None\<rparr>))))
          (thenA (upd_cl c (\<lambda>k. k\<lparr>owner_ready_deque := NO_WORKER\<rparr>))
                 (ret (Some c))))))
       | None \<Rightarrow>
           thenA (assertA (top d = None) Readydeque_c 134)
                 (ret None)))"

definition deque_peek_bottom :: "worker_id \<Rightarrow> worker_id \<Rightarrow> (('v, 'a) sched_state_scheme, addr option) act" where
  "deque_peek_bottom w pn =
     thenA (deque_assert_ownership w pn)
    (bindA (get_dq pn) (\<lambda>d.
       case bottom d of
         Some c \<Rightarrow>
           bindA (get_cl c) (\<lambda>cl.
           thenA (assertA (owner_ready_deque cl = pn) Readydeque_c 149)
                 (ret (Some c)))
       | None \<Rightarrow>
           thenA (assertA (top d = None) Readydeque_c 151)
                 (ret None)))"

definition deque_assert_is_bottom :: "worker_id \<Rightarrow> addr \<Rightarrow> (('v, 'a) sched_state_scheme, unit) act" where
  "deque_assert_is_bottom w t =
     thenA (deque_assert_ownership w w)
    (bindA (deque_peek_bottom w w) (\<lambda>b.
     assertA (b = Some t) Readydeque_c 161))"

definition deque_add_bottom :: "worker_id \<Rightarrow> addr \<Rightarrow> worker_id \<Rightarrow> (('v, 'a) sched_state_scheme, unit) act" where
  "deque_add_bottom w c pn =
     thenA (deque_assert_ownership w pn)
    (bindA (get_cl c) (\<lambda>cl.
     thenA (assertA (owner_ready_deque cl = NO_WORKER) Readydeque_c 171)
    (bindA (get_dq pn) (\<lambda>d.
     thenA (upd_cl c (\<lambda>k. k\<lparr>prev_ready := bottom d, next_ready := None\<rparr>))
    (thenA (upd_dq pn (\<lambda>d. d\<lparr>bottom := Some c\<rparr>))
    (thenA (upd_cl c (\<lambda>k. k\<lparr>owner_ready_deque := pn\<rparr>))
           (if top d \<noteq> None
            then thenA (assertA (bottom d \<noteq> None) Readydeque_c 179)
                (bindA (derefA (bottom d)) (\<lambda>p. upd_cl p (\<lambda>k. k\<lparr>next_ready := Some c\<rparr>)))
            else upd_dq pn (\<lambda>d. d\<lparr>top := Some c\<rparr>))))))))"

section \<open>The sequence a deque holds\<close>

abbreviation hd_opt :: "'x list \<Rightarrow> 'x option" where
  "hd_opt xs \<equiv> (if xs = [] then None else Some (hd xs))"

abbreviation last_opt :: "'x list \<Rightarrow> 'x option" where
  "last_opt xs \<equiv> (if xs = [] then None else Some (last xs))"

text \<open>Closure \<open>i\<close> of the sequence points at its two neighbours.\<close>

definition deque_link :: "worker_id \<Rightarrow> addr list \<Rightarrow> nat \<Rightarrow> closure \<Rightarrow> bool" where
  "deque_link pn xs i cl \<longleftrightarrow> owner_ready_deque cl = pn \<and>
     prev_ready cl = (if i = 0 then None else Some (xs ! (i - 1))) \<and>
     next_ready cl = (if Suc i < length xs then Some (xs ! Suc i) else None)"

definition deque_rep :: "worker_id \<Rightarrow> addr list \<Rightarrow> ('v, 'a) sched_state_scheme \<Rightarrow> bool" where
  "deque_rep pn xs s \<longleftrightarrow> pn \<noteq> NO_WORKER \<and> distinct xs \<and>
     top (deques s pn) = hd_opt xs \<and> bottom (deques s pn) = last_opt xs \<and>
     (\<forall>i < length xs. \<exists>cl. closures s (xs ! i) = Some cl \<and> deque_link pn xs i cl)"

lemma deque_repD:
  assumes "deque_rep pn xs s"
  shows "pn \<noteq> NO_WORKER" "distinct xs" "top (deques s pn) = hd_opt xs" "bottom (deques s pn) = last_opt xs"
    "i < length xs \<Longrightarrow> \<exists>cl. closures s (xs ! i) = Some cl \<and> deque_link pn xs i cl"
  using assms by (auto simp: deque_rep_def)

text \<open>A change that keeps the links of the closures in the deque keeps its sequence.\<close>

lemma deque_rep_frame:
  assumes "deque_rep pn xs s" "top (deques s' pn) = top (deques s pn)" "bottom (deques s' pn) = bottom (deques s pn)"
    "\<And>x cl. x \<in> set xs \<Longrightarrow> closures s x = Some cl \<Longrightarrow> \<exists>cl'. closures s' x = Some cl' \<and>
       owner_ready_deque cl' = owner_ready_deque cl \<and> prev_ready cl' = prev_ready cl \<and> next_ready cl' = next_ready cl"
  shows "deque_rep pn xs s'"
proof -
  have "\<exists>cl. closures s' (xs ! i) = Some cl \<and> deque_link pn xs i cl" if i: "i < length xs" for i
  proof -
    obtain cl where cl: "closures s (xs ! i) = Some cl" "deque_link pn xs i cl" using deque_repD(5)[OF assms(1) i] by blast
    obtain cl' where "closures s' (xs ! i) = Some cl'" "owner_ready_deque cl' = owner_ready_deque cl"
       "prev_ready cl' = prev_ready cl" "next_ready cl' = next_ready cl"
      using assms(4)[OF nth_mem[OF i] cl(1)] by blast
    then show ?thesis using cl(2) by (auto simp: deque_link_def)
  qed
  then show ?thesis using assms(1-3) by (simp add: deque_rep_def)
qed

lemma deque_rep_mem:
  assumes "deque_rep pn xs s" "x \<in> set xs"
  shows "\<exists>cl. closures s x = Some cl \<and> owner_ready_deque cl = pn"
  using assms unfolding in_set_conv_nth by (elim exE conjE) (use deque_repD(5)[OF assms(1)] in \<open>auto simp: deque_link_def\<close>)

lemma deque_rep_owner:
  "deque_rep pn xs s \<Longrightarrow> x \<in> set xs \<Longrightarrow> closures s x = Some cl \<Longrightarrow> owner_ready_deque cl = pn"
  using deque_rep_mem by fastforce

text \<open>Two deques share no closure: a closure names the deque it is in.\<close>

lemma deque_rep_disjoint:
  "deque_rep pn xs s \<Longrightarrow> deque_rep pn' ys s \<Longrightarrow> pn \<noteq> pn' \<Longrightarrow> x \<in> set xs \<Longrightarrow> x \<notin> set ys"
  by (metis deque_rep_mem option.sel)

text \<open>
  What a deque operation leaves alone: the state outside closures and deques, the closures up to
  their three deque fields, and the locks of the deques.
\<close>

definition ready_erase :: "closure \<Rightarrow> closure" where
  "ready_erase cl = cl\<lparr>owner_ready_deque := NO_WORKER, next_ready := None, prev_ready := None\<rparr>"

definition ends_erase :: "ready_deque \<Rightarrow> ready_deque" where
  "ends_erase d = d\<lparr>top := None, bottom := None\<rparr>"

definition deque_frame :: "('v, 'a) sched_state_scheme \<Rightarrow> ('v, 'a) sched_state_scheme \<Rightarrow> bool" where
  "deque_frame s s' \<longleftrightarrow> (\<forall>x. map_option ready_erase (closures s' x) = map_option ready_erase (closures s x)) \<and>
     (\<forall>p. ends_erase (deques s' p) = ends_erase (deques s p)) \<and> s'\<lparr>closures := closures s, deques := deques s\<rparr> = s"

definition ready_owner :: "('v, 'a) sched_state_scheme \<Rightarrow> addr \<Rightarrow> worker_id option" where
  "ready_owner s x = map_option owner_ready_deque (closures s x)"

lemma deque_frame_refl [simp]: "deque_frame s s"
  by (simp add: deque_frame_def)

lemma ready_erase_upd [simp]:
  "ready_erase (cl\<lparr>owner_ready_deque := o1\<rparr>) = ready_erase cl"
  "ready_erase (cl\<lparr>next_ready := n\<rparr>) = ready_erase cl"
  "ready_erase (cl\<lparr>prev_ready := p\<rparr>) = ready_erase cl"
  "ends_erase (d\<lparr>top := x\<rparr>) = ends_erase d" "ends_erase (d\<lparr>bottom := x\<rparr>) = ends_erase d"
  by (cases cl; simp add: ready_erase_def) (cases cl; cases d; simp add: ready_erase_def ends_erase_def)+

subsection \<open>Pushing at the bottom\<close>

lemma deque_add_bottom_run:
  assumes own: "dq_owner (deques s pn) = w" and rep: "deque_rep pn xs s"
    and c: "closures s c = Some cl" "owner_ready_deque cl = NO_WORKER"
  shows "\<exists>s'. deque_add_bottom w c pn s = Inr ((), s') \<and> deque_rep pn (xs @ [c]) s' \<and> deque_frame s s' \<and>
    ready_owner s' = (ready_owner s)(c \<mapsto> pn) \<and>
    (\<forall>pn' ys. pn' \<noteq> pn \<longrightarrow> deque_rep pn' ys s \<longrightarrow> deque_rep pn' ys s')"
proof (cases "xs = []")
  case True
  define s' where "s' = s\<lparr>closures := (closures s)(c \<mapsto> cl\<lparr>prev_ready := None, next_ready := None, owner_ready_deque := pn\<rparr>),
     deques := (deques s)(pn := (deques s pn)\<lparr>bottom := Some c, top := Some c\<rparr>)\<rparr>"
  have "deque_add_bottom w c pn s = Inr ((), s')"
    using True own c deque_repD(3,4)[OF rep]
    by (simp add: deque_add_bottom_def deque_assert_ownership_def s'_def)
  moreover have "deque_frame s s'" "ready_owner s' = (ready_owner s)(c \<mapsto> pn)"
    using c  by (auto simp: deque_frame_def ready_owner_def s'_def fun_eq_iff)
  moreover have "deque_rep pn ([] @ [c]) s'"
    using rep by (simp add: deque_rep_def deque_link_def s'_def)
  moreover have "deque_rep pn' ys s'" if "pn' \<noteq> pn" "deque_rep pn' ys s" for pn' ys
    using that(1) deque_rep_owner[OF that(2)] c deque_repD(1)[OF that(2)]
    by (intro deque_rep_frame[OF that(2)]) (auto simp: s'_def)
  ultimately show ?thesis using True by blast
next
  case False
  let ?b = "last xs"
  obtain bl where b: "closures s ?b = Some bl" "deque_link pn xs (length xs - 1) bl"
    using deque_repD(5)[OF rep, of "length xs - 1"] False by (auto simp: last_conv_nth)
  have bc: "?b \<noteq> c" using c b deque_repD(1)[OF rep] by (auto simp: deque_link_def)
  have cx: "c \<notin> set xs" using deque_rep_owner[OF rep, of c] c deque_repD(1)[OF rep] by auto
  define s' where "s' = s\<lparr>closures := (closures s)(c \<mapsto> cl\<lparr>prev_ready := Some ?b, next_ready := None, owner_ready_deque := pn\<rparr>,
       ?b \<mapsto> bl\<lparr>next_ready := Some c\<rparr>),
     deques := (deques s)(pn := (deques s pn)\<lparr>bottom := Some c\<rparr>)\<rparr>"
  have "deque_add_bottom w c pn s = Inr ((), s')"
    using False own c b bc deque_repD(3,4)[OF rep]
    by (simp add: deque_add_bottom_def deque_assert_ownership_def s'_def)
  moreover have "deque_frame s s'" "ready_owner s' = (ready_owner s)(c \<mapsto> pn)"
    using c b bc by (auto simp: deque_frame_def ready_owner_def s'_def fun_eq_iff)
  moreover have "deque_rep pn (xs @ [c]) s'"
  proof -
    have "\<exists>k. closures s' ((xs @ [c]) ! i) = Some k \<and> deque_link pn (xs @ [c]) i k" if i: "i < Suc (length xs)" for i
    proof (cases "i < length xs - 1")
      case True
      then have "xs ! i \<noteq> ?b" "xs ! i \<noteq> c"
        using cx deque_repD(2)[OF rep] False nth_eq_iff_index_eq[of xs i "length xs - 1"]
        by (auto simp: last_conv_nth in_set_conv_nth)
      then show ?thesis using deque_repD(5)[OF rep, of i] True
        by (auto simp: s'_def nth_append deque_link_def)
    next
      case False
      then consider "i = length xs" | "i = length xs - 1" "i < length xs" using i by linarith
      then show ?thesis
      proof cases
        case 1 then show ?thesis using bc \<open>xs \<noteq> []\<close> by (simp add: s'_def nth_append deque_link_def last_conv_nth)
      next
        case 2 then show ?thesis using b \<open>xs \<noteq> []\<close>
          by (auto simp: s'_def nth_append deque_link_def last_conv_nth)
      qed
    qed
    then show ?thesis using rep False cx by (simp add: deque_rep_def s'_def)
  qed
  moreover have "deque_rep pn' ys s'" if "pn' \<noteq> pn" "deque_rep pn' ys s" for pn' ys
  proof -
    have "?b \<notin> set ys" "c \<notin> set ys"
      using deque_rep_disjoint[OF rep that(2), of ?b] that False c deque_rep_owner[OF that(2), of c] deque_repD(1)[OF that(2)] by auto
    then show ?thesis using that(1) by (intro deque_rep_frame[OF that(2)]) (auto simp: s'_def)
  qed
  ultimately show ?thesis by blast
qed


subsection \<open>Popping at either end\<close>

lemma deque_others_frame:
  assumes rep: "deque_rep pn xs s" and o: "deque_rep pn' ys s" "pn' \<noteq> pn"
    and s': "\<forall>x. x \<notin> set xs \<longrightarrow> closures s' x = closures s x" "\<forall>p. p \<noteq> pn \<longrightarrow> deques s' p = deques s p"
  shows "deque_rep pn' ys s'"
proof (rule deque_rep_frame[OF o(1)])
  fix x cl assume "x \<in> set ys" "closures s x = Some cl"
  moreover have "x \<notin> set xs" using \<open>x \<in> set ys\<close> deque_rep_disjoint[OF o(1) rep o(2)] by simp
  ultimately show "\<exists>cl'. closures s' x = Some cl' \<and>
       owner_ready_deque cl' = owner_ready_deque cl \<and> prev_ready cl' = prev_ready cl \<and> next_ready cl' = next_ready cl"
    using s'(1) by simp
qed (use o(2) s'(2) in auto)

lemma deque_xtract_bottom_run:
  assumes own: "dq_owner (deques s pn) = w" and rep: "deque_rep pn xs s"
  shows "\<exists>s'. deque_xtract_bottom w pn s = Inr (last_opt xs, s') \<and> deque_rep pn (butlast xs) s' \<and> deque_frame s s' \<and>
    ready_owner s' = (if xs = [] then ready_owner s else (ready_owner s)(last xs \<mapsto> NO_WORKER)) \<and>
    (\<forall>pn' ys. pn' \<noteq> pn \<longrightarrow> deque_rep pn' ys s \<longrightarrow> deque_rep pn' ys s')"
proof (cases "xs = []")
  case True
  then have "deque_xtract_bottom w pn s = Inr (None, s)"
    using own deque_repD(3,4)[OF rep] by (simp add: act_flat deque_xtract_bottom_def deque_assert_ownership_def)
  then show ?thesis using True rep by auto
next
  case False
  let ?b = "last xs"
  obtain bl where b: "closures s ?b = Some bl" "deque_link pn xs (length xs - 1) bl"
    using deque_repD(5)[OF rep, of "length xs - 1"] False by (auto simp: last_conv_nth)
  show ?thesis
  proof (cases "length xs = 1")
    case True
    then obtain x where x: "xs = [x]" by (cases xs) auto
    define s' where "s' = s\<lparr>closures := (closures s)(?b \<mapsto> bl\<lparr>owner_ready_deque := NO_WORKER\<rparr>),
       deques := (deques s)(pn := (deques s pn)\<lparr>bottom := None, top := None\<rparr>)\<rparr>"
    have "deque_xtract_bottom w pn s = Inr (Some ?b, s')"
      using x own b deque_repD(3,4)[OF rep]
      by (simp add: act_flat deque_xtract_bottom_def deque_assert_ownership_def deque_link_def s'_def)
    moreover have "deque_frame s s'" "ready_owner s' = (ready_owner s)(?b \<mapsto> NO_WORKER)"
      using b by (auto simp: deque_frame_def ready_owner_def s'_def fun_eq_iff)
    moreover have "deque_rep pn [] s'" using rep by (simp add: deque_rep_def s'_def)
    moreover have "deque_rep pn' ys s'" if "pn' \<noteq> pn" "deque_rep pn' ys s" for pn' ys
      using x by (intro deque_others_frame[OF rep that(2,1)]) (auto simp: s'_def)
    ultimately show ?thesis using x by auto
  next
    case len: False
    let ?n = "length xs - 2" and ?p = "xs ! (length xs - 2)"
    have n: "?n < length xs" "Suc (Suc ?n) = length xs" using len False by (cases xs; cases "List.tl xs"; auto)+
    obtain pl where p: "closures s ?p = Some pl" "deque_link pn xs ?n pl" using deque_repD(5)[OF rep n(1)] by blast
    have ne: "?p \<noteq> ?b" "hd xs \<noteq> ?b"
      using deque_repD(2)[OF rep] n False nth_eq_iff_index_eq[of xs ?n "length xs - 1"] nth_eq_iff_index_eq[of xs 0 "length xs - 1"]
      by (auto simp: last_conv_nth hd_conv_nth)
    have pb: "prev_ready bl = Some ?p" "owner_ready_deque bl = pn" using b(2) n by (auto simp: deque_link_def numeral_2_eq_2)
    define s' where "s' = s\<lparr>closures := (closures s)(?p \<mapsto> pl\<lparr>next_ready := None\<rparr>, ?b \<mapsto> bl\<lparr>owner_ready_deque := NO_WORKER\<rparr>),
       deques := (deques s)(pn := (deques s pn)\<lparr>bottom := Some ?p\<rparr>)\<rparr>"
    have "deque_xtract_bottom w pn s = Inr (Some ?b, s')"
      using False own b(1) pb p(1) ne deque_repD(3,4)[OF rep]
      by (simp add: act_flat deque_xtract_bottom_def deque_assert_ownership_def s'_def)
    moreover have "deque_frame s s'" "ready_owner s' = (ready_owner s)(?b \<mapsto> NO_WORKER)"
      using b p ne by (auto simp: deque_frame_def ready_owner_def s'_def fun_eq_iff)
    moreover have "deque_rep pn (butlast xs) s'"
    proof -
      have "\<exists>k. closures s' (butlast xs ! i) = Some k \<and> deque_link pn (butlast xs) i k" if i: "i < length (butlast xs)" for i
      proof -
        have "xs ! i \<noteq> ?b" using i deque_repD(2)[OF rep] nth_eq_iff_index_eq[of xs i "length xs - 1"] False by (auto simp: last_conv_nth)
        moreover have i': "i < length xs" using i by simp
        moreover obtain cl where "closures s (xs ! i) = Some cl" "deque_link pn xs i cl" using deque_repD(5)[OF rep i'] by blast
        ultimately show ?thesis
          using i p n nth_eq_iff_index_eq[OF deque_repD(2)[OF rep] i' n(1)]
          by (cases "i = ?n") (auto simp: s'_def nth_butlast deque_link_def)
      qed
      moreover have "last (butlast xs) = ?p" "hd (butlast xs) = hd xs" "butlast xs \<noteq> []"
        using n len by (cases xs rule: rev_cases; auto simp: last_conv_nth nth_append hd_append)+
      ultimately show ?thesis using rep False by (simp add: deque_rep_def s'_def distinct_butlast)
    qed
    moreover have "deque_rep pn' ys s'" if "pn' \<noteq> pn" "deque_rep pn' ys s" for pn' ys
      using False n(1) by (intro deque_others_frame[OF rep that(2,1)]) (auto simp: s'_def)
    ultimately show ?thesis using False by auto
  qed
qed

lemma deque_xtract_top_run:
  assumes own: "dq_owner (deques s pn) = w" and rep: "deque_rep pn xs s"
  shows "\<exists>s'. deque_xtract_top w pn s = Inr (hd_opt xs, s') \<and> deque_rep pn (tl xs) s' \<and> deque_frame s s' \<and>
    ready_owner s' = (if xs = [] then ready_owner s else (ready_owner s)(hd xs \<mapsto> NO_WORKER)) \<and>
    (\<forall>pn' ys. pn' \<noteq> pn \<longrightarrow> deque_rep pn' ys s \<longrightarrow> deque_rep pn' ys s')"
proof (cases xs)
  case Nil
  then have "deque_xtract_top w pn s = Inr (None, s)"
    using own deque_repD(3,4)[OF rep] by (simp add: act_flat deque_xtract_top_def deque_assert_ownership_def)
  then show ?thesis using Nil rep by auto
next
  case (Cons x rest)
  obtain bl where b: "closures s x = Some bl" "deque_link pn xs 0 bl"
    using deque_repD(5)[OF rep, of 0] Cons by auto
  show ?thesis
  proof (cases rest)
    case Nil
    define s' where "s' = s\<lparr>closures := (closures s)(x \<mapsto> bl\<lparr>owner_ready_deque := NO_WORKER\<rparr>),
       deques := (deques s)(pn := (deques s pn)\<lparr>top := None, bottom := None\<rparr>)\<rparr>"
    have "deque_xtract_top w pn s = Inr (Some x, s')"
      using Nil Cons own b deque_repD(3,4)[OF rep]
      by (simp add: act_flat deque_xtract_top_def deque_assert_ownership_def deque_link_def s'_def)
    moreover have "deque_frame s s'" "ready_owner s' = (ready_owner s)(x \<mapsto> NO_WORKER)"
      using b by (auto simp: deque_frame_def ready_owner_def s'_def fun_eq_iff)
    moreover have "deque_rep pn [] s'" using rep by (simp add: deque_rep_def s'_def)
    moreover have "deque_rep pn' ys s'" if "pn' \<noteq> pn" "deque_rep pn' ys s" for pn' ys
      using Cons by (intro deque_others_frame[OF rep that(2,1)]) (auto simp: s'_def)
    ultimately show ?thesis using Nil Cons by auto
  next
    case (Cons y ys')
    note xs = \<open>xs = x # rest\<close> Cons
    obtain pl where p: "closures s y = Some pl" "deque_link pn xs 1 pl" using deque_repD(5)[OF rep, of 1] xs by auto
    have ne: "y \<noteq> x" "last xs \<noteq> x" using deque_repD(2)[OF rep] xs by auto
    have pb: "next_ready bl = Some y" "owner_ready_deque bl = pn" using b(2) xs by (auto simp: deque_link_def)
    define s' where "s' = s\<lparr>closures := (closures s)(y \<mapsto> pl\<lparr>prev_ready := None\<rparr>, x \<mapsto> bl\<lparr>owner_ready_deque := NO_WORKER\<rparr>),
       deques := (deques s)(pn := (deques s pn)\<lparr>top := Some y\<rparr>)\<rparr>"
    have "deque_xtract_top w pn s = Inr (Some x, s')"
      using xs own b(1) pb p(1) ne deque_repD(3,4)[OF rep]
      by (simp add: act_flat deque_xtract_top_def deque_assert_ownership_def s'_def)
    moreover have "deque_frame s s'" "ready_owner s' = (ready_owner s)(x \<mapsto> NO_WORKER)"
      using b p ne by (auto simp: deque_frame_def ready_owner_def s'_def fun_eq_iff)
    moreover have "deque_rep pn (tl xs) s'"
    proof -
      have "\<exists>k. closures s' (tl xs ! i) = Some k \<and> deque_link pn (tl xs) i k" if i: "i < length (tl xs)" for i
      proof -
        have "xs ! Suc i \<noteq> x" using i xs nth_eq_iff_index_eq[OF deque_repD(2)[OF rep], of "Suc i" 0] by auto
        then show ?thesis
          using i p xs deque_repD(5)[OF rep, of "Suc i"] nth_eq_iff_index_eq[OF deque_repD(2)[OF rep], of "Suc i" 1]
          by (cases i) (auto simp: s'_def deque_link_def)
      qed
      then show ?thesis using rep xs by (simp add: deque_rep_def s'_def)
    qed
    moreover have "deque_rep pn' zs s'" if "pn' \<noteq> pn" "deque_rep pn' zs s" for pn' zs
      using xs by (intro deque_others_frame[OF rep that(2,1)]) (auto simp: s'_def)
    ultimately show ?thesis using xs by auto
  qed
qed

lemma deque_peek_run:
  assumes own: "dq_owner (deques s pn) = w" and rep: "deque_rep pn xs s"
  shows "deque_peek_bottom w pn s = Inr (last_opt xs, s)" "deque_peek_top w pn s = Inr (hd_opt xs, s)"
proof -
  have m: "xs \<noteq> [] \<Longrightarrow> \<exists>cl. closures s (hd xs) = Some cl \<and> owner_ready_deque cl = pn"
    "xs \<noteq> [] \<Longrightarrow> \<exists>cl. closures s (last xs) = Some cl \<and> owner_ready_deque cl = pn"
    using deque_rep_mem[OF rep] by auto
  show "deque_peek_bottom w pn s = Inr (last_opt xs, s)" "deque_peek_top w pn s = Inr (hd_opt xs, s)"
    using own m deque_repD(3,4)[OF rep]
    by (cases "xs = []"; auto simp: deque_peek_bottom_def deque_peek_top_def deque_assert_ownership_def)+
qed


section \<open>The interface\<close>

text \<open>
  What the scheduler relies on: a worker that owns the deque of \<open>pn\<close> can push a closure that is in
  no deque at the bottom and pop at either end, as on a sequence.
\<close>

locale deque =
  fixes rep :: "worker_id \<Rightarrow> addr list \<Rightarrow> 's \<Rightarrow> bool" and owns :: "worker_id \<Rightarrow> worker_id \<Rightarrow> 's \<Rightarrow> bool"
    and loose :: "addr \<Rightarrow> 's \<Rightarrow> bool"
    and add_bottom :: "worker_id \<Rightarrow> addr \<Rightarrow> worker_id \<Rightarrow> ('s, unit) act"
    and xtract_bottom xtract_top :: "worker_id \<Rightarrow> worker_id \<Rightarrow> ('s, addr option) act"
  assumes add_bottom: "owns w pn s \<Longrightarrow> rep pn xs s \<Longrightarrow> loose c s \<Longrightarrow>
      \<exists>s'. add_bottom w c pn s = Inr ((), s') \<and> rep pn (xs @ [c]) s' \<and> owns w pn s' \<and> (\<forall>d. loose d s' \<longleftrightarrow> loose d s \<and> d \<noteq> c)"
    and xtract_bottom: "owns w pn s \<Longrightarrow> rep pn xs s \<Longrightarrow>
      \<exists>s'. xtract_bottom w pn s = Inr (last_opt xs, s') \<and> rep pn (butlast xs) s' \<and> owns w pn s' \<and>
        (\<forall>d. loose d s' \<longleftrightarrow> loose d s \<or> Some d = last_opt xs)"
    and xtract_top: "owns w pn s \<Longrightarrow> rep pn xs s \<Longrightarrow>
      \<exists>s'. xtract_top w pn s = Inr (hd_opt xs, s') \<and> rep pn (tl xs) s' \<and> owns w pn s' \<and>
        (\<forall>d. loose d s' \<longleftrightarrow> loose d s \<or> Some d = hd_opt xs)"
begin

text \<open>The owner's end is last-in-first-out: a push undone by a pop gives back the same sequence.\<close>

lemma push_pop_bottom:
  assumes "owns w pn s" "rep pn xs s" "loose c s"
  shows "\<exists>s'. thenA (add_bottom w c pn) (xtract_bottom w pn) s = Inr (Some c, s') \<and> rep pn xs s' \<and> (\<forall>d. loose d s' = loose d s)"
proof -
  obtain s1 where s1: "add_bottom w c pn s = Inr ((), s1)" "rep pn (xs @ [c]) s1" "owns w pn s1" "\<forall>d. loose d s1 \<longleftrightarrow> loose d s \<and> d \<noteq> c"
    using add_bottom[OF assms] by blast
  then show ?thesis using xtract_bottom[OF s1(3,2)] assms(3) by (auto simp: thenA_def bindA_def)
qed

lemma push_many:
  assumes "owns w pn s" "rep pn xs s" "\<forall>c \<in> set cs. loose c s" "distinct cs"
  shows "\<exists>s'. forA cs (\<lambda>c. add_bottom w c pn) s = Inr ((), s') \<and> rep pn (xs @ cs) s' \<and> owns w pn s'"
  using assms
proof (induction cs arbitrary: s xs)
  case (Cons c cs)
  have "loose c s" using Cons.prems(3) by simp
  then obtain s1 where s1: "add_bottom w c pn s = Inr ((), s1)" "rep pn (xs @ [c]) s1" "owns w pn s1" "\<forall>d. loose d s1 \<longleftrightarrow> loose d s \<and> d \<noteq> c"
    using add_bottom[OF Cons.prems(1,2)] by blast
  have "\<forall>c' \<in> set cs. loose c' s1" using s1(4) Cons.prems(3,4) by auto
  from Cons.IH[OF s1(3,2) this] Cons.prems(4) s1(1) show ?case by (auto simp: thenA_def bindA_def)
qed auto

text \<open>The thief's end is first-in-first-out: the oldest closure is stolen first, whatever the owner
  has pushed since.\<close>

lemma steal_oldest:
  assumes "owns w pn s" "rep pn (x # xs) s" "\<forall>c \<in> set cs. loose c s" "distinct cs"
  shows "\<exists>s'. thenA (forA cs (\<lambda>c. add_bottom w c pn)) (xtract_top w pn) s = Inr (Some x, s') \<and> rep pn (xs @ cs) s'"
proof -
  obtain s1 where s1: "forA cs (\<lambda>c. add_bottom w c pn) s = Inr ((), s1)" "rep pn (x # xs @ cs) s1" "owns w pn s1"
    using push_many[OF assms] by auto
  then show ?thesis using xtract_top[OF s1(3,2)] by (auto simp: thenA_def bindA_def)
qed

end

abbreviation loose_closure :: "addr \<Rightarrow> ('v, 'a) sched_state_scheme \<Rightarrow> bool" where
  "loose_closure c s \<equiv> ready_owner s c = Some NO_WORKER"

lemma deque_frame_owner: "deque_frame s s' \<Longrightarrow> dq_owner (deques s' p) = dq_owner (deques s p)"
  unfolding deque_frame_def ends_erase_def by (metis (no_types, lifting) ready_deque.select_convs(4) ready_deque.surjective
    ready_deque.update_convs(2) ready_deque.update_convs(3))

lemma ready_add_bottom:
  assumes a: "dq_owner (deques s pn) = w" "deque_rep pn xs s" and c: "loose_closure c s"
  shows "\<exists>s'. deque_add_bottom w c pn s = Inr ((), s') \<and> deque_rep pn (xs @ [c]) s' \<and> dq_owner (deques s' pn) = w \<and>
        (\<forall>d. loose_closure d s' \<longleftrightarrow> loose_closure d s \<and> d \<noteq> c)"
proof -
  obtain cl where "closures s c = Some cl" "owner_ready_deque cl = NO_WORKER" using c by (auto simp: ready_owner_def)
  from deque_add_bottom_run[OF a this] show ?thesis
    using a deque_repD(1)[OF a(2)] deque_frame_owner by (elim exE conjE) (intro exI conjI, assumption+, auto)
qed

lemma ready_xtract:
  assumes a: "dq_owner (deques s pn) = w" "deque_rep pn xs s"
  shows "\<exists>s'. deque_xtract_bottom w pn s = Inr (last_opt xs, s') \<and> deque_rep pn (butlast xs) s' \<and> dq_owner (deques s' pn) = w \<and>
        (\<forall>d. loose_closure d s' \<longleftrightarrow> loose_closure d s \<or> Some d = last_opt xs)"
    "\<exists>s'. deque_xtract_top w pn s = Inr (hd_opt xs, s') \<and> deque_rep pn (tl xs) s' \<and> dq_owner (deques s' pn) = w \<and>
        (\<forall>d. loose_closure d s' \<longleftrightarrow> loose_closure d s \<or> Some d = hd_opt xs)"
  using deque_xtract_bottom_run[OF a] deque_xtract_top_run[OF a] a deque_frame_owner
  by - (elim exE conjE, intro exI conjI, assumption+, auto split: if_splits)+

interpretation ready: deque deque_rep "\<lambda>w pn s. dq_owner (deques s pn) = w" loose_closure
  deque_add_bottom deque_xtract_bottom deque_xtract_top
  by unfold_locales (rule ready_add_bottom ready_xtract; assumption)+

section \<open>Properties\<close>

text \<open>A deque of worker 1 that holds the closures at 100 and 200; the closure at 300 is in no deque.\<close>

definition dq_ex :: "int list sched_state" where
  "dq_ex = empty_sched\<lparr>
     closures := [100 \<mapsto> Closure_init\<lparr>owner_ready_deque := 1, next_ready := Some 200\<rparr>,
                  200 \<mapsto> Closure_init\<lparr>owner_ready_deque := 1, prev_ready := Some 100\<rparr>,
                  300 \<mapsto> Closure_init],
     deques := (\<lambda>_. empty_deque)(1 := \<lparr>dq_mutex = True, top = Some 100, bottom = Some 200, dq_owner = 0\<rparr>)\<rparr>"

lemma dq_ex_rep: "deque_rep 1 [100, 200] dq_ex"
  unfolding deque_rep_def
  by (auto simp: dq_ex_def NO_WORKER_def deque_link_def Closure_init_def less_Suc_eq)

lemma dq_ex_owner: "dq_owner (deques dq_ex 1) = 0" and dq_ex_loose: "loose_closure 300 dq_ex"
  by (simp_all add: dq_ex_def ready_owner_def Closure_init_def)

text \<open>
  Deques refine sequences (C9): when worker \<open>w\<close> holds the lock of the deque of \<open>pn\<close>, which holds the
  closures \<open>xs\<close>, top first, no assertion of readydeque.c fails and the two extract operations, the two
  peek operations and \<open>deque_add_bottom\<close> of a closure in no deque act on \<open>xs\<close> as pop and push at the
  two ends; every other deque holds the same closures as before.
\<close>

theorem deque_ops_refine:
  assumes "dq_owner (deques s pn) = w" "deque_rep pn xs s"
  shows "(loose_closure c s \<longrightarrow> (\<exists>s'. deque_add_bottom w c pn s = Inr ((), s') \<and> deque_rep pn (xs @ [c]) s' \<and>
           (\<forall>pn' ys. pn' \<noteq> pn \<longrightarrow> deque_rep pn' ys s \<longrightarrow> deque_rep pn' ys s'))) \<and>
    (\<exists>s'. deque_xtract_bottom w pn s = Inr (last_opt xs, s') \<and> deque_rep pn (butlast xs) s' \<and>
           (\<forall>pn' ys. pn' \<noteq> pn \<longrightarrow> deque_rep pn' ys s \<longrightarrow> deque_rep pn' ys s')) \<and>
    (\<exists>s'. deque_xtract_top w pn s = Inr (hd_opt xs, s') \<and> deque_rep pn (tl xs) s' \<and>
           (\<forall>pn' ys. pn' \<noteq> pn \<longrightarrow> deque_rep pn' ys s \<longrightarrow> deque_rep pn' ys s')) \<and>
    deque_peek_bottom w pn s = Inr (last_opt xs, s) \<and> deque_peek_top w pn s = Inr (hd_opt xs, s)"
  using deque_add_bottom_run[OF assms] deque_xtract_bottom_run[OF assms] deque_xtract_top_run[OF assms] deque_peek_run[OF assms]
  by (intro conjI impI) (fastforce simp: ready_owner_def)+

theorem deque_ops_refine_witness:
  "(\<exists>s'. deque_add_bottom 0 300 1 dq_ex = Inr ((), s') \<and> deque_rep 1 [100, 200, 300] s') \<and>
   (\<exists>s'. deque_xtract_bottom 0 1 dq_ex = Inr (Some 200, s') \<and> deque_rep 1 [100] s') \<and>
   (\<exists>s'. deque_xtract_top 0 1 dq_ex = Inr (Some 100, s') \<and> deque_rep 1 [200] s')"
  using deque_ops_refine[OF dq_ex_owner dq_ex_rep, of 300] dq_ex_loose by auto

text \<open>
  The oldest closure is stolen first (C10): whatever closures have been pushed at the bottom since, an
  extraction at the top gives the closure that was at the top before, and the pushed ones stay in
  order.
\<close>

theorem deque_steal_oldest:
  assumes "dq_owner (deques s pn) = w" "deque_rep pn (x # xs) s" "\<forall>c \<in> set cs. loose_closure c s" "distinct cs"
  shows "\<exists>s'. thenA (forA cs (\<lambda>c. deque_add_bottom w c pn)) (deque_xtract_top w pn) s = Inr (Some x, s') \<and>
    deque_rep pn (xs @ cs) s'"
  using ready.steal_oldest[OF assms] .

theorem deque_steal_oldest_witness:
  "\<exists>s'. thenA (forA [300] (\<lambda>c. deque_add_bottom 0 c 1)) (deque_xtract_top 0 1) dq_ex = Inr (Some 100, s') \<and>
    deque_rep 1 [200, 300] s'"
  using deque_steal_oldest[OF dq_ex_owner dq_ex_rep, of "[300]"] dq_ex_loose by simp

end
