(* ===== verification/Closures.thy ===== *)
theory Closures
  imports Ready_Deque
begin

text \<open>
  Closures (runtime/closure.c): status changes, locks, the tree of spawned children, callees,
  suspension and destruction.
\<close>

section \<open>Ownership, status and locks\<close>

definition Closure_assert_ownership :: "worker_id \<Rightarrow> addr \<Rightarrow> (('v, 'a) sched_state_scheme, unit) act" where
  "Closure_assert_ownership w t =
     bindA (get_cl t) (\<lambda>cl. assertA (mutex_owner cl = w) Closure_c 10)"

definition Closure_assert_alienation :: "worker_id \<Rightarrow> addr \<Rightarrow> (('v, 'a) sched_state_scheme, unit) act" where
  "Closure_assert_alienation w t =
     bindA (get_cl t) (\<lambda>cl. assertA (mutex_owner cl \<noteq> w) Closure_c 15)"

definition Closure_checkmagic :: "addr \<Rightarrow> (('v, 'a) sched_state_scheme, unit) act" where
  "Closure_checkmagic t =
     bindA (get_cl t) (\<lambda>cl.
       case status cl of
         CLOSURE_RUNNING \<Rightarrow> ret ()
       | CLOSURE_SUSPENDED \<Rightarrow> ret ()
       | CLOSURE_RETURNING \<Rightarrow> ret ()
       | CLOSURE_READY \<Rightarrow> ret ()
       | CLOSURE_POST_INVALID \<Rightarrow> fail (Assertion Closure_c 26)
       | CLOSURE_PRE_INVALID \<Rightarrow> fail (Assertion Closure_c 28))"

definition Closure_status_to_str :: "closure_status \<Rightarrow> string" where
  "Closure_status_to_str st = (case st of
      CLOSURE_RUNNING \<Rightarrow> ''running'' | CLOSURE_SUSPENDED \<Rightarrow> ''suspended''
    | CLOSURE_RETURNING \<Rightarrow> ''returning'' | CLOSURE_READY \<Rightarrow> ''ready''
    | CLOSURE_PRE_INVALID \<Rightarrow> ''pre-invalid'' | CLOSURE_POST_INVALID \<Rightarrow> ''post-invalid'')"

definition Closure_change_status :: "addr \<Rightarrow> closure_status \<Rightarrow> closure_status \<Rightarrow> (('v, 'a) sched_state_scheme, unit) act" where
  "Closure_change_status t old st =
     bindA (get_cl t) (\<lambda>cl.
     thenA (assertA (status cl = old) Closure_c 55)
           (upd_cl t (\<lambda>k. k\<lparr>status := st\<rparr>)))"

definition Closure_set_status :: "addr \<Rightarrow> closure_status \<Rightarrow> (('v, 'a) sched_state_scheme, unit) act" where
  "Closure_set_status t st = upd_cl t (\<lambda>k. k\<lparr>status := st\<rparr>)"

definition Closure_make_ready :: "addr \<Rightarrow> (('v, 'a) sched_state_scheme, unit) act" where
  "Closure_make_ready t = upd_cl t (\<lambda>k. k\<lparr>status := CLOSURE_READY\<rparr>)"

definition Closure_trylock :: "worker_id \<Rightarrow> addr \<Rightarrow> (('v, 'a) sched_state_scheme, bool) act" where
  "Closure_trylock w t =
     thenA (Closure_checkmagic t)
    (bindA (get_cl t) (\<lambda>cl.
       if cl_mutex cl then ret False
       else thenA (upd_cl t (\<lambda>k. k\<lparr>cl_mutex := True, mutex_owner := w\<rparr>)) (ret True)))"

definition Closure_lock :: "worker_id \<Rightarrow> addr \<Rightarrow> (('v, 'a) sched_state_scheme, unit) act" where
  "Closure_lock w t =
     thenA (Closure_checkmagic t)
    (thenA (upd_cl t (\<lambda>k. k\<lparr>lock_wait := True\<rparr>))
    (bindA (get_cl t) (\<lambda>cl.
     thenA (check (\<lambda>_. \<not> cl_mutex cl) Blocked)
           (upd_cl t (\<lambda>k. k\<lparr>cl_mutex := True, lock_wait := False, mutex_owner := w\<rparr>)))))"

definition Closure_unlock :: "worker_id \<Rightarrow> addr \<Rightarrow> (('v, 'a) sched_state_scheme, unit) act" where
  "Closure_unlock w t =
     thenA (Closure_checkmagic t)
    (thenA (Closure_assert_ownership w t)
           (upd_cl t (\<lambda>k. k\<lparr>mutex_owner := NO_WORKER, cl_mutex := False\<rparr>)))"

section \<open>The closure tree\<close>

definition Closure_at_top_of_stack :: "worker_id \<Rightarrow> (('v, 'a) sched_state_scheme, bool) act" where
  "Closure_at_top_of_stack w =
     bindA (get_w w) (\<lambda>x.
     bindA (get_sf (current_stack_frame x)) (\<lambda>sf.
     ret (head x = tail x \<and> cilkrts_stolen sf)))"

definition Closure_has_children :: "closure \<Rightarrow> bool" where
  "Closure_has_children cl \<longleftrightarrow> has_cilk_callee cl \<or> join_counter cl \<noteq> 0"

definition Closure_create :: "worker_id \<Rightarrow> (('v, 'a) sched_state_scheme, addr) act" where
  "Closure_create w =
     bindA (cilk_internal_malloc w SIZEOF_CLOSURE IM_CLOSURE) (\<lambda>c.
     thenA (assertA (c \<noteq> 0) Closure_c 157)
    (thenA (modify (\<lambda>s. s\<lparr>closures := (closures s)(c \<mapsto> Closure_init)\<rparr>))
           (ret c)))"

definition Closure_create_main :: "(('v, 'a) sched_state_scheme, addr) act" where
  "Closure_create_main =
     bindA (gets os_heap) (\<lambda>h.
       case h of
         Some c # rest \<Rightarrow>
           thenA (assertA (c \<noteq> 0) Closure_c 174)
          (thenA (modify (\<lambda>s. s\<lparr>os_heap := rest, closures := (closures s)(c \<mapsto> Closure_init)\<rparr>))
                 (ret c))
       | _ \<Rightarrow> fail (Assertion Closure_c 174))"

definition double_link_children :: "addr option \<Rightarrow> addr option \<Rightarrow> (('v, 'a) sched_state_scheme, unit) act" where
  "double_link_children left right =
     thenA (case left of
              None \<Rightarrow> ret ()
            | Some l \<Rightarrow>
                bindA (get_cl l) (\<lambda>lc.
                thenA (assertA (right_sib lc = None) Closure_c 186)
                      (upd_cl l (\<lambda>k. k\<lparr>right_sib := right\<rparr>))))
           (case right of
              None \<Rightarrow> ret ()
            | Some r \<Rightarrow>
                bindA (get_cl r) (\<lambda>rc.
                thenA (assertA (left_sib rc = None) Closure_c 191)
                      (upd_cl r (\<lambda>k. k\<lparr>left_sib := left\<rparr>))))"

definition unlink_child :: "addr \<Rightarrow> (('v, 'a) sched_state_scheme, unit) act" where
  "unlink_child c =
     bindA (get_cl c) (\<lambda>cl.
     thenA (case left_sib cl of
              None \<Rightarrow> ret ()
            | Some l \<Rightarrow>
                bindA (get_cl l) (\<lambda>lc.
                thenA (assertA (right_sib lc = Some c) Closure_c 201)
                      (upd_cl l (\<lambda>k. k\<lparr>right_sib := right_sib cl\<rparr>))))
    (thenA (case right_sib cl of
              None \<Rightarrow> ret ()
            | Some r \<Rightarrow>
                bindA (get_cl r) (\<lambda>rc.
                thenA (assertA (left_sib rc = Some c) Closure_c 205)
                      (upd_cl r (\<lambda>k. k\<lparr>left_sib := left_sib cl\<rparr>))))
           (upd_cl c (\<lambda>k. k\<lparr>left_sib := None, right_sib := None\<rparr>))))"

definition Closure_add_child :: "worker_id \<Rightarrow> addr \<Rightarrow> addr \<Rightarrow> (('v, 'a) sched_state_scheme, unit) act" where
  "Closure_add_child w parent child =
     thenA (Closure_assert_ownership w parent)
    (thenA (Closure_assert_alienation w child)
    (bindA (get_cl parent) (\<lambda>p.
     thenA (double_link_children (right_most_child p) (Some child))
           (upd_cl parent (\<lambda>k. k\<lparr>right_most_child := Some child\<rparr>)))))"

definition Closure_remove_child :: "worker_id \<Rightarrow> addr \<Rightarrow> addr \<Rightarrow> (('v, 'a) sched_state_scheme, unit) act" where
  "Closure_remove_child w parent child =
     bindA (get_cl child) (\<lambda>c.
     thenA (assertA (spawn_parent c = Some parent) Closure_c 258)
    (thenA (Closure_assert_ownership w parent)
    (thenA (Closure_assert_ownership w child)
    (bindA (get_cl parent) (\<lambda>p.
     thenA (whenA (right_most_child p = Some child)
              (thenA (assertA (right_sib c = None) Closure_c 264)
                     (upd_cl parent (\<lambda>k. k\<lparr>right_most_child := left_sib c\<rparr>))))
    (bindA (get_cl child) (\<lambda>c.
     thenA (assertA (right_rmap c = None) Closure_c 268)
           (unlink_child child))))))))"

definition Closure_add_temp_callee :: "addr \<Rightarrow> addr \<Rightarrow> (('v, 'a) sched_state_scheme, unit) act" where
  "Closure_add_temp_callee caller cle =
     bindA (get_cl caller) (\<lambda>p.
     thenA (assertA (\<not> has_cilk_callee p) Closure_c 285)
    (bindA (get_cl cle) (\<lambda>c.
     thenA (assertA (spawn_parent c = None) Closure_c 286)
    (thenA (upd_cl cle (\<lambda>k. k\<lparr>call_parent := Some caller\<rparr>))
           (upd_cl caller (\<lambda>k. k\<lparr>has_cilk_callee := True\<rparr>))))))"

definition Closure_add_callee :: "addr \<Rightarrow> addr \<Rightarrow> (('v, 'a) sched_state_scheme, unit) act" where
  "Closure_add_callee caller cle =
     bindA (get_cl cle) (\<lambda>c.
     bindA (get_sf (frame c)) (\<lambda>f.
     bindA (get_cl caller) (\<lambda>p.
     thenA (assertA (sf_call_parent f = frame p) Closure_c 294)
    (thenA (assertA (callee p = None) Closure_c 299)
    (thenA (assertA (spawn_parent c = None) Closure_c 300)
    (thenA (assertA (flags f AND CILK_FRAME_DETACHED = 0) Closure_c 301)
    (thenA (upd_cl cle (\<lambda>k. k\<lparr>call_parent := Some caller\<rparr>))
           (upd_cl caller (\<lambda>k. k\<lparr>callee := Some cle, has_cilk_callee := True\<rparr>)))))))))"

definition Closure_remove_callee :: "addr \<Rightarrow> (('v, 'a) sched_state_scheme, unit) act" where
  "Closure_remove_callee caller =
     bindA (get_cl caller) (\<lambda>p.
     thenA (assertA (status p = CLOSURE_SUSPENDED) Closure_c 312)
    (thenA (assertA (has_cilk_callee p) Closure_c 313)
           (upd_cl caller (\<lambda>k. k\<lparr>has_cilk_callee := False, callee := None\<rparr>))))"

section \<open>Suspension and destruction\<close>

definition Closure_suspend_victim :: "worker_id \<Rightarrow> worker_id \<Rightarrow> addr \<Rightarrow> (('v, 'a) sched_state_scheme, unit) act" where
  "Closure_suspend_victim thief victim cl =
     bindA (get_cl cl) (\<lambda>c.
     thenA (assertA (user_rmap c = None) Closure_c 325)
    (thenA (Closure_checkmagic cl)
    (thenA (Closure_assert_ownership thief cl)
    (thenA (deque_assert_ownership thief victim)
    (thenA (check (\<lambda>s. root_closure s = Some cl \<or> spawn_parent c \<noteq> None \<or> call_parent c \<noteq> None) (Assertion Closure_c 331))
    (thenA (Closure_change_status cl CLOSURE_RUNNING CLOSURE_SUSPENDED)
    (bindA (deque_xtract_bottom thief victim) (\<lambda>cl1.
     assertA (cl1 = Some cl) Closure_c 337))))))))"

definition Closure_suspend :: "worker_id \<Rightarrow> addr \<Rightarrow> (('v, 'a) sched_state_scheme, unit) act" where
  "Closure_suspend w cl =
     bindA (get_cl cl) (\<lambda>c.
     thenA (assertA (user_rmap c = None) Closure_c 345)
    (thenA (Closure_checkmagic cl)
    (thenA (Closure_assert_ownership w cl)
    (thenA (deque_assert_ownership w w)
    (thenA (check (\<lambda>s. root_closure s = Some cl \<or> spawn_parent c \<noteq> None \<or> call_parent c \<noteq> None) (Assertion Closure_c 353))
    (thenA (assertA (frame c \<noteq> None) Closure_c 355)
    (bindA (get_sf (frame c)) (\<lambda>f.
     thenA (assertA (cilkrts_stolen f) Closure_c 356)
    (thenA (assertA (sf_worker f = W w) Closure_c 357)
    (thenA (Closure_change_status cl CLOSURE_RUNNING CLOSURE_SUSPENDED)
    (thenA (upd_sf (frame c) (\<lambda>f. f\<lparr>sf_worker := Filler_bf5\<rparr>))
    (bindA (deque_xtract_bottom w w) (\<lambda>cl1.
     assertA (cl1 = Some cl) Closure_c 364)))))))))))))"

text \<open>The checks before a closure is given up; \<open>ln\<close> is the line of the first of the six assertions
  of the branch taken (with or without a worker).\<close>

definition Closure_clean :: "nat \<Rightarrow> addr \<Rightarrow> (('v, 'a) sched_state_scheme, unit) act" where
  "Closure_clean ln t =
     bindA (get_cl t) (\<lambda>c.
     thenA (assertA (\<not> lock_wait c) Closure_c 371)
    (thenA (assertA (left_sib c = None) Closure_c ln)
    (thenA (assertA (right_sib c = None) Closure_c (ln + 1))
    (thenA (assertA (right_most_child c = None) Closure_c (ln + 2))
    (thenA (assertA (user_rmap c = None) Closure_c (ln + 3))
    (thenA (assertA (child_rmap c = None) Closure_c (ln + 4))
           (assertA (right_rmap c = None) Closure_c (ln + 5))))))))"

definition Closure_destroy_main :: "addr \<Rightarrow> (('v, 'a) sched_state_scheme, unit) act" where
  "Closure_destroy_main t =
     thenA (Closure_set_status t CLOSURE_POST_INVALID)
    (thenA (Closure_clean 382 t)
           (modify (\<lambda>s. s\<lparr>closures := (closures s)(t := None), os_freed := t # os_freed s\<rparr>)))"

definition Closure_destroy :: "worker_id \<Rightarrow> addr \<Rightarrow> (('v, 'a) sched_state_scheme, unit) act" where
  "Closure_destroy w t =
     thenA (Closure_checkmagic t)
    (thenA (Closure_set_status t CLOSURE_POST_INVALID)
    (thenA (Closure_clean 375 t)
    (thenA (modify (\<lambda>s. s\<lparr>closures := (closures s)(t := None)\<rparr>))
           (cilk_internal_free w t SIZEOF_CLOSURE IM_CLOSURE))))"

definition Closure_destroy_global :: "addr \<Rightarrow> (('v, 'a) sched_state_scheme, unit) act" where
  "Closure_destroy_global t =
     thenA (Closure_set_status t CLOSURE_POST_INVALID)
    (thenA (Closure_clean 382 t)
    (thenA (modify (\<lambda>s. s\<lparr>closures := (closures s)(t := None)\<rparr>))
           (cilk_internal_free_global t SIZEOF_CLOSURE IM_CLOSURE)))"

end
