(* ===== verification/Scheduler.thy ===== *)
theory Scheduler
  imports Closures
begin

text \<open>
  The scheduler (runtime/scheduler.c): the exception pointer of the THE protocol, the return
  protocol, stealing with promotion of a stacklet, sync and the scheduling loop.

  A handler is one action: what the thread does from entry to exit, with the locks it takes and
  releases as changes of the lock fields, so that a lock another thread holds shows as \<open>Blocked\<close> (or
  as failure of a try-lock).  The loops over the chain of call parents and the scheduling loops carry
  a bound \<open>fuel\<close> on the number of passes; running out of it is the fault \<open>No_fuel\<close>.  Where control
  passes to the user's program and comes back by \<open>longjmp\<close>, the program is the parameter \<open>user\<close>.
  Statistics, alerts and the waiting between failed steal attempts have no part in the state.
\<close>

section \<open>Helpers\<close>

definition rts_rand :: "worker_id \<Rightarrow> (('v, 'a) sched_state_scheme, 32 word) act" where
  "rts_rand w =
     thenA (upd_w w (\<lambda>l. l\<lparr>rand_next := rand_next l * 1103515245 + 12345\<rparr>))
    (bindA (get_w w) (\<lambda>l. ret (drop_bit 16 (rand_next l))))"

definition rts_srand :: "worker_id \<Rightarrow> 32 word \<Rightarrow> (('v, 'a) sched_state_scheme, unit) act" where
  "rts_srand w seed = upd_w w (\<lambda>l. l\<lparr>rand_next := seed\<rparr>)"

definition worker_change_state :: "worker_id \<Rightarrow> worker_state \<Rightarrow> (('v, 'a) sched_state_scheme, unit) act" where
  "worker_change_state w st =
     bindA (get_w w) (\<lambda>l.
     thenA (assertA (w_state l \<noteq> st) Scheduler_c 42)
           (upd_w w (\<lambda>l. l\<lparr>w_state := st\<rparr>)))"

definition increment_exception_pointer :: "worker_id \<Rightarrow> worker_id \<Rightarrow> addr \<Rightarrow> (('v, 'a) sched_state_scheme, unit) act" where
  "increment_exception_pointer w victim cl =
     thenA (Closure_assert_ownership w cl)
    (bindA (get_cl cl) (\<lambda>c.
     thenA (assertA (status c = CLOSURE_RUNNING) Scheduler_c 61)
    (bindA (get_w victim) (\<lambda>v.
     whenA (exc v \<noteq> EXCEPTION_INFINITY) (upd_w victim (\<lambda>l. l\<lparr>exc := exc v + 1\<rparr>))))))"

definition decrement_exception_pointer :: "worker_id \<Rightarrow> worker_id \<Rightarrow> addr \<Rightarrow> (('v, 'a) sched_state_scheme, unit) act" where
  "decrement_exception_pointer w victim cl =
     thenA (Closure_assert_ownership w cl)
    (bindA (get_cl cl) (\<lambda>c.
     thenA (check (\<lambda>s. status c = CLOSURE_RUNNING \<or> root_closure s = Some cl) (Assertion Scheduler_c 78))
    (bindA (get_w victim) (\<lambda>v.
     whenA (exc v \<noteq> EXCEPTION_INFINITY) (upd_w victim (\<lambda>l. l\<lparr>exc := exc v - 1\<rparr>))))))"

definition reset_exception_pointer :: "worker_id \<Rightarrow> addr \<Rightarrow> (('v, 'a) sched_state_scheme, unit) act" where
  "reset_exception_pointer w cl =
     thenA (Closure_assert_ownership w cl)
    (bindA (get_cl cl) (\<lambda>c.
     thenA (whenA (frame c \<noteq> None)
              (bindA (get_sf (frame c)) (\<lambda>f. assertA (sf_worker f = W w) Scheduler_c 88)))
           (upd_w w (\<lambda>l. l\<lparr>exc := head l\<rparr>))))"

definition setup_for_execution :: "worker_id \<Rightarrow> addr \<Rightarrow> (('v, 'a) sched_state_scheme, unit) act" where
  "setup_for_execution w t =
     bindA (get_cl t) (\<lambda>c.
     thenA (upd_sf (frame c) (\<lambda>f. f\<lparr>sf_worker := W w\<rparr>))
    (thenA (Closure_set_status t CLOSURE_RUNNING)
    (thenA (upd_w w (\<lambda>l. l\<lparr>head := 0, tail := 0, current_stack_frame := frame c\<rparr>))
           (reset_exception_pointer w t))))"

definition setup_for_sync :: "worker_id \<Rightarrow> addr \<Rightarrow> (('v, 'a) sched_state_scheme, unit) act" where
  "setup_for_sync w t =
     thenA (Closure_assert_ownership w t)
    (bindA (get_w w) (\<lambda>l.
     thenA (assertA (fiber_to_free l = None) Scheduler_c 136)
    (bindA (get_cl t) (\<lambda>c.
     thenA (assertA (fiber c \<noteq> fiber_child c) Scheduler_c 137)
    (thenA (whenA (\<not> simulated_stolen c)
              (thenA (upd_w w (\<lambda>l. l\<lparr>fiber_to_free := fiber c\<rparr>))
                     (upd_cl t (\<lambda>k. k\<lparr>fiber := fiber_child c, fiber_child := None\<rparr>))))
    (bindA (get_cl t) (\<lambda>c.
     thenA (assertA (fiber c \<noteq> None) Scheduler_c 150)
    (thenA (upd_sf (frame c) cilkrts_set_synced)
    (thenA (assertA (current_stack_frame l = frame c) Scheduler_c 156)
    (thenA (upd_sf (frame c) (\<lambda>f. f\<lparr>SP := orig_rsp c\<rparr>))
    (thenA (upd_cl t (\<lambda>k. k\<lparr>orig_rsp := None\<rparr>))
           (upd_sf (frame c) (\<lambda>f. f\<lparr>sf_worker := W w\<rparr>)))))))))))))"

section \<open>The return protocol\<close>

definition setup_call_parent_resumption :: "worker_id \<Rightarrow> addr \<Rightarrow> (('v, 'a) sched_state_scheme, addr) act" where
  "setup_call_parent_resumption w t =
     thenA (deque_assert_ownership w w)
    (thenA (Closure_assert_ownership w t)
    (bindA (get_cl t) (\<lambda>c.
     bindA (get_sf (frame c)) (\<lambda>f.
     thenA (assertA (cilkrts_stolen f) Scheduler_c 194)
    (thenA (assertA (is_filler (sf_worker f)) Scheduler_c 196)
    (bindA (get_w w) (\<lambda>l.
     thenA (assertA (head l = tail l) Scheduler_c 197)
    (thenA (assertA (current_stack_frame l = frame c) Scheduler_c 198)
    (thenA (Closure_change_status t CLOSURE_SUSPENDED CLOSURE_RUNNING)
    (thenA (upd_sf (frame c) (\<lambda>f. f\<lparr>sf_worker := W w\<rparr>))
    (thenA (reset_exception_pointer w t)
           (ret t))))))))))))"

definition Cilk_set_return :: "worker_id \<Rightarrow> (('v, 'a) sched_state_scheme, unit) act" where
  "Cilk_set_return w =
     thenA (deque_lock_self w)
    (bindA (deque_peek_bottom w w) (\<lambda>tp.
     bindA (derefA tp) (\<lambda>t.
     thenA (Closure_lock w t)
    (bindA (get_cl t) (\<lambda>c.
     thenA (assertA (status c = CLOSURE_RUNNING) Scheduler_c 217)
    (thenA (assertA (\<not> Closure_has_children c) Scheduler_c 218)
    (thenA (assertA (child_rmap c = None \<and> right_rmap c = None) Scheduler_c 221)
    (thenA (assertA (call_parent c \<noteq> None) Scheduler_c 223)
    (thenA (assertA (spawn_parent c = None) Scheduler_c 224)
    (bindA (get_sf (frame c)) (\<lambda>f.
     thenA (assertA (flags f AND CILK_FRAME_DETACHED = 0) Scheduler_c 225)
    (thenA (assertA (\<not> simulated_stolen c) Scheduler_c 226)
    (bindA (derefA (call_parent c)) (\<lambda>cp.
     bindA (deque_xtract_bottom w w) (\<lambda>t1.
     thenA (assertA (t1 = Some t) Scheduler_c 232)
    (thenA (assertA (cilkrts_stolen f) Scheduler_c 233)
    (thenA (upd_cl t (\<lambda>k. k\<lparr>frame := None\<rparr>))
    (thenA (Closure_unlock w t)
    (thenA (Closure_lock w cp)
    (bindA (get_cl cp) (\<lambda>p.
     thenA (assertA (fiber p = fiber c) Scheduler_c 239)
    (thenA (upd_cl t (\<lambda>k. k\<lparr>fiber := None\<rparr>))
    (thenA (Closure_remove_callee cp)
    (thenA (bindA (setup_call_parent_resumption w cp) (\<lambda>_. ret ()))
    (thenA (Closure_unlock w cp)
    (thenA (Closure_destroy w t)
    (thenA (deque_add_bottom w cp w)
           (deque_unlock_self w))))))))))))))))))))))))))))"

definition unconditional_steal :: "worker_id \<Rightarrow> addr \<Rightarrow> (('v, 'a) sched_state_scheme, addr option) act" where
  "unconditional_steal w parent =
     thenA (Closure_assert_ownership w parent)
    (bindA (get_cl parent) (\<lambda>p.
     thenA (assertA (simulated_stolen p) Scheduler_c 263)
    (bindA (get_w w) (\<lambda>l.
     thenA (assertA (\<not> provably_good_steal l) Scheduler_c 264)
    (thenA (assertA (\<not> Closure_has_children p) Scheduler_c 265)
    (thenA (assertA (status p = CLOSURE_SUSPENDED) Scheduler_c 266)
    (thenA (assertA (frame p \<noteq> None) Scheduler_c 268)
    (bindA (get_sf (frame p)) (\<lambda>f.
     thenA (assertA (sf_worker f = Filler_bf5) Scheduler_c 269)
    (thenA (assertA (owner_ready_deque p = NO_WORKER) Scheduler_c 270)
    (thenA (assertA (fiber p = None \<and> fiber_child p \<noteq> None) Scheduler_c 271)
    (thenA (upd_cl parent (\<lambda>k. k\<lparr>fiber := fiber_child p, fiber_child := None\<rparr>))
    (thenA (Closure_make_ready parent)
           (ret (Some parent)))))))))))))))"

definition provably_good_steal_maybe :: "worker_id \<Rightarrow> addr \<Rightarrow> (('v, 'a) sched_state_scheme, addr option) act" where
  "provably_good_steal_maybe w parent =
     thenA (Closure_assert_ownership w parent)
    (bindA (get_w w) (\<lambda>l.
     thenA (assertA (\<not> provably_good_steal l) Scheduler_c 285)
    (bindA (get_cl parent) (\<lambda>p.
       if \<not> Closure_has_children p \<and> status p = CLOSURE_SUSPENDED then
         thenA (assertA (frame p \<noteq> None) Scheduler_c 291)
        (bindA (get_sf (frame p)) (\<lambda>f.
         thenA (assertA (is_filler (sf_worker f)) Scheduler_c 292)
        (thenA (upd_w w (\<lambda>l. l\<lparr>provably_good_steal := True\<rparr>))
        (thenA (setup_for_sync w parent)
        (bindA (get_cl parent) (\<lambda>p.
         thenA (assertA (owner_ready_deque p = NO_WORKER) Scheduler_c 298)
        (thenA (Closure_make_ready parent)
               (ret (Some parent)))))))))
       else ret None))))"

text \<open>The slot to the left of a returning child: the right slot of its left sibling, or the child
  slot of the parent.\<close>

definition get_left_exn :: "addr \<Rightarrow> addr option \<Rightarrow> (('v, 'a) sched_state_scheme, nat option) act" where
  "get_left_exn parent left = (case left of
      Some l \<Rightarrow> bindA (get_cl l) (\<lambda>k. ret (right_exn k))
    | None \<Rightarrow> bindA (get_cl parent) (\<lambda>k. ret (child_exn k)))"

definition set_left_exn :: "addr \<Rightarrow> addr option \<Rightarrow> nat option \<Rightarrow> (('v, 'a) sched_state_scheme, unit) act" where
  "set_left_exn parent left e = (case left of
      Some l \<Rightarrow> upd_cl l (\<lambda>k. k\<lparr>right_exn := e\<rparr>)
    | None \<Rightarrow> upd_cl parent (\<lambda>k. k\<lparr>child_exn := e\<rparr>))"

definition get_left_rmap :: "addr \<Rightarrow> addr option \<Rightarrow> (('v, 'a) sched_state_scheme, addr option) act" where
  "get_left_rmap parent left = (case left of
      Some l \<Rightarrow> bindA (get_cl l) (\<lambda>k. ret (right_rmap k))
    | None \<Rightarrow> bindA (get_cl parent) (\<lambda>k. ret (child_rmap k)))"

definition set_left_rmap :: "addr \<Rightarrow> addr option \<Rightarrow> addr option \<Rightarrow> (('v, 'a) sched_state_scheme, unit) act" where
  "set_left_rmap parent left m = (case left of
      Some l \<Rightarrow> upd_cl l (\<lambda>k. k\<lparr>right_rmap := m\<rparr>)
    | None \<Rightarrow> upd_cl parent (\<lambda>k. k\<lparr>child_rmap := m\<rparr>))"

definition delete_exn :: "nat option \<Rightarrow> (('v, 'a) sched_state_scheme, unit) act" where
  "delete_exn e = (case e of None \<Rightarrow> ret () | Some x \<Rightarrow> modify (\<lambda>s. s\<lparr>deleted_exns := x # deleted_exns s\<rparr>))"

text \<open>The first loop of \<open>Closure_return\<close>; parent and child are locked on entry and on exit.\<close>

primrec return_exn_loop :: "nat \<Rightarrow> worker_id \<Rightarrow> addr \<Rightarrow> addr \<Rightarrow> (('v, 'a) sched_state_scheme, unit) act" where
  "return_exn_loop 0 w parent child = fail No_fuel"
| "return_exn_loop (Suc n) w parent child =
     bindA (get_cl child) (\<lambda>c.
     let right = right_exn c in
     thenA (upd_cl child (\<lambda>k. k\<lparr>right_exn := None\<rparr>))
    (bindA (get_left_exn parent (left_sib c)) (\<lambda>left.
     thenA (set_left_exn parent (left_sib c) None)
    (bindA (get_cl child) (\<lambda>c.
       if left = None \<and> right = None then set_left_exn parent (left_sib c) (user_exn c)
       else
         thenA (Closure_unlock w child)
        (thenA (Closure_unlock w parent)
        (thenA (if left \<noteq> None
                then thenA (delete_exn (user_exn c))
                    (thenA (delete_exn right)
                           (upd_cl child (\<lambda>k. k\<lparr>user_exn := left\<rparr>)))
                else if user_exn c \<noteq> None then delete_exn right
                else upd_cl child (\<lambda>k. k\<lparr>user_exn := right\<rparr>))
        (thenA (Closure_lock w parent)
        (thenA (Closure_lock w child)
               (return_exn_loop n w parent child))))))))))"

text \<open>The second loop, which merges the reducer maps: the worker's map goes between the map deposited on
  its left and the one the siblings on its right have left with the child.\<close>

definition merge_three :: "worker_id \<Rightarrow> addr option \<Rightarrow> addr option \<Rightarrow> addr option \<Rightarrow> (('v, 'a) sched_state_scheme, addr option) act" where
  "merge_three w left active right =
     bindA (if left \<noteq> None then merge_two_rmaps w left active else ret active) (\<lambda>active.
     if right \<noteq> None then merge_two_rmaps w active right else ret active)"

primrec return_rmap_loop :: "nat \<Rightarrow> worker_id \<Rightarrow> addr \<Rightarrow> addr \<Rightarrow> (('v, 'a) sched_state_scheme, unit) act" where
  "return_rmap_loop 0 w parent child = fail No_fuel"
| "return_rmap_loop (Suc n) w parent child =
     bindA (get_cl child) (\<lambda>c.
     let right = right_rmap c in
     thenA (upd_cl child (\<lambda>k. k\<lparr>right_rmap := None\<rparr>))
    (bindA (get_left_rmap parent (left_sib c)) (\<lambda>left.
     thenA (set_left_rmap parent (left_sib c) None)
    (bindA (gets (\<lambda>s. wrmap s w)) (\<lambda>active.
     thenA (modify (\<lambda>s. s\<lparr>wrmap := (wrmap s)(w := None)\<rparr>))
           (if left = None \<and> right = None then set_left_rmap parent (left_sib c) active
            else
              thenA (Closure_unlock w child)
             (thenA (Closure_unlock w parent)
             (bindA (merge_three w left active right) (\<lambda>active.
              thenA (modify (\<lambda>s. s\<lparr>wrmap := (wrmap s)(w := active)\<rparr>))
             (thenA (Closure_lock w parent)
             (thenA (Closure_lock w child)
                    (return_rmap_loop n w parent child))))))))))))"

definition return_checks :: "worker_id \<Rightarrow> addr \<Rightarrow> (('v, 'a) sched_state_scheme, addr) act" where
  "return_checks w child =
     bindA (get_cl child) (\<lambda>c.
     thenA (assertA (join_counter c = 0) Scheduler_c 346)
    (thenA (assertA (status c = CLOSURE_RETURNING) Scheduler_c 347)
    (thenA (assertA (owner_ready_deque c = NO_WORKER) Scheduler_c 348)
    (thenA (Closure_assert_alienation w child)
    (thenA (assertA (\<not> has_cilk_callee c) Scheduler_c 351)
    (thenA (assertA (call_parent c = None) Scheduler_c 352)
    (thenA (assertA (spawn_parent c \<noteq> None) Scheduler_c 353)
    (thenA (assertA (child_rmap c = None \<and> user_rmap c = None) Scheduler_c 361)
           (derefA (spawn_parent c))))))))))"

text \<open>Unlinking the child, parent and child locked: the stack goes to the parent if the child is
  the leftmost one, and the parent has one child less.\<close>

definition return_unlink :: "worker_id \<Rightarrow> addr \<Rightarrow> addr \<Rightarrow> (('v, 'a) sched_state_scheme, unit) act" where
  "return_unlink w parent child =
     bindA (get_cl child) (\<lambda>c.
     bindA (get_cl parent) (\<lambda>p.
     thenA (if left_sib c \<noteq> None \<or> fiber_child p \<noteq> None
            then thenA (assertA (fiber_child p \<noteq> fiber c) Scheduler_c 474)
                       (cilk_fiber_deallocate_to_pool w (fiber c))
            else upd_cl parent (\<lambda>k. k\<lparr>fiber_child := fiber c\<rparr>))
    (thenA (upd_cl child (\<lambda>k. k\<lparr>fiber := None\<rparr>))
    (thenA (Closure_remove_child w parent child)
    (thenA (Closure_unlock w child)
    (thenA (Closure_destroy w child)
    (bindA (get_cl parent) (\<lambda>p.
     thenA (assertA (status p \<noteq> CLOSURE_RETURNING) Scheduler_c 499)
    (thenA (assertA (frame p \<noteq> None) Scheduler_c 500)
    (thenA (assertA (join_counter p \<noteq> 0) Scheduler_c 502)
           (upd_cl parent (\<lambda>k. k\<lparr>join_counter := join_counter k - 1\<rparr>))))))))))))"

text \<open>When the parent can be resumed: its exceptions and reducer maps are reduced into it and into
  the worker.\<close>

definition return_resume :: "worker_id \<Rightarrow> addr \<Rightarrow> (('v, 'a) sched_state_scheme, unit) act" where
  "return_resume w parent =
     bindA (get_cl parent) (\<lambda>p.
     thenA (upd_cl parent (\<lambda>k. k\<lparr>child_exn := None, user_exn := None\<rparr>))
    (thenA (if child_exn p = None then upd_cl parent (\<lambda>k. k\<lparr>user_exn := user_exn p\<rparr>)
            else thenA (delete_exn (user_exn p))
                (thenA (upd_cl parent (\<lambda>k. k\<lparr>user_exn := child_exn p\<rparr>))
                       (upd_sf (frame p) (\<lambda>f. f\<lparr>flags := flags f OR CILK_FRAME_EXCEPTION_PENDING\<rparr>))))
    (thenA (check (\<lambda>s. wrmap s w = None) (Assertion Scheduler_c 531))
    (thenA (upd_cl parent (\<lambda>k. k\<lparr>child_rmap := None, user_rmap := None\<rparr>))
    (bindA (merge_two_rmaps w (child_rmap p) (user_rmap p)) (\<lambda>m.
     thenA (modify (\<lambda>s. s\<lparr>wrmap := (wrmap s)(w := m)\<rparr>))
           (whenA (simulated_stolen p)
              (thenA (upd_cl parent (\<lambda>k. k\<lparr>child_rmap := m\<rparr>))
                     (modify (\<lambda>s. s\<lparr>wrmap := (wrmap s)(w := None)\<rparr>))))))))))"

text \<open>Run by one thread without others in between, either loop takes at most two passes.\<close>

definition Closure_return :: "worker_id \<Rightarrow> addr \<Rightarrow> (('v, 'a) sched_state_scheme, addr option) act" where
  "Closure_return w child =
     bindA (return_checks w child) (\<lambda>parent.
     thenA (Closure_lock w parent)
    (thenA (Closure_lock w child)
    (thenA (return_exn_loop 2 w parent child)
    (thenA (return_rmap_loop 2 w parent child)
    (thenA (return_unlink w parent child)
    (bindA (get_cl parent) (\<lambda>p.
     bindA (if simulated_stolen p
            then bindA (unconditional_steal w parent) (\<lambda>res.
                 bindA (get_cl parent) (\<lambda>p.
                 thenA (assertA (fiber p \<noteq> None \<and> fiber_child p = None) Scheduler_c 509)
                       (ret res)))
            else provably_good_steal_maybe w parent) (\<lambda>res.
     thenA (whenA (res \<noteq> None) (return_resume w parent))
    (thenA (Closure_unlock w parent)
           (ret res))))))))))"

definition return_value :: "worker_id \<Rightarrow> addr \<Rightarrow> (('v, 'a) sched_state_scheme, addr option) act" where
  "return_value w t =
     bindA (get_cl t) (\<lambda>c.
     thenA (assertA (status c = CLOSURE_RETURNING) Scheduler_c 564)
    (thenA (assertA (call_parent c = None) Scheduler_c 565)
           (if call_parent c = None then Closure_return w t else ret None)))"

text \<open>Where \<open>Cilk_exception_handler\<close> goes: back to the user's code, or to the scheduling loop.\<close>

datatype handler_exit = To_user | To_runtime

definition Cilk_exception_handler :: "worker_id \<Rightarrow> nat option \<Rightarrow> (('v, 'a) sched_state_scheme, handler_exit) act" where
  "Cilk_exception_handler w exn =
     thenA (deque_lock_self w)
    (bindA (deque_peek_bottom w w) (\<lambda>tp.
     thenA (assertA (tp \<noteq> None) Scheduler_c 600)
    (bindA (derefA tp) (\<lambda>t.
     thenA (Closure_lock w t)
    (thenA (reset_exception_pointer w t)
    (bindA (get_cl t) (\<lambda>c.
     thenA (assertA (status c = CLOSURE_RUNNING \<or> status c = CLOSURE_RETURNING) Scheduler_c 608)
    (bindA (get_w w) (\<lambda>l.
       if tail l < head l then
         thenA (whenA (exn \<noteq> None) (upd_cl t (\<lambda>k. k\<lparr>user_exn := exn\<rparr>)))
        (thenA (whenA (status c = CLOSURE_RUNNING)
                  (thenA (assertA (\<not> Closure_has_children c) Scheduler_c 623)
                         (Closure_set_status t CLOSURE_RETURNING)))
        (thenA (Closure_unlock w t)
        (thenA (deque_unlock_self w)
               (ret To_runtime))))
       else
         thenA (Closure_unlock w t)
        (thenA (deque_unlock_self w)
               (ret To_user)))))))))))"

section \<open>Stealing\<close>

definition trivial_stacklet :: "stack_frame \<Rightarrow> bool" where
  "trivial_stacklet f \<longleftrightarrow> flags f AND CILK_FRAME_DETACHED \<noteq> 0"

primrec oldest_non_stolen_frame_in_stacklet :: "nat \<Rightarrow> addr option \<Rightarrow> (('v, 'a) sched_state_scheme, addr option) act" where
  "oldest_non_stolen_frame_in_stacklet 0 cur = fail No_fuel"
| "oldest_non_stolen_frame_in_stacklet (Suc n) cur =
     (if cur = None then ret cur
      else
        bindA (get_sf cur) (\<lambda>f.
          if flags f AND CILK_FRAME_DETACHED = 0 \<and> sf_call_parent f \<noteq> None
          then bindA (get_sf (sf_call_parent f)) (\<lambda>g.
                 if \<not> cilkrts_stolen g then oldest_non_stolen_frame_in_stacklet n (sf_call_parent f) else ret cur)
          else ret cur))"

primrec setup_call_parent_closure_helper ::
  "nat \<Rightarrow> worker_id \<Rightarrow> worker_id \<Rightarrow> addr option \<Rightarrow> addr \<Rightarrow> (('v, 'a) sched_state_scheme, addr) act" where
  "setup_call_parent_closure_helper 0 w victim fr oldest = fail No_fuel"
| "setup_call_parent_closure_helper (Suc n) w victim fr oldest =
     bindA (get_cl oldest) (\<lambda>oc.
       if frame oc = fr then
         bindA (get_sf fr) (\<lambda>f.
         thenA (assertA (cilkrts_stolen f) Scheduler_c 675)
        (thenA (assertA (fiber oc \<noteq> None) Scheduler_c 676)
               (ret oldest)))
       else
         bindA (get_sf fr) (\<lambda>f.
         bindA (setup_call_parent_closure_helper n w victim (sf_call_parent f) oldest) (\<lambda>cp.
         thenA (upd_sf fr cilkrts_set_stolen)
        (bindA (Closure_create w) (\<lambda>cur.
         thenA (upd_cl cur (\<lambda>k. k\<lparr>frame := fr\<rparr>))
        (bindA (get_sf fr) (\<lambda>f.
         thenA (assertA (sf_worker f = W victim) Scheduler_c 686)
        (bindA (get_cl cp) (\<lambda>p.
         thenA (assertA (fiber p \<noteq> None) Scheduler_c 687)
        (thenA (Closure_set_status cur CLOSURE_SUSPENDED)
        (thenA (upd_sf fr (\<lambda>f. f\<lparr>sf_worker := Filler_bf5\<rparr>))
        (thenA (upd_cl cur (\<lambda>k. k\<lparr>fiber := fiber p\<rparr>))
        (thenA (Closure_add_callee cp cur)
               (ret cur))))))))))))))"

definition setup_closures_in_stacklet :: "nat \<Rightarrow> worker_id \<Rightarrow> worker_id \<Rightarrow> addr \<Rightarrow> (('v, 'a) sched_state_scheme, unit) act" where
  "setup_closures_in_stacklet n w victim youngest_cl =
     bindA (get_cl youngest_cl) (\<lambda>yc.
     bindA (derefA (call_parent yc)) (\<lambda>oldest_cl.
     bindA (oldest_non_stolen_frame_in_stacklet n (frame yc)) (\<lambda>oldest.
     bindA (get_sf (frame yc)) (\<lambda>yf.
     thenA (assertA (sf_worker yf = W victim) Scheduler_c 718)
    (thenA (assertA (cilkrts_stolen yf) Scheduler_c 719)
    (bindA (get_cl oldest_cl) (\<lambda>oc.
     thenA (if frame oc = None \<and> oldest \<noteq> frame yc then ret ()
            else bindA (get_sf oldest) (\<lambda>f.
                 thenA (assertA (frame oc = sf_call_parent f) Scheduler_c 721)
                (bindA (get_sf (frame oc)) (\<lambda>g. assertA (cilkrts_stolen g) Scheduler_c 721))))
    (thenA (whenA (frame oc = None)
              (bindA (get_sf oldest) (\<lambda>f.
               thenA (assertA (cilkrts_not_stolen f) Scheduler_c 726)
              (thenA (assertA (flags f AND CILK_FRAME_DETACHED \<noteq> 0) Scheduler_c 727)
              (thenA (upd_sf oldest cilkrts_set_stolen)
                     (upd_cl oldest_cl (\<lambda>k. k\<lparr>frame := oldest\<rparr>)))))))
    (bindA (get_sf oldest) (\<lambda>f.
     thenA (assertA (sf_worker f = W victim) Scheduler_c 731)
    (bindA (get_cl oldest_cl) (\<lambda>oc.
     thenA (upd_sf (frame oc) (\<lambda>f. f\<lparr>sf_worker := Filler_bf4\<rparr>))
    (bindA (setup_call_parent_closure_helper n w victim (sf_call_parent yf) oldest_cl) (\<lambda>cp.
     bindA (get_cl youngest_cl) (\<lambda>yc.
     bindA (get_cl oldest_cl) (\<lambda>oc.
     thenA (assertA (fiber yc \<noteq> fiber oc) Scheduler_c 737)
    (bindA (get_sf (frame yc)) (\<lambda>yf.
     thenA (assertA (sf_worker yf = W victim) Scheduler_c 738)
           (Closure_add_callee cp youngest_cl)))))))))))))))))))"

definition do_dekker_on :: "worker_id \<Rightarrow> worker_id \<Rightarrow> addr \<Rightarrow> (('v, 'a) sched_state_scheme, bool) act" where
  "do_dekker_on w victim cl =
     thenA (Closure_assert_ownership w cl)
    (thenA (increment_exception_pointer w victim cl)
    (bindA (get_w victim) (\<lambda>v.
       if tail v \<le> head v
       then thenA (decrement_exception_pointer w victim cl) (ret False)
       else ret True)))"

definition shadow_at :: "worker \<Rightarrow> int \<Rightarrow> (('v, 'a) sched_state_scheme, addr option) act" where
  "shadow_at v i =
     (if 0 \<le> i \<and> nat i < length (shadow_stack v) then ret (shadow_stack v ! nat i) else fail Out_of_bounds)"

text \<open>The choice \<open>promote_child\<close> makes of the closure to resume: the closure \<open>cl\<close> on the victim's deque,
  or a new one for the frame at the head when \<open>cl\<close> stands for an older frame of the stacklet.  The
  second component is the \<open>*res\<close> of the code.\<close>

definition promote_parent :: "worker_id \<Rightarrow> worker_id \<Rightarrow> addr \<Rightarrow> addr option \<Rightarrow> (('v, 'a) sched_state_scheme, addr \<times> addr option) act" where
  "promote_parent w victim cl fr =
     bindA (get_cl cl) (\<lambda>c.
     bindA (get_sf fr) (\<lambda>f.
       if frame c = fr then
         thenA (assertA (cilkrts_stolen f) Scheduler_c 839)
               (ret (cl, None))
       else if trivial_stacklet f then
         thenA (assertA (cilkrts_not_stolen f) Scheduler_c 842)
        (thenA (assertA (sf_call_parent f \<noteq> None) Scheduler_c 843)
        (bindA (get_sf (sf_call_parent f)) (\<lambda>g.
         thenA (assertA (cilkrts_stolen g) Scheduler_c 843)
        (thenA (assertA (flags f AND CILK_FRAME_LAST = 0) Scheduler_c 845)
        (thenA (assertA (frame c = None) Scheduler_c 846)
        (thenA (upd_cl cl (\<lambda>k. k\<lparr>frame := fr\<rparr>))
        (thenA (upd_sf fr cilkrts_set_stolen)
               (ret (cl, None)))))))))
       else
         bindA (Closure_create w) (\<lambda>sp.
         thenA (upd_cl sp (\<lambda>k. k\<lparr>frame := fr\<rparr>))
        (thenA (upd_sf fr cilkrts_set_stolen)
        (thenA (Closure_set_status sp CLOSURE_RUNNING)
        (thenA (Closure_add_temp_callee cl sp)
        (thenA (upd_cl sp (\<lambda>k. k\<lparr>call_parent := Some cl\<rparr>))
        (thenA (Closure_suspend_victim w victim cl)
        (thenA (Closure_unlock w cl)
        (thenA (Closure_lock w sp)
               (ret (sp, Some sp)))))))))))) "

definition promote_child :: "worker_id \<Rightarrow> worker_id \<Rightarrow> addr \<Rightarrow> (('v, 'a) sched_state_scheme, addr \<times> addr option) act" where
  "promote_child w victim cl =
     thenA (deque_assert_ownership w victim)
    (thenA (Closure_assert_ownership w cl)
    (bindA (get_cl cl) (\<lambda>c.
     thenA (assertA (status c = CLOSURE_RUNNING) Scheduler_c 804)
    (thenA (assertA (owner_ready_deque c = victim) Scheduler_c 805)
    (thenA (assertA (next_ready c = None) Scheduler_c 806)
    (thenA (check (\<lambda>s. root_closure s = Some cl \<or> spawn_parent c \<noteq> None \<or> call_parent c \<noteq> None) (Assertion Scheduler_c 812))
    (bindA (get_w victim) (\<lambda>v.
     bindA (shadow_at v (head v)) (\<lambda>fr.
     thenA (assertA (head v \<le> exc v) Scheduler_c 827)
    (thenA (assertA (head v \<le> tail v) Scheduler_c 828)
    (thenA (assertA (fr \<noteq> None) Scheduler_c 829)
    (bindA (promote_parent w victim cl fr) (\<lambda>(sp, res).
     bindA (get_cl sp) (\<lambda>p.
     bindA (get_sf fr) (\<lambda>f.
     thenA (whenA (orig_rsp p = None) (upd_cl sp (\<lambda>k. k\<lparr>orig_rsp := SP f\<rparr>)))
    (thenA (assertA (\<not> has_cilk_callee p) Scheduler_c 880)
    (bindA (Closure_create w) (\<lambda>ch.
     thenA (upd_cl ch (\<lambda>k. k\<lparr>spawn_parent := Some sp\<rparr>))
    (thenA (Closure_set_status ch CLOSURE_RUNNING)
    (thenA (Closure_add_child w sp ch)
    (thenA (upd_cl sp (\<lambda>k. k\<lparr>join_counter := join_counter k + 1\<rparr>))
    (thenA (upd_w victim (\<lambda>l. l\<lparr>head := head v + 1\<rparr>))
    (thenA (upd_cl ch (\<lambda>k. k\<lparr>frame := None\<rparr>))
    (thenA (deque_add_bottom w ch victim)
           (ret (ch, res))))))))))))))))))))))))))"

definition finish_promote :: "nat \<Rightarrow> worker_id \<Rightarrow> worker_id \<Rightarrow> addr \<Rightarrow> bool \<Rightarrow> (('v, 'a) sched_state_scheme, unit) act" where
  "finish_promote n w victim parent has_frames_to_promote =
     bindA (get_cl parent) (\<lambda>p.
     bindA (get_sf (frame p)) (\<lambda>f.
     thenA (assertA (sf_worker f = W victim) Scheduler_c 920)
    (thenA (Closure_assert_ownership w parent)
    (thenA (assertA (\<not> has_cilk_callee p) Scheduler_c 923)
    (thenA (assertA (cilkrts_stolen f) Scheduler_c 924)
    (thenA (whenA has_frames_to_promote (setup_closures_in_stacklet n w victim parent))
    (bindA (get_sf (frame p)) (\<lambda>f.
     thenA (assertA (sf_worker f = W victim) Scheduler_c 934)
    (thenA (upd_sf (frame p) cilkrts_set_unsynced)
           (Closure_make_ready parent))))))))))"

definition extract_top_spawning_closure :: "worker_id \<Rightarrow> worker_id \<Rightarrow> addr \<Rightarrow> (('v, 'a) sched_state_scheme, addr) act" where
  "extract_top_spawning_closure w victim cl =
     bindA (get_cl cl) (\<lambda>c.
     thenA (deque_assert_ownership w victim)
    (thenA (Closure_assert_ownership w cl)
    (thenA (assertA (fiber c \<noteq> None) Scheduler_c 964)
    (bindA (promote_child w victim cl) (\<lambda>(ch, res).
     bindA (case res of
              Some r \<Rightarrow> ret r
            | None \<Rightarrow>
                bindA (deque_xtract_top w victim) (\<lambda>r.
                thenA (assertA (r = Some cl) Scheduler_c 981)
                      (ret cl))) (\<lambda>res.
     thenA (if w = victim then upd_cl res (\<lambda>k. k\<lparr>fiber := None\<rparr>)
            else bindA (cilk_fiber_allocate_from_pool w) (\<lambda>f. upd_cl res (\<lambda>k. k\<lparr>fiber := Some f\<rparr>)))
    (thenA (Closure_assert_alienation w ch)
    (thenA (upd_cl ch (\<lambda>k. k\<lparr>fiber := fiber c\<rparr>))
           (ret res)))))))))"

text \<open>The attempt on a victim; the last branch is the \<open>default\<close> case of the switch, which returns with
  the closure and the deque locked.\<close>

definition Closure_steal :: "nat \<Rightarrow> worker_id \<Rightarrow> worker_id \<Rightarrow> (('v, 'a) sched_state_scheme, addr option) act" where
  "Closure_steal n w victim =
     bindA (get_w victim) (\<lambda>v.
       if tail v \<le> head v then ret None
       else
         bindA (deque_trylock w victim) (\<lambda>got.
           if \<not> got then ret None
           else
             bindA (deque_peek_top w victim) (\<lambda>clp.
               case clp of
                 None \<Rightarrow> thenA (deque_unlock w victim) (ret None)
               | Some cl \<Rightarrow>
                   bindA (Closure_trylock w cl) (\<lambda>got.
                     if \<not> got then thenA (deque_unlock w victim) (ret None)
                     else
                       bindA (get_cl cl) (\<lambda>c.
                         case status c of
                           CLOSURE_RUNNING \<Rightarrow>
                             bindA (do_dekker_on w victim cl) (\<lambda>ok.
                               if ok then
                                 bindA (extract_top_spawning_closure w victim cl) (\<lambda>res.
                                 thenA (deque_unlock w victim)
                                (bindA (get_cl res) (\<lambda>r.
                                 thenA (assertA (fiber r \<noteq> None) Scheduler_c 1050)
                                (bindA (get_sf (frame r)) (\<lambda>f.
                                 thenA (assertA (sf_worker f = W victim) Scheduler_c 1051)
                                (thenA (Closure_assert_ownership w res)
                                (thenA (finish_promote n w victim res (cl \<noteq> res))
                                (bindA (get_sf (frame r)) (\<lambda>f.
                                 thenA (assertA (sf_worker f = W victim) Scheduler_c 1066)
                                (thenA (Closure_unlock w res)
                                       (ret (Some res))))))))))))
                               else thenA (Closure_unlock w cl)
                                   (thenA (deque_unlock w victim)
                                          (ret None)))
                         | CLOSURE_RETURNING \<Rightarrow>
                             thenA (Closure_unlock w cl)
                            (thenA (deque_unlock w victim)
                                   (ret None))
                         | _ \<Rightarrow>
                             thenA (check (\<lambda>s. root_closure s = Some cl) (Bug Scheduler_c 1086))
                                   (ret None))))))"

primrec promote_own_deque_loop :: "nat \<Rightarrow> nat \<Rightarrow> worker_id \<Rightarrow> (('v, 'a) sched_state_scheme, unit) act" where
  "promote_own_deque_loop 0 n w = fail No_fuel"
| "promote_own_deque_loop (Suc m) n w =
     bindA (deque_peek_top w w) (\<lambda>clp.
     thenA (assertA (clp \<noteq> None) Scheduler_c 1119)
    (bindA (derefA clp) (\<lambda>cl.
     bindA (get_cl cl) (\<lambda>c.
     thenA (assertA (status c = CLOSURE_RUNNING) Scheduler_c 1120)
    (bindA (Closure_trylock w cl) (\<lambda>got.
       if \<not> got then thenA (deque_unlock w w) (fail (Bug Scheduler_c 1124))
       else
         bindA (do_dekker_on w w cl) (\<lambda>ok.
           if ok then
             bindA (extract_top_spawning_closure w w cl) (\<lambda>res.
             bindA (get_cl res) (\<lambda>r.
             thenA (assertA (fiber r = None) Scheduler_c 1133)
            (bindA (get_sf (frame r)) (\<lambda>f.
             thenA (assertA (sf_worker f = W w) Scheduler_c 1134)
            (thenA (finish_promote n w w res (cl \<noteq> res))
            (thenA (Closure_set_status res CLOSURE_SUSPENDED)
            (thenA (upd_sf (frame r) (\<lambda>f. f\<lparr>sf_worker := Filler_bf5\<rparr>))
            (thenA (upd_cl res (\<lambda>k. k\<lparr>simulated_stolen := True\<rparr>))
            (thenA (Closure_unlock w res)
                   (promote_own_deque_loop m n w))))))))))
           else thenA (Closure_unlock w cl)
                      (deque_unlock w w))))))))"

definition promote_own_deque :: "nat \<Rightarrow> worker_id \<Rightarrow> (('v, 'a) sched_state_scheme, unit) act" where
  "promote_own_deque n w =
     bindA (deque_trylock w w) (\<lambda>got.
       if \<not> got then fail (Bug Scheduler_c 1111)
       else promote_own_deque_loop n n w)"

section \<open>Scheduling\<close>

definition get_fiber :: "addr option \<Rightarrow> (('v, 'a) sched_state_scheme, cilk_fiber) act" where
  "get_fiber p = bindA (derefA p) (\<lambda>a. bindA (gets (\<lambda>s. fibers s a)) derefA)"

definition sysdep_reset_stack_for_resume :: "addr option \<Rightarrow> addr option \<Rightarrow> (('v, 'a) sched_state_scheme, addr) act" where
  "sysdep_reset_stack_for_resume fb sf =
     thenA (assertA (fb \<noteq> None) Fiber_c 116)
    (bindA (get_fiber fb) (\<lambda>x.
     thenA (upd_sf sf (\<lambda>f. f\<lparr>SP := Some (resume_sp x)\<rparr>))
           (ret (resume_sp x))))"

text \<open>An address of the frame inside the fiber it is resumed on.\<close>

definition assert_in_fiber :: "addr option \<Rightarrow> addr option \<Rightarrow> nat \<Rightarrow> (('v, 'a) sched_state_scheme, unit) act" where
  "assert_in_fiber fb p ln =
     bindA (get_fiber fb) (\<lambda>x. assertA (case p of None \<Rightarrow> False | Some a \<Rightarrow> in_fiber x a) Scheduler_c ln)"

definition longjmp_to_user_code :: "worker_id \<Rightarrow> addr \<Rightarrow> (('v, 'a) sched_state_scheme, unit) act" where
  "longjmp_to_user_code w t =
     bindA (get_w w) (\<lambda>l.
     thenA (assertA (w_state l = WORKER_RUN) Scheduler_c 1161)
    (bindA (get_cl t) (\<lambda>c.
     thenA (assertA ((frame c \<noteq> None \<and> fiber c \<noteq> None) \<or> (simulated_stolen c \<and> fiber c = None)) Scheduler_c 1166)
           (if provably_good_steal l then
              bindA (get_sf (frame c)) (\<lambda>f.
              thenA (whenA (flags f AND CILK_FRAME_EXCEPTING = 0)
                       (thenA (assertA (orig_rsp c = None) Scheduler_c 1176)
                       (thenA (whenA (flags f AND CILK_FRAME_LAST = 0) (assert_in_fiber (fiber c) (FP f) 1177))
                              (assert_in_fiber (fiber c) (SP f) 1179))))
             (thenA (upd_sf (frame c) (\<lambda>f. f\<lparr>flags := flags f AND NOT CILK_FRAME_EXCEPTING\<rparr>))
                    (upd_w w (\<lambda>l. l\<lparr>provably_good_steal := False\<rparr>))))
            else
              bindA (gets (\<lambda>s. root_closure s = Some t \<and> \<not> root_closure_initialized s)) (\<lambda>first.
                if first then modify (\<lambda>s. s\<lparr>root_closure_initialized := True\<rparr>)
                else whenA (\<not> simulated_stolen c)
                  (bindA (sysdep_reset_stack_for_resume (fiber c) (frame c)) (\<lambda>new_rsp.
                   bindA (get_sf (frame c)) (\<lambda>f.
                   assertA (SP f = Some new_rsp) Scheduler_c 1194))))))))"

text \<open>Freeing the fiber the worker has left, as \<open>Cilk_sync\<close> and the return to the runtime do.\<close>

definition free_left_fiber :: "worker_id \<Rightarrow> (('v, 'a) sched_state_scheme, unit) act" where
  "free_left_fiber w =
     bindA (get_w w) (\<lambda>l.
     whenA (fiber_to_free l \<noteq> None)
       (thenA (cilk_fiber_deallocate_to_pool w (fiber_to_free l))
              (upd_w w (\<lambda>l. l\<lparr>fiber_to_free := None\<rparr>))))"

datatype sync_result = SYNC_READY | SYNC_NOT_READY

text \<open>The part of \<open>Cilk_sync\<close> under the locks of the deque and the closure.\<close>

definition sync_locked :: "worker_id \<Rightarrow> addr \<Rightarrow> addr \<Rightarrow> (('v, 'a) sched_state_scheme, sync_result) act" where
  "sync_locked w fr t =
     bindA (Closure_at_top_of_stack w) (\<lambda>at_top.
     thenA (assertA at_top Scheduler_c 1230)
    (bindA (get_cl t) (\<lambda>c.
     thenA (assertA (\<not> simulated_stolen c \<or> \<not> Closure_has_children c) Scheduler_c 1231)
    (thenA (assertA (status c = CLOSURE_RUNNING) Scheduler_c 1235)
    (thenA (assertA (frame c \<noteq> None) Scheduler_c 1236)
    (thenA (assertA (frame c = Some fr) Scheduler_c 1237)
    (bindA (get_sf (Some fr)) (\<lambda>f.
     thenA (assertA (sf_worker f = W w) Scheduler_c 1238)
    (thenA (assertA (cilkrts_stolen f) Scheduler_c 1239)
    (thenA (assertA (\<not> has_cilk_callee c) Scheduler_c 1240)
    (thenA (assertA (user_rmap c = None) Scheduler_c 1245)
    (bindA (get_w w) (\<lambda>l.
     thenA (assertA (fiber_to_free l = None \<or> fiber_to_free l \<noteq> fiber c) Scheduler_c 1252)
    (thenA (free_left_fiber w)
           (if Closure_has_children c then
              thenA (if user_exn c = None then upd_w w (\<lambda>l. l\<lparr>fiber_to_free := fiber c\<rparr>)
                     else upd_cl t (\<lambda>k. k\<lparr>saved_throwing_fiber := fiber c\<rparr>))
             (thenA (upd_cl t (\<lambda>k. k\<lparr>fiber := None\<rparr>))
             (bindA (gets (\<lambda>s. wrmap s w)) (\<lambda>reducers.
              thenA (modify (\<lambda>s. s\<lparr>wrmap := (wrmap s)(w := None)\<rparr>))
             (thenA (Closure_suspend w t)
             (thenA (upd_cl t (\<lambda>k. k\<lparr>user_rmap := reducers\<rparr>))
                    (ret SYNC_NOT_READY))))))
            else thenA (setup_for_sync w t) (ret SYNC_READY))))))))))))))))"

text \<open>The part after a successful sync, without locks: the children's exception and reducer map
  are taken over.\<close>

definition sync_collect :: "worker_id \<Rightarrow> addr \<Rightarrow> addr \<Rightarrow> (('v, 'a) sched_state_scheme, unit) act" where
  "sync_collect w fr t =
     bindA (get_cl t) (\<lambda>c.
     thenA (whenA (child_exn c \<noteq> None)
              (thenA (delete_exn (user_exn c))
              (thenA (upd_cl t (\<lambda>k. k\<lparr>user_exn := child_exn c, child_exn := None\<rparr>))
                     (upd_sf (Some fr) (\<lambda>f. f\<lparr>flags := flags f OR CILK_FRAME_EXCEPTION_PENDING\<rparr>)))))
    (thenA (whenA (child_rmap c \<noteq> None)
              (thenA (upd_cl t (\<lambda>k. k\<lparr>child_rmap := None\<rparr>))
              (bindA (gets (\<lambda>s. wrmap s w)) (\<lambda>own.
               bindA (merge_two_rmaps w (child_rmap c) own) (\<lambda>m.
               modify (\<lambda>s. s\<lparr>wrmap := (wrmap s)(w := m)\<rparr>))))))
           (whenA (simulated_stolen c) (upd_cl t (\<lambda>k. k\<lparr>simulated_stolen := False\<rparr>)))))"

definition Cilk_sync :: "worker_id \<Rightarrow> addr \<Rightarrow> (('v, 'a) sched_state_scheme, sync_result) act" where
  "Cilk_sync w fr =
     thenA (deque_lock_self w)
    (bindA (deque_peek_bottom w w) (\<lambda>tp.
     bindA (derefA tp) (\<lambda>t.
     thenA (Closure_lock w t)
    (bindA (sync_locked w fr t) (\<lambda>res.
     thenA (Closure_unlock w t)
    (thenA (deque_unlock_self w)
    (thenA (whenA (res = SYNC_READY) (sync_collect w fr t))
           (ret res))))))))"

definition do_what_it_says :: "(('v, 'a) sched_state_scheme, unit) act \<Rightarrow> worker_id \<Rightarrow> addr \<Rightarrow> (('v, 'a) sched_state_scheme, addr option) act" where
  "do_what_it_says user w t =
     thenA (Closure_lock w t)
    (bindA (get_cl t) (\<lambda>c.
       case status c of
         CLOSURE_READY \<Rightarrow>
           bindA (get_w w) (\<lambda>l.
           thenA (assertA (fiber_to_free l = None) Scheduler_c 1326)
          (thenA (setup_for_execution w t)
          (thenA (assertA (frame c \<noteq> None) Scheduler_c 1334)
          (thenA (Closure_unlock w t)
          (thenA (deque_lock_self w)
          (thenA (deque_add_bottom w t w)
          (thenA (deque_unlock_self w)
          (thenA (worker_change_state w WORKER_RUN)
          (thenA (longjmp_to_user_code w t)
          (thenA user
          (thenA (worker_change_state w WORKER_SCHED)
          (thenA (free_left_fiber w)
                 (ret None)))))))))))))
       | CLOSURE_RETURNING \<Rightarrow>
           thenA (Closure_unlock w t)
                 (return_value w t)
       | _ \<Rightarrow> fail (Bug Scheduler_c 1380)))"

text \<open>The steal loop of \<open>worker_scheduler\<close>: random victims until one attempt succeeds or the region ends.\<close>

primrec steal_loop :: "nat \<Rightarrow> worker_id \<Rightarrow> (('v, 'a) sched_state_scheme, addr option) act" where
  "steal_loop 0 w = bindA (gets g_done) (\<lambda>d. if d then ret None else fail No_fuel)"
| "steal_loop (Suc n) w =
     bindA (gets g_done) (\<lambda>d.
       if d then ret None
       else
         bindA (rts_rand w) (\<lambda>r.
         bindA (gets (\<lambda>s. unat r mod nworkers s)) (\<lambda>victim.
         bindA (if victim \<noteq> w then Closure_steal n w victim else ret None) (\<lambda>t.
           if t \<noteq> None then ret t else steal_loop n w))))"

definition local_work :: "worker_id \<Rightarrow> (('v, 'a) sched_state_scheme, addr option) act" where
  "local_work w =
     thenA (deque_lock_self w)
    (bindA (deque_xtract_bottom w w) (\<lambda>t.
     thenA (deque_unlock_self w)
    (thenA (whenA (t = None) (check (\<lambda>s. wrmap s w = None) (Assertion Scheduler_c 1408)))
           (ret t))))"

primrec scheduler_loop :: "nat \<Rightarrow> (('v, 'a) sched_state_scheme, unit) act \<Rightarrow> worker_id \<Rightarrow> addr option \<Rightarrow> (('v, 'a) sched_state_scheme, unit) act" where
  "scheduler_loop 0 user w t = bindA (gets g_done) (\<lambda>d. if d then ret () else fail No_fuel)"
| "scheduler_loop (Suc n) user w t =
     bindA (gets g_done) (\<lambda>d.
       if d then ret ()
       else
         bindA (if t = None then local_work w else ret t) (\<lambda>t.
         bindA (if t = None then steal_loop n w else ret t) (\<lambda>t.
         bindA (case t of None \<Rightarrow> ret None | Some c \<Rightarrow> do_what_it_says user w c) (\<lambda>t.
         scheduler_loop n user w t))))"

definition worker_scheduler :: "nat \<Rightarrow> (('v, 'a) sched_state_scheme, unit) act \<Rightarrow> worker_id \<Rightarrow> addr option \<Rightarrow> (('v, 'a) sched_state_scheme, unit) act" where
  "worker_scheduler n user w t =
     thenA (rts_srand w (of_nat (w * 162347)))
    (thenA (worker_change_state w WORKER_SCHED)
    (thenA (scheduler_loop n user w t)
           (worker_change_state w WORKER_IDLE)))"

end
