(* ===== verification/Reducer_Correct.thy ===== *)
theory Reducer_Correct
  imports Reducer_Map Malloc_Correct
begin

text \<open>
  Correctness of reducer maps.  \<open>map_ok\<close> is the invariant of a map: the counter is the number of
  views, and as long as the log is valid it lists exactly the used indices, each once.  Under it a
  merge computes the monoid of every hyperobject pointwise, in the order left before right,
  whichever of the two maps it merges into and whichever of its two loops it takes.
\<close>

section \<open>Views and the invariant of a map\<close>

type_synonym 'v views = "nat \<Rightarrow> (addr \<times> 'v) option"

definition views :: "'v cilkred_map \<Rightarrow> 'v views" where
  "views m i =
     (if i < length (vinfo m) then
        (case (vi_key (vinfo m ! i), vi_val (vinfo m ! i)) of (Some k, Some x) \<Rightarrow> Some (k, x) | _ \<Rightarrow> None)
      else None)"

definition map_ok :: "'v cilkred_map \<Rightarrow> bool" where
  "map_ok m \<longleftrightarrow>
     length (vinfo m) = spa_cap m \<and> length (rlog m) = spa_cap m div 2 \<and>
     (\<forall>i < spa_cap m. vi_key (vinfo m ! i) = None \<longleftrightarrow> vi_val (vinfo m ! i) = None) \<and>
     num_of_vinfo m = card (dom (views m)) \<and> num_of_logs m \<le> spa_cap m div 2 + 1 \<and>
     (num_of_logs m \<le> spa_cap m div 2 \<longrightarrow>
        distinct (take (num_of_logs m) (rlog m)) \<and> set (take (num_of_logs m) (rlog m)) = dom (views m))"

lemma map_okD:
  assumes "map_ok m"
  shows "length (vinfo m) = spa_cap m" "length (rlog m) = spa_cap m div 2"
    "i < spa_cap m \<Longrightarrow> vi_key (vinfo m ! i) = None \<longleftrightarrow> vi_val (vinfo m ! i) = None"
    "num_of_vinfo m = card (dom (views m))" "num_of_logs m \<le> spa_cap m div 2 + 1"
  using assms by (auto simp: map_ok_def)

lemma dom_views: "dom (views m) \<subseteq> {..<length (vinfo m)}"
  by (auto simp: views_def split: if_splits)

lemma finite_dom_views [simp]: "finite (dom (views m))"
  using dom_views finite_subset by blast

lemma views_Some:
  "views m i = Some (k, x) \<longleftrightarrow> i < length (vinfo m) \<and> vi_key (vinfo m ! i) = Some k \<and> vi_val (vinfo m ! i) = Some x"
  by (auto simp: views_def split: option.splits)

lemma views_None:
  "map_ok m \<Longrightarrow> i < spa_cap m \<Longrightarrow> views m i = None \<longleftrightarrow> vi_key (vinfo m ! i) = None"
  using map_okD(1,3)[of m] by (auto simp: views_def split: option.splits)

lemma views_upd_view:
  "i < length (vinfo m) \<Longrightarrow>
   views (upd_view i v m) = (views m)(i := (case (vi_key v, vi_val v) of (Some k, Some x) \<Rightarrow> Some (k, x) | _ \<Rightarrow> None))"
  by (rule ext) (auto simp: views_def upd_view_def nth_list_update)

lemma views_fields [simp]:
  "views (m\<lparr>num_of_vinfo := a\<rparr>) = views m" "views (m\<lparr>num_of_logs := b\<rparr>) = views m"
  "views (m\<lparr>merging := c\<rparr>) = views m" "views (m\<lparr>rlog := l\<rparr>) = views m"
  by (auto simp: views_def fun_eq_iff)

lemma upd_view_fields [simp]:
  "spa_cap (upd_view i v m) = spa_cap m" "num_of_vinfo (upd_view i v m) = num_of_vinfo m"
  "num_of_logs (upd_view i v m) = num_of_logs m" "rlog (upd_view i v m) = rlog m" "merging (upd_view i v m) = merging m"
  "vinfo (upd_view i v m) = (vinfo m)[i := v]"
  by (auto simp: upd_view_def)

text \<open>Replacing the content of a view keeps the invariant.\<close>

lemma map_ok_replace:
  assumes m: "map_ok m" and i: "views m i = Some (k, x)" and v: "vi_key v = Some k" "vi_val v = Some y"
  shows "map_ok (upd_view i v m)" "views (upd_view i v m) = (views m)(i \<mapsto> (k, y))"
proof -
  have len: "i < length (vinfo m)" using i by (simp add: views_Some)
  show vs: "views (upd_view i v m) = (views m)(i \<mapsto> (k, y))" using views_upd_view[OF len] v by simp
  have "dom (views (upd_view i v m)) = dom (views m)" using i by (auto simp: vs)
  then show "map_ok (upd_view i v m)" using m len v by (auto simp: map_ok_def nth_list_update)
qed

text \<open>Adding a view at a free index and logging it.\<close>

lemma map_ok_add:
  assumes m: "map_ok m" and i: "i < spa_cap m" "views m i = None" and v: "vi_key v = Some k" "vi_val v = Some y"
  obtains m' where "cilkred_map_log_id (upd_view i v m) i = Inr m'" "map_ok m'" "views m' = (views m)(i \<mapsto> (k, y))"
    "spa_cap m' = spa_cap m" "merging m' = merging m"
proof -
  let ?u = "upd_view i v m"
  note d = map_okD[OF m]
  have vs: "views ?u = (views m)(i \<mapsto> (k, y))" using views_upd_view[of i m v] v i d(1) by simp
  have "card (dom (views m)) < spa_cap m"
  proof -
    have "dom (views m) \<subset> {..<spa_cap m}" using dom_views[of m] i d(1) by auto
    then show ?thesis using psubset_card_mono[of "{..<spa_cap m}"] by simp
  qed
  then have less: "num_of_vinfo m < spa_cap m" using d(4) by simp
  have card: "card (insert i (dom (views m))) = num_of_vinfo m + 1" using i(2) d(4) by (auto simp: card_insert_if)
  have kv: "\<forall>j < spa_cap m. vi_key ((vinfo m)[i := v] ! j) = None \<longleftrightarrow> vi_val ((vinfo m)[i := v] ! j) = None"
    using d(1,3) v i(1) by (simp add: nth_list_update)
  define m1 where "m1 = (if num_of_logs m < spa_cap m div 2
      then ?u\<lparr>rlog := (rlog m)[num_of_logs m := i], num_of_logs := num_of_logs m + 1\<rparr>
      else if num_of_logs m = spa_cap m div 2 then ?u\<lparr>num_of_logs := num_of_logs m + 1\<rparr> else ?u)"
  have m1: "views m1 = (views m)(i \<mapsto> (k, y))" "spa_cap m1 = spa_cap m" "merging m1 = merging m"
     "num_of_vinfo m1 = num_of_vinfo m" "vinfo m1 = (vinfo m)[i := v]" "length (rlog m1) = length (rlog m)"
    by (simp_all add: m1_def vs)
  have run: "cilkred_map_log_id ?u i = Inr (m1\<lparr>num_of_vinfo := num_of_vinfo m1 + 1\<rparr>)"
    using less d(5) by (simp add: cilkred_map_log_id_def Let_def m1_def)
  have log: "num_of_logs m1 \<le> spa_cap m div 2 + 1"
    "num_of_logs m1 \<le> spa_cap m div 2 \<longrightarrow>
      distinct (take (num_of_logs m1) (rlog m1)) \<and> set (take (num_of_logs m1) (rlog m1)) = insert i (dom (views m))"
  proof -
    show "num_of_logs m1 \<le> spa_cap m div 2 + 1" using d(5) by (simp add: m1_def)
    show "num_of_logs m1 \<le> spa_cap m div 2 \<longrightarrow>
      distinct (take (num_of_logs m1) (rlog m1)) \<and> set (take (num_of_logs m1) (rlog m1)) = insert i (dom (views m))"
    proof (cases "num_of_logs m < spa_cap m div 2")
      case True
      then have "distinct (take (num_of_logs m) (rlog m))" "set (take (num_of_logs m) (rlog m)) = dom (views m)"
        using m by (auto simp: map_ok_def)
      then show ?thesis
        using True d(2) i(2) by (simp add: m1_def take_Suc_conv_app_nth) (auto simp: domIff)
    next
      case False
      then show ?thesis using d(5) by (simp add: m1_def)
    qed
  qed
  have "map_ok (m1\<lparr>num_of_vinfo := num_of_vinfo m1 + 1\<rparr>)"
    using d(1,2) kv log card m1 by (simp add: map_ok_def)
  then show thesis using that[OF run] m1 by simp
qed

section \<open>The merge of two maps\<close>

text \<open>What a merge computes: the monoid of each hyperobject applied to the left and the right
  view, a missing view standing for the identity.\<close>

definition combine :: "(addr \<Rightarrow> 'v hyperobject option) \<Rightarrow> 'v views \<Rightarrow> 'v views \<Rightarrow> 'v views" where
  "combine H l r i = (case (l i, r i) of
      (None, y) \<Rightarrow> y
    | (x, None) \<Rightarrow> x
    | (Some (k, x), Some (_, y)) \<Rightarrow> Some (k, reduce_fn (the (H k)) x y))"

definition compatible :: "(addr \<Rightarrow> 'v hyperobject option) \<Rightarrow> 'v cilkred_map \<Rightarrow> 'v cilkred_map \<Rightarrow> bool" where
  "compatible H a b \<longleftrightarrow> spa_cap a = spa_cap b \<and>
     (\<forall>i k x. views a i = Some (k, x) \<longrightarrow> H k \<noteq> None \<and> (\<forall>k' y. views b i = Some (k', y) \<longrightarrow> k' = k))"

definition ordered :: "merge_kind \<Rightarrow> 'a \<Rightarrow> 'a \<Rightarrow> ('a \<Rightarrow> 'a \<Rightarrow> 'b) \<Rightarrow> 'b" where
  "ordered kind this other f = (if kind = MERGE_INTO_RIGHT then f other this else f this other)"

lemma merge_view_both:
  assumes t: "map_ok (this_map ms)" "views (this_map ms) i = Some (k, x)"
    and q: "views (other_map ms) i = Some (k, y)" and h: "H k = Some h"
  shows "\<exists>ms'. merge_view H kind ln ln' i ms = Inr ((), ms') \<and>
    map_ok (this_map ms') \<and> views (this_map ms') = (views (this_map ms))(i \<mapsto> (k, ordered kind x y (reduce_fn h))) \<and>
    spa_cap (this_map ms') = spa_cap (this_map ms) \<and> merging (this_map ms') = merging (this_map ms) \<and>
    other_map ms' = upd_view i empty_view (other_map ms)"
proof -
  have ti: "i < length (vinfo (this_map ms))" "vi_key (vinfo (this_map ms) ! i) = Some k" "vi_val (vinfo (this_map ms) ! i) = Some x"
    and qi: "i < length (vinfo (other_map ms))" "vi_key (vinfo (other_map ms) ! i) = Some k" "vi_val (vinfo (other_map ms) ! i) = Some y"
    using t q by (auto simp: views_Some)
  let ?v = "(vinfo (this_map ms) ! i)\<lparr>vi_val := Some (ordered kind x y (reduce_fn h))\<rparr>"
  have run: "merge_view H kind ln ln' i ms = Inr ((), ms\<lparr>this_map := upd_view i ?v (this_map ms),
      other_map := upd_view i empty_view (other_map ms),
      cleared := (k, Some (ordered kind y x (\<lambda>a b. a))) # cleared ms\<rparr>)"
    using ti qi h
    by (cases "kind = MERGE_INTO_RIGHT")
       (simp_all add: merge_view_def reduce_view_def clear_view_def swap_vals_def Let_def ordered_def upd_view_def thenA_def bindA_def whenA_def)
  show ?thesis
    unfolding run
    by (rule exI, rule conjI, rule refl) (use map_ok_replace[OF t, of ?v] ti in \<open>simp add: ordered_def\<close>)
qed

lemma merge_view_new:
  assumes t: "map_ok (this_map ms)" "views (this_map ms) i = None" "i < spa_cap (this_map ms)"
    and q: "views (other_map ms) i = Some (k, y)"
  shows "\<exists>ms'. merge_view H kind ln ln' i ms = Inr ((), ms') \<and>
    map_ok (this_map ms') \<and> views (this_map ms') = (views (this_map ms))(i \<mapsto> (k, y)) \<and>
    spa_cap (this_map ms') = spa_cap (this_map ms) \<and> merging (this_map ms') = merging (this_map ms) \<and>
    other_map ms' = upd_view i empty_view (other_map ms)"
proof -
  have qi: "i < length (vinfo (other_map ms))" "vi_key (vinfo (other_map ms) ! i) = Some k" "vi_val (vinfo (other_map ms) ! i) = Some y"
    using q by (auto simp: views_Some)
  have ti: "i < length (vinfo (this_map ms))" "vinfo (this_map ms) ! i = empty_view"
    using t map_okD(1)[OF t(1)] map_okD(3)[OF t(1,3)] views_None[OF t(1,3)]
    by (auto simp: empty_view_def)
  obtain m' where m': "cilkred_map_log_id (upd_view i (vinfo (other_map ms) ! i) (this_map ms)) i = Inr m'" "map_ok m'"
      "views m' = (views (this_map ms))(i \<mapsto> (k, y))" "spa_cap m' = spa_cap (this_map ms)" "merging m' = merging (this_map ms)"
    by (rule map_ok_add[OF t(1,3,2) qi(2,3)])
  have "merge_view H kind ln ln' i ms = Inr ((), ms\<lparr>other_map := upd_view i empty_view (other_map ms), this_map := m'\<rparr>)"
    using ti qi m'(1)
    by (simp add: merge_view_def swap_views_def log_this_def thenA_def bindA_def empty_view_def)
  then show ?thesis using m' by (intro exI[of _ "ms\<lparr>other_map := upd_view i empty_view (other_map ms), this_map := m'\<rparr>"]) simp
qed

text \<open>The loops: \<open>done\<close> is the part of \<open>other\<close> that was merged already.\<close>

definition merge_inv :: "(addr \<Rightarrow> 'v hyperobject option) \<Rightarrow> merge_kind \<Rightarrow> 'v cilkred_map \<Rightarrow> 'v cilkred_map \<Rightarrow> nat set \<Rightarrow> 'v merge_state \<Rightarrow> bool" where
  "merge_inv H kind t q D ms \<longleftrightarrow>
     map_ok (this_map ms) \<and> spa_cap (this_map ms) = spa_cap t \<and> merging (this_map ms) = merging t \<and>
     views (this_map ms) = (\<lambda>i. if i \<in> D then ordered kind (views t) (views q) (combine H) i else views t i) \<and>
     spa_cap (other_map ms) = spa_cap q \<and> length (vinfo (other_map ms)) = spa_cap q \<and>
     (\<forall>i < spa_cap q. vinfo (other_map ms) ! i = (if i \<in> D then empty_view else vinfo q ! i))"

lemma merge_step:
  assumes inv: "merge_inv H kind t q D ms" and q: "map_ok q" and c: "compatible H t q" "compatible H q t"
    and i: "i \<notin> D" "i \<in> dom (views q)"
  shows "\<exists>ms'. merge_view H kind ln ln' i ms = Inr ((), ms') \<and> merge_inv H kind t q (insert i D) ms'"
proof -
  obtain k y where y: "views q i = Some (k, y)" using i(2) by auto
  then obtain h where h: "H k = Some h" using c(2) unfolding compatible_def by blast
  have ok: "map_ok (this_map ms)" using inv by (simp add: merge_inv_def)
  have iq: "i < spa_cap q" using y map_okD(1)[OF q] by (simp add: views_Some)
  have o: "views (other_map ms) i = Some (k, y)"
    using inv y i(1) iq by (simp add: merge_inv_def views_Some)
  have other: "\<forall>j < spa_cap q. (vinfo (other_map ms))[i := empty_view] ! j = (if j \<in> insert i D then empty_view else vinfo q ! j)"
    using inv iq by (auto simp: merge_inv_def nth_list_update)
  show ?thesis
  proof (cases "views t i")
    case None
    then have tn: "views (this_map ms) i = None" "i < spa_cap (this_map ms)"
      using inv i(1) iq c(1) by (auto simp: merge_inv_def compatible_def)
    obtain ms' where "merge_view H kind ln ln' i ms = Inr ((), ms')" and ms': "map_ok (this_map ms')"
        "views (this_map ms') = (views (this_map ms))(i \<mapsto> (k, y))" "spa_cap (this_map ms') = spa_cap (this_map ms)"
        "merging (this_map ms') = merging (this_map ms)" "other_map ms' = upd_view i empty_view (other_map ms)"
      using merge_view_new[OF ok tn o, of H kind ln ln'] by blast
    moreover have "merge_inv H kind t q (insert i D) ms'"
      using inv ms' other None y
      by (auto simp: merge_inv_def ordered_def combine_def fun_eq_iff split: option.splits)
    ultimately show ?thesis by blast
  next
    case (Some kx)
    then obtain x where x: "views t i = Some (k, x)" using c(2) y unfolding compatible_def by (cases kx) blast
    then have tx: "views (this_map ms) i = Some (k, x)" using inv i(1) by (simp add: merge_inv_def)
    obtain ms' where "merge_view H kind ln ln' i ms = Inr ((), ms')" and ms': "map_ok (this_map ms')"
        "views (this_map ms') = (views (this_map ms))(i \<mapsto> (k, ordered kind x y (reduce_fn h)))"
        "spa_cap (this_map ms') = spa_cap (this_map ms)"
        "merging (this_map ms') = merging (this_map ms)" "other_map ms' = upd_view i empty_view (other_map ms)"
      using merge_view_both[where H = H and kind = kind and ln = ln and ln' = ln', OF ok tx o h] by blast
    moreover have "merge_inv H kind t q (insert i D) ms'"
      using inv ms' other x y h
      by (auto simp: merge_inv_def ordered_def combine_def fun_eq_iff split: option.splits)
    ultimately show ?thesis by blast
  qed
qed

lemma merge_loop:
  assumes "map_ok q" "compatible H t q" "compatible H q t"
    and "distinct is" "set is \<subseteq> dom (views q)" "set is \<inter> D = {}" "merge_inv H kind t q D ms"
  shows "\<exists>ms'. forA is (merge_view H kind ln ln') ms = Inr ((), ms') \<and> merge_inv H kind t q (D \<union> set is) ms'"
  using assms(4-)
proof (induction "is" arbitrary: D ms)
  case (Cons i js)
  obtain ms1 where ms1: "merge_view H kind ln ln' i ms = Inr ((), ms1)" "merge_inv H kind t q (insert i D) ms1"
    using merge_step[OF Cons.prems(4) assms(1-3), of i ln ln'] Cons.prems(2,3) by auto
  obtain ms' where "forA js (merge_view H kind ln ln') ms1 = Inr ((), ms')" "merge_inv H kind t q (insert i D \<union> set js) ms'"
    using Cons.IH[OF _ _ _ ms1(2)] Cons.prems by auto
  then show ?case using ms1(1) by (simp add: thenA_def bindA_def)
qed simp

text \<open>The scan skips the empty entries, so it is the loop over the used ones.\<close>

lemma scan_loop:
  assumes "map_ok q" "compatible H t q" "compatible H q t"
    and "distinct is" "set is \<subseteq> {..<spa_cap q}" "set is \<inter> D = {}" "merge_inv H kind t q D ms"
  shows "\<exists>ms'. forA is (\<lambda>i. bindA (gets (\<lambda>ms. vi_key (vinfo (other_map ms) ! i))) (\<lambda>key.
            whenA (key \<noteq> None) (merge_view H kind ln ln' i))) ms = Inr ((), ms') \<and>
          merge_inv H kind t q (D \<union> (set is \<inter> dom (views q))) ms'"
  using assms(4-)
proof (induction "is" arbitrary: D ms)
  case (Cons i js)
  have k: "vi_key (vinfo (other_map ms) ! i) = None \<longleftrightarrow> i \<notin> dom (views q)"
    using Cons.prems views_None[OF assms(1), of i] by (auto simp: merge_inv_def)
  show ?case
  proof (cases "i \<in> dom (views q)")
    case True
    obtain ms1 where ms1: "merge_view H kind ln ln' i ms = Inr ((), ms1)" "merge_inv H kind t q (insert i D) ms1"
      using merge_step[OF Cons.prems(4) assms(1-3) _ True, of ln ln'] Cons.prems(3) by auto
    have "distinct js" "set js \<subseteq> {..<spa_cap q}" "set js \<inter> insert i D = {}" using Cons.prems by auto
    then show ?thesis
      using Cons.IH[OF _ _ _ ms1(2)] ms1(1) True k
      by (auto simp: thenA_def bindA_def whenA_def Int_insert_left)
  next
    case False
    moreover have "distinct js" "set js \<subseteq> {..<spa_cap q}" "set js \<inter> D = {}" using Cons.prems by auto
    ultimately show ?thesis
      using Cons.IH[OF _ _ _ Cons.prems(4)] k
      by (auto simp: thenA_def bindA_def whenA_def Int_insert_left)
  qed
qed simp

text \<open>Pointwise correctness of the merge, and what it leaves of the other map.\<close>

lemma merge_maps_correct:
  assumes t: "map_ok t" and q: "map_ok q" and c: "compatible H t q" "compatible H q t"
  shows "\<exists>ms. merge_maps H kind \<lparr>this_map = t, other_map = q, cleared = []\<rparr> = Inr ((), ms) \<and>
    map_ok (this_map ms) \<and> spa_cap (this_map ms) = spa_cap t \<and>
    views (this_map ms) = ordered kind (views t) (views q) (combine H) \<and>
    views (other_map ms) = (\<lambda>_. None) \<and> merging (this_map ms) = (num_of_vinfo q = 0)"
proof -
  let ?t = "t\<lparr>merging := True\<rparr>" and ?q = "q\<lparr>merging := True\<rparr>"
  let ?ms = "\<lparr>this_map = ?t, other_map = ?q, cleared = []\<rparr>"
  have oks: "map_ok ?t" "map_ok ?q" "compatible H ?t ?q" "compatible H ?q ?t"
    using t q c by (auto simp: map_ok_def compatible_def)
  have inv: "merge_inv H kind ?t ?q {} ?ms"
    using oks map_okD(1)[OF q] by (simp add: merge_inv_def)
  show ?thesis
  proof (cases "num_of_vinfo q = 0")
    case True
    then have "dom (views q) = {}" using map_okD(4)[OF q] by simp
    then have v: "views q = (\<lambda>_. None)" by (auto simp: fun_eq_iff domIff)
    then have "ordered kind (views t) (views q) (combine H) = views t"
      by (auto simp: ordered_def combine_def fun_eq_iff split: option.splits)
    then show ?thesis using True oks v by (simp add: merge_maps_def)
  next
    case False
    let ?loop = "if num_of_logs q \<le> spa_cap q div 2 then merge_by_log H kind else merge_by_scan H kind"
    have "\<exists>ms'. ?loop ?ms = Inr ((), ms') \<and> merge_inv H kind ?t ?q (dom (views q)) ms'"
    proof (cases "num_of_logs q \<le> spa_cap q div 2")
      case True
      then have "distinct (take (num_of_logs q) (rlog q))" "set (take (num_of_logs q) (rlog q)) = dom (views q)"
        using q by (auto simp: map_ok_def)
      then show ?thesis
        using merge_loop[OF oks(2-4) _ _ _ inv, of "take (num_of_logs q) (rlog q)"] True
        by (auto simp: merge_by_log_def)
    next
      case False
      have "set [0..<spa_cap q] \<inter> dom (views q) = dom (views q)" using dom_views[of q] map_okD(1)[OF q] by auto
      then show ?thesis
        using scan_loop[OF oks(2-4) _ _ _ inv, of "[0..<spa_cap q]"] False
        by (auto simp: merge_by_scan_def atLeast0LessThan)
    qed
    then obtain ms' where run: "?loop ?ms = Inr ((), ms')" and inv': "merge_inv H kind ?t ?q (dom (views q)) ms'" by blast
    let ?fin = "ms'\<lparr>this_map := (this_map ms')\<lparr>merging := False\<rparr>,
                other_map := (other_map ms')\<lparr>num_of_vinfo := 0, num_of_logs := 0, merging := False\<rparr>\<rparr>"
    have "merge_maps H kind \<lparr>this_map = t, other_map = q, cleared = []\<rparr> = Inr ((), ?fin)"
      using False run by (simp add: merge_maps_def thenA_def bindA_def)
    moreover have "views (this_map ms') = ordered kind (views t) (views q) (combine H)"
    proof
      fix i
      show "views (this_map ms') i = ordered kind (views t) (views q) (combine H) i"
        using inv' by (cases "views q i") (auto simp: merge_inv_def ordered_def combine_def split: option.splits)
    qed
    moreover have "views (other_map ms') = (\<lambda>_. None)"
    proof
      fix i
      show "views (other_map ms') i = None"
        using inv' views_None[OF q, of i] map_okD(1)[OF q]
        by (cases "i < spa_cap q"; cases "views q i") (auto simp: merge_inv_def views_def empty_view_def)
    qed
    ultimately show ?thesis using inv' False by (intro exI[of _ ?fin]) (auto simp: merge_inv_def map_ok_def)
  qed
qed

section \<open>Merging on the heap of maps\<close>

abbreviation rviews :: "('v, 'a) red_state_scheme \<Rightarrow> addr option \<Rightarrow> 'v views" where
  "rviews s p \<equiv> (case p of None \<Rightarrow> (\<lambda>_. None) | Some a \<Rightarrow> (case rmaps s a of None \<Rightarrow> (\<lambda>_. None) | Some m \<Rightarrow> views m))"

lemma combine_None [simp]:
  "combine H (\<lambda>_. None) r = r" "combine H l (\<lambda>_. None) = l"
  by (auto simp: combine_def fun_eq_iff split: option.splits)

lemma red_fields_more:
  fixes s s' :: "('v, 'a) red_state_scheme"
  assumes "im_state.more s' = im_state.more s"
  shows "rmaps s' = rmaps s" "hyperobjs s' = hyperobjs s" "wrmap s' = wrmap s"
  using assms by (cases s; cases s'; simp)+

section \<open>Reducer maps of one program\<close>

text \<open>
  The maps of a running program agree on the capacity and on which hyperobject an index stands for,
  which is what the reducer id manager hands out: \<open>K\<close> gives the hyperobject of an index.
\<close>

definition rmap_conf :: "nat \<Rightarrow> (nat \<Rightarrow> addr) \<Rightarrow> ('v, 'a) red_state_scheme \<Rightarrow> addr option \<Rightarrow> bool" where
  "rmap_conf cap K s p \<longleftrightarrow> (case p of None \<Rightarrow> True | Some a \<Rightarrow> (\<exists>m. rmaps s a = Some m \<and> map_ok m \<and> spa_cap m = cap \<and>
     (\<forall>i k x. views m i = Some (k, x) \<longrightarrow> k = K i \<and> hyperobjs s k \<noteq> None)))"

definition rmap_led :: "addr option \<Rightarrow> ledger" where
  "rmap_led p = (case p of None \<Rightarrow> {#} | Some a \<Rightarrow> {#(a, SIZEOF_RMAP, IM_REDUCER_MAP)#})"

lemma rmap_led_simps [simp]: "rmap_led None = {#}" "rmap_led (Some a) = {#(a, SIZEOF_RMAP, IM_REDUCER_MAP)#}"
  by (simp_all add: rmap_led_def)

lemma rmap_conf_None [simp]: "rmap_conf cap K s None"
  by (simp add: rmap_conf_def)

lemma rmap_conf_cong:
  "(\<And>a. p = Some a \<Longrightarrow> rmaps s' a = rmaps s a) \<Longrightarrow> hyperobjs s' = hyperobjs s \<Longrightarrow> rmap_conf cap K s' p = rmap_conf cap K s p"
  by (auto simp: rmap_conf_def split: option.splits)

lemma rmap_conf_compatible:
  assumes "rmap_conf cap K s (Some a)" "rmap_conf cap K s (Some b)"
  obtains m m' where "rmaps s a = Some m" "rmaps s b = Some m'" "map_ok m" "map_ok m'" "spa_cap m = cap" "spa_cap m' = cap"
    "compatible (hyperobjs s) m m'" "compatible (hyperobjs s) m' m"
  using assms by (fastforce simp: rmap_conf_def compatible_def)

lemma combine_conf:
  assumes "rmap_conf cap K s (Some a)" "rmap_conf cap K s (Some b)"
    and "combine (hyperobjs s) (rviews s (Some a)) (rviews s (Some b)) i = Some (k, x)"
  shows "k = K i \<and> hyperobjs s k \<noteq> None"
  using assms by (fastforce simp: rmap_conf_def combine_def split: option.splits)

text \<open>What a merge may change: the maps, the record of cleared views and the allocator.\<close>

definition merge_frame :: "('v, 'a) red_state_scheme \<Rightarrow> ('v, 'a) red_state_scheme \<Rightarrow> bool" where
  "merge_frame s s' \<longleftrightarrow> (\<exists>R C. im_state.more s' = im_state.more (s\<lparr>cleared_views := C, rmaps := R\<rparr>))"

lemma merge_frame_refl [simp]: "merge_frame s s"
  unfolding merge_frame_def by (rule exI[of _ "rmaps s"], rule exI[of _ "cleared_views s"]) simp

lemma merge_frame_trans: "merge_frame s s1 \<Longrightarrow> merge_frame s1 s2 \<Longrightarrow> merge_frame s s2"
  unfolding merge_frame_def by (cases s; cases s1; cases s2) auto

lemma merge_frame_fields:
  assumes "merge_frame s s'"
  shows "hyperobjs s' = hyperobjs s" "wrmap s' = wrmap s" "red_state.more s' = red_state.more s"
    "fibers s' = fibers s" "gfiber_pool s' = gfiber_pool s" "wfiber_pool s' = wfiber_pool s"
  using assms unfolding merge_frame_def by (cases s; cases s'; auto)+

lemma cilkred_map_merge_conf:
  assumes c: "rmap_conf cap K s (Some this)" "rmap_conf cap K s (Some other)" and ne: "this \<noteq> other"
    and good: "im_good n s (live + rmap_led (Some this) + rmap_led (Some other))" and w: "w < n"
  shows "\<exists>s' m. cilkred_map_merge this w other kind s = Inr ((), s') \<and> im_good n s' (live + rmap_led (Some this)) \<and>
    rmaps s' = (rmaps s)(this \<mapsto> m, other := None) \<and> map_ok m \<and> spa_cap m = cap \<and>
    views m = ordered kind (rviews s (Some this)) (rviews s (Some other)) (combine (hyperobjs s)) \<and> merge_frame s s' \<and>
    merging m = (rviews s (Some other) = Map.empty)"
proof -
  obtain t q where m: "rmaps s this = Some t" "rmaps s other = Some q" "map_ok t" "map_ok q" "spa_cap t = cap" "spa_cap q = cap"
      "compatible (hyperobjs s) t q" "compatible (hyperobjs s) q t"
    using rmap_conf_compatible[OF c] .
  have g: "im_good n s (add_mset (other, SIZEOF_RMAP, IM_REDUCER_MAP) (live + rmap_led (Some this)))"
    using good by (simp add: add_mset_commute)
  obtain ms where run: "merge_maps (hyperobjs s) kind \<lparr>this_map = t, other_map = q, cleared = []\<rparr> = Inr ((), ms)"
    and ms: "map_ok (this_map ms)" "spa_cap (this_map ms) = spa_cap t"
      "views (this_map ms) = ordered kind (views t) (views q) (combine (hyperobjs s))" "merging (this_map ms) = (num_of_vinfo q = 0)"
    using merge_maps_correct[OF m(3,4,7,8), of kind] by (elim exE conjE) (rule that)
  define s1 where "s1 = s\<lparr>cleared_views := cleared ms @ cleared_views s, rmaps := (rmaps s)(this \<mapsto> this_map ms, other := None)\<rparr>"
  have good1: "im_good n s1 (add_mset (other, SIZEOF_RMAP, IM_REDUCER_MAP) (live + rmap_led (Some this)))"
    using g im_good_cong[of s1 s] by (simp add: s1_def)
  then obtain s' where s': "cilk_internal_free w other SIZEOF_RMAP IM_REDUCER_MAP s1 = Inr ((), s')" "im_good n s' (live + rmap_led (Some this))"
    using free_step[OF good1 w, of other SIZEOF_RMAP IM_REDUCER_MAP] by auto
  have "cilkred_map_merge this w other kind s = Inr ((), s')"
    using m(1,2) ne run s'(1)
    by (simp add: cilkred_map_merge_def cilkred_map_destroy_map_def thenA_def bindA_def s1_def fun_upd_twist)
  moreover have f: "im_state.more s' = im_state.more s1" by (rule free_outside[OF s'(1)])
  moreover have "merge_frame s s'" unfolding merge_frame_def f by (auto simp: s1_def)
  moreover have "num_of_vinfo q = 0 \<longleftrightarrow> views q = Map.empty" using map_okD(4)[OF m(4)] by simp
  ultimately show ?thesis
    using s'(2) ms m red_fields_more(1)[OF f] by (intro exI[of _ s'] exI[of _ "this_map ms"]) (simp add: s1_def)
qed

lemma merge_two_rmaps_conf:
  assumes c: "rmap_conf cap K s l" "rmap_conf cap K s r" and ne: "l = None \<or> r = None \<or> l \<noteq> r"
    and good: "im_good n s (live + rmap_led l + rmap_led r)" and w: "w < n"
  shows "\<exists>p s'. merge_two_rmaps w l r s = Inr (p, s') \<and> p \<in> {l, r} \<and> rmap_conf cap K s' p \<and> im_good n s' (live + rmap_led p) \<and>
    rviews s' p = combine (hyperobjs s) (rviews s l) (rviews s r) \<and> merge_frame s s' \<and>
    (\<forall>a. Some a \<noteq> l \<longrightarrow> Some a \<noteq> r \<longrightarrow> rmaps s' a = rmaps s a)"
proof (cases "l = None \<or> r = None")
  case True
  then show ?thesis using c good by (cases l; cases r) (auto simp: merge_two_rmaps_def)
next
  case False
  then obtain a b where ab: "l = Some a" "r = Some b" "a \<noteq> b" using ne by auto
  note ca = c[unfolded ab] note k = combine_conf[OF ca]
  obtain ma mb where m: "rmaps s a = Some ma" "rmaps s b = Some mb" using ca by (auto simp: rmap_conf_def)
  show ?thesis
  proof (cases "num_of_vinfo mb < num_of_vinfo ma")
    case True
    obtain s' mm where s': "cilkred_map_merge a w b MERGE_INTO_LEFT s = Inr ((), s')" "im_good n s' (live + rmap_led l)"
        "rmaps s' = (rmaps s)(a \<mapsto> mm, b := None)" "map_ok mm" "spa_cap mm = cap"
        "views mm = combine (hyperobjs s) (rviews s l) (rviews s r)" "merge_frame s s'"
      using cilkred_map_merge_conf[OF ca ab(3) good[unfolded ab] w, of MERGE_INTO_LEFT] by (auto simp: ordered_def ab)
    then show ?thesis using True ab m k merge_frame_fields(1)[OF s'(7)]
      by (intro exI[of _ l] exI[of _ s'])
         (auto simp: merge_two_rmaps_def bindA_def thenA_def cilkred_map_num_views_def rmap_conf_def)
  next
    case False
    have g: "im_good n s (live + rmap_led (Some b) + rmap_led (Some a))" using good ab by (simp add: add_mset_commute)
    obtain s' mm where s': "cilkred_map_merge b w a MERGE_INTO_RIGHT s = Inr ((), s')" "im_good n s' (live + rmap_led r)"
        "rmaps s' = (rmaps s)(b \<mapsto> mm, a := None)" "map_ok mm" "spa_cap mm = cap"
        "views mm = combine (hyperobjs s) (rviews s l) (rviews s r)" "merge_frame s s'"
      using cilkred_map_merge_conf[OF ca(2,1) ab(3)[symmetric] g w, of MERGE_INTO_RIGHT] by (auto simp: ordered_def ab)
    then show ?thesis using False ab m k merge_frame_fields(1)[OF s'(7)]
      by (intro exI[of _ r] exI[of _ s'])
         (auto simp: merge_two_rmaps_def bindA_def thenA_def cilkred_map_num_views_def cilkred_map_is_leftmost_def rmap_conf_def)
  qed
qed

section \<open>Properties\<close>

text \<open>A state with two reducer maps that share a reducer: a string concatenation over \<open>int list\<close>.\<close>

definition cat_obj :: "int list hyperobject" where
  "cat_obj = \<lparr>reduce_fn = (@), identity_fn = [], id_num = HYPER_ID_VALID OR 1, leftmost_view = []\<rparr>"

definition map_ex :: "int list \<Rightarrow> int list cilkred_map" where
  "map_ex xs = \<lparr>spa_cap = 4, num_of_vinfo = 1, num_of_logs = 1, merging = False, rlog = [1, 0],
     vinfo = [empty_view, \<lparr>vi_val = Some xs, vi_key = Some 7\<rparr>, empty_view, empty_view]\<rparr>"

lemma map_ex_views: "views (map_ex xs) = [1 \<mapsto> (7, xs)]"
  by (rule ext) (simp add: views_def map_ex_def empty_view_def nth_Cons split: nat.splits)

lemma map_ex_ok: "map_ok (map_ex xs)"
  unfolding map_ok_def map_ex_views
  by (auto simp: map_ex_def empty_view_def nth_Cons split: nat.splits)

lemma map_ex_compatible: "compatible [7 \<mapsto> cat_obj] (map_ex xs) (map_ex ys)"
  unfolding compatible_def map_ex_views by (simp add: map_ex_def)


text \<open>Their two blocks come from one batch of 32-byte blocks of the first chunk.\<close>

definition red_pool_ex :: cilk_fiber_pool where
  "red_pool_ex = \<lparr>pool_lock = False, pool_owner = NO_WORKER, shared = False, pool_stack_size = 65536,
     pool_parent = None, pfibers = [], pool_capacity = 0, pool_stats = \<lparr>in_use = 0, max_in_use = 0, max_free = 0\<rparr>\<rparr>"

definition red_desc_ex :: "addr list \<Rightarrow> int \<Rightarrow> cilk_im_desc" where
  "red_desc_ex fl u = \<lparr>buckets = (\<lambda>i. (init_bucket i)\<lparr>free_list := (if i = 0 then fl else []),
       free_list_size := (if i = 0 then length fl else 0)\<rparr>),
     used = u, num_malloc = (\<lambda>t. if fl \<noteq> [] \<and> t = IM_REDUCER_MAP then 2 else 0)\<rparr>"

definition red_ex :: "int list red_state" where
  "red_ex = \<lparr>os_page_size = 4096, page_shift = 12,
     im_pool = \<lparr>mem_begin = 69632, mem_end = 98304, mem_list = [Chunk 65536], mem_list_index = 0, mem_list_size = 1,
                allocated = 32768, wasted = 0\<rparr>,
     im_desc = red_desc_ex [] 4096, im_lock = False, wim = (\<lambda>_. red_desc_ex (map (\<lambda>k. 65600 + 32 * k) [0..<126]) 64),
     os_mmap = [], os_heap = [], os_unmapped = [], os_freed = [],
     fibers = (\<lambda>_. None), gfiber_pool = red_pool_ex, wfiber_pool = (\<lambda>_. red_pool_ex),
     opt_stacksize = 65536, opt_fiber_pool_cap = 8,
     rmaps = [65536 \<mapsto> map_ex [1, 2], 65568 \<mapsto> map_ex [3]], hyperobjs = [7 \<mapsto> cat_obj],
     cleared_views = [], wrmap = (\<lambda>_. None)\<rparr>"


lemma red_desc_ex_facts:
  "worker_ok (red_desc_ex fl u)" "desc_ok (red_desc_ex fl u)" "length fl \<le> 256 \<Longrightarrow> within_limits (red_desc_ex fl u)"
  "desc_weight phi (red_desc_ex fl u) = (\<Sum>p\<leftarrow>fl. phi p 32)" "used (red_desc_ex fl u) = u"
  "num_malloc (red_desc_ex fl u) = (\<lambda>t. if fl \<noteq> [] \<and> t = IM_REDUCER_MAP then 2 else 0)"
  "wasted_bytes (red_desc_ex fl u) = 0" "free_list (buckets (red_desc_ex [] u) i) = []"
  by (simp_all add: red_desc_ex_def worker_ok_def desc_ok_def within_limits_def desc_weight_def bucket_weight_def
      wasted_bytes_def init_bucket_def bucket_capacity_def bucket_sizes_def NUM_BUCKETS_def lessThan_Suc numeral_eq_Suc[of num.One]
      lessThan_nat_numeral)

lemma size_to_bucket_rmap: "size_to_bucket SIZEOF_RMAP = 0"
  by (simp add: size_to_bucket_def SIZEOF_RMAP_def NUM_BUCKETS_def bucket_sizes_def upt_rec)

lemma red_ex_books:
  "books 1 red_ex {#(65536, SIZEOF_RMAP, IM_REDUCER_MAP), (65568, SIZEOF_RMAP, IM_REDUCER_MAP)#}"
proof -
  have cs: "csize SIZEOF_RMAP = 32" by (simp add: csize_def size_to_bucket_rmap bucket_to_size_def bucket_sizes_def)
  have row: "(\<Sum>p\<leftarrow>map (\<lambda>k. 65600 + 32 * k) [0..<126]. phi p 32) = phi 65600 4032" if "block_weight phi" for phi
    using block_weight.phi_row[OF that, of 65600 32 126] by (simp add: comp_def)
  have cw: "client_weight phi 1 red_ex = phi 65536 32 + phi 65568 32" if w: "block_weight phi" for phi
    using block_weight.phi_add[OF w, of 65536 32 32736] block_weight.phi_add[OF w, of 65568 32 32704]
      block_weight.phi_add[OF w, of 65600 4032 28672] row[OF w]
    by (simp add: client_weight_def handed_out_def chunks_def slot_addr_def pool_rem_def red_ex_def red_desc_ex_facts
        INTERNAL_MALLOC_CHUNK_SIZE_def map_filter_simps del: upt_rec_numeral)
  have gap: "used_gap red_ex = 0"
    by (simp add: used_gap_def handed_out_def chunks_def slot_addr_def pool_rem_def red_ex_def red_desc_ex_facts
        INTERNAL_MALLOC_CHUNK_SIZE_def map_filter_simps)
  have im: "im_desc red_ex = red_desc_ex [] 4096" "wim red_ex w = red_desc_ex (map (\<lambda>k. 65600 + 32 * k) [0..<126]) 64" for w
    by (simp_all add: red_ex_def)
  have sz: "SIZEOF_RMAP \<le> SIZE_THRESH"
    by (simp add: SIZEOF_RMAP_def SIZE_THRESH_def NUM_BUCKETS_def bucket_sizes_def)
  show ?thesis
    unfolding books_def im red_desc_ex_facts using cw gap sz by (simp add: cs) (simp add: SIZEOF_RMAP_def)
qed

lemma red_ex_good: "im_good 1 red_ex {#(65536, SIZEOF_RMAP, IM_REDUCER_MAP), (65568, SIZEOF_RMAP, IM_REDUCER_MAP)#}"
proof -
  have "pool_inv (im_pool red_ex)"
    unfolding pool_inv_def
    by (intro conjI exI[of _ "[65536]"] exI[of _ "[]"]) (simp_all add: red_ex_def INTERNAL_MALLOC_CHUNK_SIZE_def)
  then have "im_inv 1 red_ex" "\<forall>w<1. within_limits (wim red_ex w)"
    by (simp_all add: im_inv_def pool_rem_def red_ex_def red_desc_ex_facts)
  then show ?thesis using red_ex_books by (simp add: im_good_def)
qed

text \<open>
  Reducer order (C8): merging the reducer maps of two strands that are adjacent in serial order.
  \<open>merge_two_rmaps\<close> always succeeds on well-formed maps, keeps one of the two maps whichever is the
  larger, and the views it leaves there are, reducer by reducer, the left view combined with the right
  view by the user's \<open>reduce_fn\<close> in serial order, a reducer viewed on one side only keeping that view.
  No other map changes.
\<close>

theorem merge_two_rmaps_serial:
  assumes "rmap_conf cap K s l" "rmap_conf cap K s r" "l = None \<or> r = None \<or> l \<noteq> r"
    and "im_good n s (live + rmap_led l + rmap_led r)" and "w < n"
  shows "\<exists>p s'. merge_two_rmaps w l r s = Inr (p, s') \<and> p \<in> {l, r} \<and> rmap_conf cap K s' p \<and> im_good n s' (live + rmap_led p) \<and>
    rviews s' p = combine (hyperobjs s) (rviews s l) (rviews s r) \<and>
    (\<forall>a. Some a \<noteq> l \<longrightarrow> Some a \<noteq> r \<longrightarrow> rmaps s' a = rmaps s a)"
  using merge_two_rmaps_conf[OF assms] by blast

theorem merge_two_rmaps_serial_witness:
  "\<exists>p s'. merge_two_rmaps 0 (Some 65536) (Some 65568) red_ex = Inr (p, s') \<and> rviews s' p = [1 \<mapsto> (7, [1, 2, 3])]"
proof -
  have r: "rmaps red_ex 65536 = Some (map_ex [1, 2])" "rmaps red_ex 65568 = Some (map_ex [3])" "hyperobjs red_ex = [7 \<mapsto> cat_obj]"
    by (simp_all add: red_ex_def)
  have "rmap_conf 4 (\<lambda>_. 7) red_ex (Some 65536)" "rmap_conf 4 (\<lambda>_. 7) red_ex (Some 65568)"
    by (auto simp: rmap_conf_def r map_ex_ok map_ex_views split: if_splits) (simp_all add: map_ex_def)
  moreover have "im_good 1 red_ex ({#} + rmap_led (Some 65536) + rmap_led (Some 65568))"
    using red_ex_good by (simp add: add_mset_commute)
  ultimately have "\<exists>p s'. merge_two_rmaps 0 (Some 65536) (Some 65568) red_ex = Inr (p, s') \<and> p \<in> {Some 65536, Some 65568} \<and>
      rmap_conf 4 (\<lambda>_. 7) s' p \<and> im_good 1 s' ({#} + rmap_led p) \<and>
      rviews s' p = combine (hyperobjs red_ex) (rviews red_ex (Some 65536)) (rviews red_ex (Some 65568)) \<and>
      (\<forall>a. Some a \<noteq> Some 65536 \<longrightarrow> Some a \<noteq> Some 65568 \<longrightarrow> rmaps s' a = rmaps red_ex a)"
    by (intro merge_two_rmaps_serial) simp_all
  moreover have "combine (hyperobjs red_ex) (rviews red_ex (Some 65536)) (rviews red_ex (Some 65568)) = [1 \<mapsto> (7, [1, 2, 3])]"
    by (simp add: r map_ex_views combine_def cat_obj_def fun_eq_iff)
  ultimately show ?thesis by metis
qed

text \<open>
  Merging an empty map: when the map that is merged away has no views, \<open>cilkred_map_merge\<close> returns
  through its early exit, which has set \<open>merging\<close> on both maps and does not reset it.  The surviving
  map keeps \<open>merging = true\<close>; a merge of a map with views resets the flag.
\<close>

theorem merge_leaves_merging_flag:
  assumes "map_ok t" "map_ok q" "compatible H t q" "compatible H q t"
  shows "\<exists>ms. merge_maps H kind \<lparr>this_map = t, other_map = q, cleared = []\<rparr> = Inr ((), ms) \<and>
    (merging (this_map ms) \<longleftrightarrow> views q = Map.empty)"
proof -
  have "num_of_vinfo q = 0 \<longleftrightarrow> views q = Map.empty" using map_okD(4)[OF assms(2)] by simp
  then show ?thesis using merge_maps_correct[OF assms, of kind] by auto
qed

theorem merge_leaves_merging_flag_witness:
  "\<exists>ms. merge_maps [7 \<mapsto> cat_obj] MERGE_INTO_LEFT \<lparr>this_map = map_ex [1], other_map = map_ex [2], cleared = []\<rparr> = Inr ((), ms) \<and>
    (merging (this_map ms) \<longleftrightarrow> views (map_ex [2 :: int]) = Map.empty)"
  by (rule merge_leaves_merging_flag) (simp_all add: map_ex_ok map_ex_compatible)

end
