(* ===== verification/Return_Correct.thy ===== *)
theory Return_Correct
  imports Scheduler Reducer_Correct
begin

text \<open>
  Correctness of the return protocol (\<open>Closure_return\<close> of runtime/scheduler.c): rules that run the
  closure operations, the reduction of exceptions and of reducer maps a returning child takes part
  in, and the resumption of the parent.
\<close>

section \<open>Running the closure operations\<close>

definition live_status :: "closure_status \<Rightarrow> bool" where
  "live_status st \<longleftrightarrow> st \<noteq> CLOSURE_PRE_INVALID \<and> st \<noteq> CLOSURE_POST_INVALID"

lemma live_status_simps [simp]:
  "live_status CLOSURE_RUNNING" "live_status CLOSURE_SUSPENDED" "live_status CLOSURE_RETURNING" "live_status CLOSURE_READY"
  by (simp_all add: live_status_def)

lemma Closure_checkmagic_run [simp]:
  "closures s t = Some c \<Longrightarrow> live_status (status c) \<Longrightarrow> Closure_checkmagic t s = Inr ((), s)"
  "closures s t = Some c \<Longrightarrow> live_status (status c) \<Longrightarrow> thenA (Closure_checkmagic t) n s = n s"
  by (auto simp: Closure_checkmagic_def thenA_def bindA_def live_status_def split: closure_status.splits)

text \<open>The lock fields of a closure as a unit.\<close>

definition lock_of :: "worker_id \<Rightarrow> closure \<Rightarrow> closure" where
  "lock_of w c = c\<lparr>cl_mutex := True, lock_wait := False, mutex_owner := w\<rparr>"

definition unlock_of :: "closure \<Rightarrow> closure" where
  "unlock_of c = c\<lparr>mutex_owner := NO_WORKER, cl_mutex := False\<rparr>"

definition held :: "worker_id \<Rightarrow> closure \<Rightarrow> bool" where
  "held w c \<longleftrightarrow> cl_mutex c \<and> mutex_owner c = w \<and> \<not> lock_wait c \<and> live_status (status c)"

lemma lock_of_sel [simp]:
  "frame (lock_of w c) = frame c" "fiber (lock_of w c) = fiber c" "fiber_child (lock_of w c) = fiber_child c"
  "owner_ready_deque (lock_of w c) = owner_ready_deque c" "status (lock_of w c) = status c" "has_cilk_callee (lock_of w c) = has_cilk_callee c"
  "simulated_stolen (lock_of w c) = simulated_stolen c" "join_counter (lock_of w c) = join_counter c" "orig_rsp (lock_of w c) = orig_rsp c"
  "callee (lock_of w c) = callee c" "call_parent (lock_of w c) = call_parent c" "spawn_parent (lock_of w c) = spawn_parent c"
  "left_sib (lock_of w c) = left_sib c" "right_sib (lock_of w c) = right_sib c" "right_most_child (lock_of w c) = right_most_child c"
  "next_ready (lock_of w c) = next_ready c" "prev_ready (lock_of w c) = prev_ready c" "right_exn (lock_of w c) = right_exn c"
  "child_exn (lock_of w c) = child_exn c" "user_exn (lock_of w c) = user_exn c" "reraise_cfa (lock_of w c) = reraise_cfa c"
  "parent_rsp (lock_of w c) = parent_rsp c" "saved_throwing_fiber (lock_of w c) = saved_throwing_fiber c" "right_rmap (lock_of w c) = right_rmap c"
  "child_rmap (lock_of w c) = child_rmap c" "user_rmap (lock_of w c) = user_rmap c" "cl_mutex (lock_of w c)" "mutex_owner (lock_of w c) = w"
  "\<not> lock_wait (lock_of w c)"
  by (simp_all add: lock_of_def)

lemma unlock_of_sel [simp]:
  "frame (unlock_of c) = frame c" "fiber (unlock_of c) = fiber c" "fiber_child (unlock_of c) = fiber_child c"
  "owner_ready_deque (unlock_of c) = owner_ready_deque c" "status (unlock_of c) = status c" "has_cilk_callee (unlock_of c) = has_cilk_callee c"
  "simulated_stolen (unlock_of c) = simulated_stolen c" "join_counter (unlock_of c) = join_counter c" "orig_rsp (unlock_of c) = orig_rsp c"
  "callee (unlock_of c) = callee c" "call_parent (unlock_of c) = call_parent c" "spawn_parent (unlock_of c) = spawn_parent c"
  "left_sib (unlock_of c) = left_sib c" "right_sib (unlock_of c) = right_sib c" "right_most_child (unlock_of c) = right_most_child c"
  "next_ready (unlock_of c) = next_ready c" "prev_ready (unlock_of c) = prev_ready c" "right_exn (unlock_of c) = right_exn c"
  "child_exn (unlock_of c) = child_exn c" "user_exn (unlock_of c) = user_exn c" "reraise_cfa (unlock_of c) = reraise_cfa c"
  "parent_rsp (unlock_of c) = parent_rsp c" "saved_throwing_fiber (unlock_of c) = saved_throwing_fiber c" "right_rmap (unlock_of c) = right_rmap c"
  "child_rmap (unlock_of c) = child_rmap c" "user_rmap (unlock_of c) = user_rmap c" "\<not> cl_mutex (unlock_of c)"
  "mutex_owner (unlock_of c) = NO_WORKER" "lock_wait (unlock_of c) = lock_wait c"
  by (simp_all add: unlock_of_def)

lemma lock_of_upd [simp]:
  "(lock_of w c)\<lparr>frame := x0\<rparr> = lock_of w (c\<lparr>frame := x0\<rparr>)"
  "(lock_of w c)\<lparr>fiber := x1\<rparr> = lock_of w (c\<lparr>fiber := x1\<rparr>)"
  "(lock_of w c)\<lparr>fiber_child := x2\<rparr> = lock_of w (c\<lparr>fiber_child := x2\<rparr>)"
  "(lock_of w c)\<lparr>owner_ready_deque := x3\<rparr> = lock_of w (c\<lparr>owner_ready_deque := x3\<rparr>)"
  "(lock_of w c)\<lparr>status := x4\<rparr> = lock_of w (c\<lparr>status := x4\<rparr>)"
  "(lock_of w c)\<lparr>has_cilk_callee := x5\<rparr> = lock_of w (c\<lparr>has_cilk_callee := x5\<rparr>)"
  "(lock_of w c)\<lparr>simulated_stolen := x6\<rparr> = lock_of w (c\<lparr>simulated_stolen := x6\<rparr>)"
  "(lock_of w c)\<lparr>join_counter := x7\<rparr> = lock_of w (c\<lparr>join_counter := x7\<rparr>)"
  "(lock_of w c)\<lparr>orig_rsp := x8\<rparr> = lock_of w (c\<lparr>orig_rsp := x8\<rparr>)"
  "(lock_of w c)\<lparr>callee := x9\<rparr> = lock_of w (c\<lparr>callee := x9\<rparr>)"
  "(lock_of w c)\<lparr>call_parent := x10\<rparr> = lock_of w (c\<lparr>call_parent := x10\<rparr>)"
  "(lock_of w c)\<lparr>spawn_parent := x11\<rparr> = lock_of w (c\<lparr>spawn_parent := x11\<rparr>)"
  "(lock_of w c)\<lparr>left_sib := x12\<rparr> = lock_of w (c\<lparr>left_sib := x12\<rparr>)"
  "(lock_of w c)\<lparr>right_sib := x13\<rparr> = lock_of w (c\<lparr>right_sib := x13\<rparr>)"
  "(lock_of w c)\<lparr>right_most_child := x14\<rparr> = lock_of w (c\<lparr>right_most_child := x14\<rparr>)"
  "(lock_of w c)\<lparr>next_ready := x15\<rparr> = lock_of w (c\<lparr>next_ready := x15\<rparr>)"
  "(lock_of w c)\<lparr>prev_ready := x16\<rparr> = lock_of w (c\<lparr>prev_ready := x16\<rparr>)"
  "(lock_of w c)\<lparr>right_exn := x17\<rparr> = lock_of w (c\<lparr>right_exn := x17\<rparr>)"
  "(lock_of w c)\<lparr>child_exn := x18\<rparr> = lock_of w (c\<lparr>child_exn := x18\<rparr>)"
  "(lock_of w c)\<lparr>user_exn := x19\<rparr> = lock_of w (c\<lparr>user_exn := x19\<rparr>)"
  "(lock_of w c)\<lparr>reraise_cfa := x20\<rparr> = lock_of w (c\<lparr>reraise_cfa := x20\<rparr>)"
  "(lock_of w c)\<lparr>parent_rsp := x21\<rparr> = lock_of w (c\<lparr>parent_rsp := x21\<rparr>)"
  "(lock_of w c)\<lparr>saved_throwing_fiber := x22\<rparr> = lock_of w (c\<lparr>saved_throwing_fiber := x22\<rparr>)"
  "(lock_of w c)\<lparr>right_rmap := x23\<rparr> = lock_of w (c\<lparr>right_rmap := x23\<rparr>)"
  "(lock_of w c)\<lparr>child_rmap := x24\<rparr> = lock_of w (c\<lparr>child_rmap := x24\<rparr>)"
  "(lock_of w c)\<lparr>user_rmap := x25\<rparr> = lock_of w (c\<lparr>user_rmap := x25\<rparr>)"
  by (simp_all add: lock_of_def)

lemma unlock_of_upd [simp]:
  "(unlock_of c)\<lparr>frame := x0\<rparr> = unlock_of (c\<lparr>frame := x0\<rparr>)"
  "(unlock_of c)\<lparr>fiber := x1\<rparr> = unlock_of (c\<lparr>fiber := x1\<rparr>)"
  "(unlock_of c)\<lparr>fiber_child := x2\<rparr> = unlock_of (c\<lparr>fiber_child := x2\<rparr>)"
  "(unlock_of c)\<lparr>owner_ready_deque := x3\<rparr> = unlock_of (c\<lparr>owner_ready_deque := x3\<rparr>)"
  "(unlock_of c)\<lparr>status := x4\<rparr> = unlock_of (c\<lparr>status := x4\<rparr>)"
  "(unlock_of c)\<lparr>has_cilk_callee := x5\<rparr> = unlock_of (c\<lparr>has_cilk_callee := x5\<rparr>)"
  "(unlock_of c)\<lparr>simulated_stolen := x6\<rparr> = unlock_of (c\<lparr>simulated_stolen := x6\<rparr>)"
  "(unlock_of c)\<lparr>join_counter := x7\<rparr> = unlock_of (c\<lparr>join_counter := x7\<rparr>)"
  "(unlock_of c)\<lparr>orig_rsp := x8\<rparr> = unlock_of (c\<lparr>orig_rsp := x8\<rparr>)"
  "(unlock_of c)\<lparr>callee := x9\<rparr> = unlock_of (c\<lparr>callee := x9\<rparr>)"
  "(unlock_of c)\<lparr>call_parent := x10\<rparr> = unlock_of (c\<lparr>call_parent := x10\<rparr>)"
  "(unlock_of c)\<lparr>spawn_parent := x11\<rparr> = unlock_of (c\<lparr>spawn_parent := x11\<rparr>)"
  "(unlock_of c)\<lparr>left_sib := x12\<rparr> = unlock_of (c\<lparr>left_sib := x12\<rparr>)"
  "(unlock_of c)\<lparr>right_sib := x13\<rparr> = unlock_of (c\<lparr>right_sib := x13\<rparr>)"
  "(unlock_of c)\<lparr>right_most_child := x14\<rparr> = unlock_of (c\<lparr>right_most_child := x14\<rparr>)"
  "(unlock_of c)\<lparr>next_ready := x15\<rparr> = unlock_of (c\<lparr>next_ready := x15\<rparr>)"
  "(unlock_of c)\<lparr>prev_ready := x16\<rparr> = unlock_of (c\<lparr>prev_ready := x16\<rparr>)"
  "(unlock_of c)\<lparr>right_exn := x17\<rparr> = unlock_of (c\<lparr>right_exn := x17\<rparr>)"
  "(unlock_of c)\<lparr>child_exn := x18\<rparr> = unlock_of (c\<lparr>child_exn := x18\<rparr>)"
  "(unlock_of c)\<lparr>user_exn := x19\<rparr> = unlock_of (c\<lparr>user_exn := x19\<rparr>)"
  "(unlock_of c)\<lparr>reraise_cfa := x20\<rparr> = unlock_of (c\<lparr>reraise_cfa := x20\<rparr>)"
  "(unlock_of c)\<lparr>parent_rsp := x21\<rparr> = unlock_of (c\<lparr>parent_rsp := x21\<rparr>)"
  "(unlock_of c)\<lparr>saved_throwing_fiber := x22\<rparr> = unlock_of (c\<lparr>saved_throwing_fiber := x22\<rparr>)"
  "(unlock_of c)\<lparr>right_rmap := x23\<rparr> = unlock_of (c\<lparr>right_rmap := x23\<rparr>)"
  "(unlock_of c)\<lparr>child_rmap := x24\<rparr> = unlock_of (c\<lparr>child_rmap := x24\<rparr>)"
  "(unlock_of c)\<lparr>user_rmap := x25\<rparr> = unlock_of (c\<lparr>user_rmap := x25\<rparr>)"
  by (simp_all add: unlock_of_def)

lemma held_upd [simp]:
  "held w (c\<lparr>frame := x0\<rparr>) = held w c" "held w (c\<lparr>fiber := x1\<rparr>) = held w c"
  "held w (c\<lparr>fiber_child := x2\<rparr>) = held w c" "held w (c\<lparr>owner_ready_deque := x3\<rparr>) = held w c"
  "held w (c\<lparr>has_cilk_callee := x5\<rparr>) = held w c" "held w (c\<lparr>simulated_stolen := x6\<rparr>) = held w c"
  "held w (c\<lparr>join_counter := x7\<rparr>) = held w c" "held w (c\<lparr>orig_rsp := x8\<rparr>) = held w c"
  "held w (c\<lparr>callee := x9\<rparr>) = held w c" "held w (c\<lparr>call_parent := x10\<rparr>) = held w c"
  "held w (c\<lparr>spawn_parent := x11\<rparr>) = held w c" "held w (c\<lparr>left_sib := x12\<rparr>) = held w c"
  "held w (c\<lparr>right_sib := x13\<rparr>) = held w c" "held w (c\<lparr>right_most_child := x14\<rparr>) = held w c"
  "held w (c\<lparr>next_ready := x15\<rparr>) = held w c" "held w (c\<lparr>prev_ready := x16\<rparr>) = held w c"
  "held w (c\<lparr>right_exn := x17\<rparr>) = held w c" "held w (c\<lparr>child_exn := x18\<rparr>) = held w c"
  "held w (c\<lparr>user_exn := x19\<rparr>) = held w c" "held w (c\<lparr>reraise_cfa := x20\<rparr>) = held w c"
  "held w (c\<lparr>parent_rsp := x21\<rparr>) = held w c" "held w (c\<lparr>saved_throwing_fiber := x22\<rparr>) = held w c"
  "held w (c\<lparr>right_rmap := x23\<rparr>) = held w c" "held w (c\<lparr>child_rmap := x24\<rparr>) = held w c"
  "held w (c\<lparr>user_rmap := x25\<rparr>) = held w c"
  by (simp_all add: held_def)

lemma relock [simp]: "held w c \<Longrightarrow> lock_of w (unlock_of c) = c"
  by (cases c) (simp add: held_def lock_of_def unlock_of_def)

lemma held_lock_of [simp]: "held w (lock_of w c) \<longleftrightarrow> live_status (status c)"
  by (simp add: held_def)

lemma heldD [dest]: "held w c \<Longrightarrow> mutex_owner c = w" "held w c \<Longrightarrow> live_status (status c)" "held w c \<Longrightarrow> cl_mutex c"
  by (simp_all add: held_def)

lemma Closure_lock_run [simp]:
  assumes "closures s t = Some c" "live_status (status c)" "\<not> cl_mutex c"
  shows "Closure_lock w t s = Inr ((), s\<lparr>closures := (closures s)(t \<mapsto> lock_of w c)\<rparr>)"
    "thenA (Closure_lock w t) n s = n (s\<lparr>closures := (closures s)(t \<mapsto> lock_of w c)\<rparr>)"
  using assms by (simp_all add: lock_of_def Closure_lock_def thenA_def bindA_def)

lemma Closure_unlock_run [simp]:
  assumes "closures s t = Some c" "live_status (status c)" "mutex_owner c = w"
  shows "Closure_unlock w t s = Inr ((), s\<lparr>closures := (closures s)(t \<mapsto> unlock_of c)\<rparr>)"
    "thenA (Closure_unlock w t) n s = n (s\<lparr>closures := (closures s)(t \<mapsto> unlock_of c)\<rparr>)"
  using assms by (simp_all add: unlock_of_def Closure_unlock_def Closure_assert_ownership_def thenA_def bindA_def)

lemma Closure_assert_run [simp]:
  "closures s t = Some c \<Longrightarrow> mutex_owner c = w \<Longrightarrow> Closure_assert_ownership w t s = Inr ((), s)"
  "closures s t = Some c \<Longrightarrow> mutex_owner c = w \<Longrightarrow> thenA (Closure_assert_ownership w t) n s = n s"
  "closures s t = Some c \<Longrightarrow> mutex_owner c \<noteq> w \<Longrightarrow> Closure_assert_alienation w t s = Inr ((), s)"
  "closures s t = Some c \<Longrightarrow> mutex_owner c \<noteq> w \<Longrightarrow> thenA (Closure_assert_alienation w t) n s = n s"
  by (simp_all add: Closure_assert_ownership_def Closure_assert_alienation_def thenA_def bindA_def)

lemma Closure_status_run [simp]:
  "closures s t = Some c \<Longrightarrow> Closure_set_status t st s = Inr ((), s\<lparr>closures := (closures s)(t \<mapsto> c\<lparr>status := st\<rparr>)\<rparr>)"
  "closures s t = Some c \<Longrightarrow> thenA (Closure_set_status t st) n s = n (s\<lparr>closures := (closures s)(t \<mapsto> c\<lparr>status := st\<rparr>)\<rparr>)"
  "closures s t = Some c \<Longrightarrow> Closure_make_ready t s = Inr ((), s\<lparr>closures := (closures s)(t \<mapsto> c\<lparr>status := CLOSURE_READY\<rparr>)\<rparr>)"
  "closures s t = Some c \<Longrightarrow> thenA (Closure_make_ready t) n s = n (s\<lparr>closures := (closures s)(t \<mapsto> c\<lparr>status := CLOSURE_READY\<rparr>)\<rparr>)"
  by (simp_all add: Closure_set_status_def Closure_make_ready_def)

section \<open>Exceptions of a returning child\<close>

text \<open>The exception that survives: of the one from the left, the child's own and the one from its
  right, the first in serial order.\<close>

definition first_exn :: "nat option \<Rightarrow> nat option \<Rightarrow> nat option \<Rightarrow> nat option" where
  "first_exn l a r = (if l \<noteq> None then l else if a \<noteq> None then a else r)"

definition left_exn :: "(addr \<Rightarrow> closure option) \<Rightarrow> addr \<Rightarrow> addr option \<Rightarrow> nat option" where
  "left_exn C parent l = (case l of None \<Rightarrow> child_exn (the (C parent)) | Some x \<Rightarrow> right_exn (the (C x)))"

definition put_left_exn :: "addr \<Rightarrow> addr option \<Rightarrow> nat option \<Rightarrow> (addr \<Rightarrow> closure option) \<Rightarrow> addr \<Rightarrow> closure option" where
  "put_left_exn parent l e C = (case l of
      None \<Rightarrow> C(parent := map_option (\<lambda>k. k\<lparr>child_exn := e\<rparr>) (C parent))
    | Some x \<Rightarrow> C(x := map_option (\<lambda>k. k\<lparr>right_exn := e\<rparr>) (C x)))"

definition dropped_exns :: "nat option \<Rightarrow> nat option \<Rightarrow> nat option \<Rightarrow> nat list" where
  "dropped_exns l a r = (case (l, a, r) of
      (Some _, Some x, Some y) \<Rightarrow> [y, x] | (Some _, Some x, None) \<Rightarrow> [x] | (Some _, None, Some y) \<Rightarrow> [y]
    | (None, Some _, Some y) \<Rightarrow> [y] | _ \<Rightarrow> [])"

text \<open>Parent, child and the child's left sibling, if it has one, are three closures; the worker
  holds the locks of the first two.\<close>

definition returning :: "worker_id \<Rightarrow> addr \<Rightarrow> addr \<Rightarrow> closure \<Rightarrow> closure \<Rightarrow> (addr \<Rightarrow> closure option) \<Rightarrow> bool" where
  "returning w parent child p c C \<longleftrightarrow> C parent = Some p \<and> C child = Some c \<and> parent \<noteq> child \<and> held w p \<and> held w c \<and>
     (case left_sib c of None \<Rightarrow> True | Some x \<Rightarrow> x \<noteq> parent \<and> x \<noteq> child \<and> C x \<noteq> None)"

lemma user_exn_same: "user_exn c = x \<Longrightarrow> c\<lparr>user_exn := x\<rparr> = c"
  by auto

lemma return_exn_loop_leftmost:
  assumes "closures s parent = Some p" "closures s child = Some c" "parent \<noteq> child" "left_sib c = None" "held w c" "held w p"
   "live_status (status c)" "live_status (status p)" "mutex_owner c = w" "mutex_owner p = w"  "child_exn p = l" "user_exn c = a" "right_exn c = r"
 shows "return_exn_loop (Suc (Suc 0)) w parent child s = Inr ((), s\<lparr>deleted_exns := dropped_exns l a r @ deleted_exns s,
     closures := (closures s)(child \<mapsto> c\<lparr>user_exn := first_exn l a r, right_exn := None\<rparr>, parent \<mapsto> p\<lparr>child_exn := first_exn l a r\<rparr>)\<rparr>)"
  by (cases l; cases a; cases r; use assms in \<open>simp add: act_flat_run Let_def get_left_exn_def set_left_exn_def delete_exn_def first_exn_def dropped_exns_def user_exn_same cong: run_cong\<close>)

lemma return_exn_loop_sibling:
  assumes "closures s parent = Some p" "closures s child = Some c" "parent \<noteq> child" "left_sib c = Some x" "closures s x = Some y" "x \<noteq> parent" "x \<noteq> child"
   "held w c" "held w p"
   "live_status (status c)" "live_status (status p)" "mutex_owner c = w" "mutex_owner p = w"  "right_exn y = l" "user_exn c = a" "right_exn c = r"
 shows "return_exn_loop (Suc (Suc 0)) w parent child s = Inr ((), s\<lparr>deleted_exns := dropped_exns l a r @ deleted_exns s,
     closures := (closures s)(child \<mapsto> c\<lparr>user_exn := first_exn l a r, right_exn := None\<rparr>, x \<mapsto> y\<lparr>right_exn := first_exn l a r\<rparr>)\<rparr>)"
  by (cases l; cases a; cases r; use assms in \<open>simp add: act_flat_run Let_def get_left_exn_def set_left_exn_def delete_exn_def first_exn_def dropped_exns_def user_exn_same fun_upd_twist fun_upd_idem cong: run_cong\<close>)

section \<open>Reducer maps of a returning child\<close>

definition maps_distinct :: "addr option list \<Rightarrow> bool" where
  "maps_distinct ps \<longleftrightarrow> distinct (filter (\<lambda>p. p \<noteq> None) ps)"

lemma merge_two_rmaps_None [simp]: "merge_two_rmaps w None r s = Inr (r, s)" "merge_two_rmaps w l None s = Inr (l, s)"
  by (auto simp: merge_two_rmaps_def split: option.splits)

lemma merge_three_run:
  assumes c: "rmap_conf cap K s l" "rmap_conf cap K s a" "rmap_conf cap K s r" and d: "maps_distinct [l, a, r]"
    and good: "im_good n s (live + rmap_led l + rmap_led a + rmap_led r)" and w: "w < n"
  shows "\<exists>p s'. merge_three w l a r s = Inr (p, s') \<and> rmap_conf cap K s' p \<and> im_good n s' (live + rmap_led p) \<and>
    rviews s' p = combine (hyperobjs s) (combine (hyperobjs s) (rviews s l) (rviews s a)) (rviews s r) \<and> merge_frame s s' \<and>
    p \<in> {None, l, a, r} \<and> (\<forall>x. Some x \<notin> {l, a, r} \<longrightarrow> rmaps s' x = rmaps s x)"
proof -
  have g: "im_good n s ((live + rmap_led r) + rmap_led l + rmap_led a)" using good by (simp add: ac_simps)
  obtain p1 s1 where 1: "merge_two_rmaps w l a s = Inr (p1, s1)" "p1 \<in> {l, a}" "rmap_conf cap K s1 p1" "im_good n s1 (live + rmap_led r + rmap_led p1)"
      "rviews s1 p1 = combine (hyperobjs s) (rviews s l) (rviews s a)" "merge_frame s s1" "\<forall>x. Some x \<noteq> l \<longrightarrow> Some x \<noteq> a \<longrightarrow> rmaps s1 x = rmaps s x"
    using merge_two_rmaps_conf[OF c(1,2) _ g w] d by (auto simp: maps_distinct_def split: if_splits)
  have e1: "(if l \<noteq> None then merge_two_rmaps w l a else ret a) s = Inr (p1, s1)" using 1(1) by (cases l) auto
  have h: "hyperobjs s1 = hyperobjs s" using merge_frame_fields(1)[OF 1(6)] .
  have ne: "p1 = None \<or> r = None \<or> p1 \<noteq> r" using d 1(2) by (auto simp: maps_distinct_def split: if_splits)
  have rr: "rmaps s1 x = rmaps s x" if "r = Some x" for x using 1(7) that d by (auto simp: maps_distinct_def split: if_splits)
  have c3: "rmap_conf cap K s1 r" using c(3) rmap_conf_cong[of r s1 s, OF rr h] by simp
  have vr: "rviews s1 r = rviews s r" using rr by (auto split: option.splits)
  have g1: "im_good n s1 (live + rmap_led p1 + rmap_led r)" using 1(4) by (simp add: ac_simps)
  obtain p s' where 2: "merge_two_rmaps w p1 r s1 = Inr (p, s')" "p \<in> {p1, r}" "rmap_conf cap K s' p" "im_good n s' (live + rmap_led p)"
      "rviews s' p = combine (hyperobjs s1) (rviews s1 p1) (rviews s1 r)" "merge_frame s1 s'"
      "\<forall>x. Some x \<noteq> p1 \<longrightarrow> Some x \<noteq> r \<longrightarrow> rmaps s' x = rmaps s1 x"
    using merge_two_rmaps_conf[OF 1(3) c3 ne g1 w] by blast
  have e2: "(if r \<noteq> None then merge_two_rmaps w p1 r else ret p1) s1 = Inr (p, s')" using 2(1) by (cases r) auto
  have "merge_three w l a r s = Inr (p, s')" unfolding merge_three_def bindA_def e1 by (simp add: e2[simplified])
  then show ?thesis
    using 1 2 vr h merge_frame_trans[OF 1(6) 2(6)] by (intro exI[of _ p] exI[of _ s']) auto
qed

lemma sched_fields_more:
  fixes s s' :: "('v, 'a) sched_state_scheme"
  assumes "red_state.more s' = red_state.more s"
  shows "closures s' = closures s" "frames s' = frames s" "deques s' = deques s" "workers s' = workers s"
    "root_closure s' = root_closure s" "deleted_exns s' = deleted_exns s" "nworkers s' = nworkers s" "g_done s' = g_done s"
  using assms by (cases s; cases s'; simp)+

definition left_rmap :: "(addr \<Rightarrow> closure option) \<Rightarrow> addr \<Rightarrow> addr option \<Rightarrow> addr option" where
  "left_rmap C parent l = (case l of None \<Rightarrow> child_rmap (the (C parent)) | Some x \<Rightarrow> right_rmap (the (C x)))"

definition put_left_rmap :: "addr \<Rightarrow> addr option \<Rightarrow> addr option \<Rightarrow> (addr \<Rightarrow> closure option) \<Rightarrow> addr \<Rightarrow> closure option" where
  "put_left_rmap parent l m C = (case l of
      None \<Rightarrow> C(parent := map_option (\<lambda>k. k\<lparr>child_rmap := m\<rparr>) (C parent))
    | Some x \<Rightarrow> C(x := map_option (\<lambda>k. k\<lparr>right_rmap := m\<rparr>) (C x)))"

text \<open>A pass that finds nothing on either side deposits the worker's map on the left.\<close>

lemma return_rmap_deposit:
  assumes r: "returning w parent child p c (closures s)" and e: "left_rmap (closures s) parent (left_sib c) = None" "right_rmap c = None"
  shows "return_rmap_loop (Suc n) w parent child s = Inr ((), s\<lparr>wrmap := (wrmap s)(w := None),
     closures := put_left_rmap parent (left_sib c) (wrmap s w) ((closures s)(child \<mapsto> c\<lparr>right_rmap := None\<rparr>))\<rparr>)"
  by (cases "left_sib c"; use assms in \<open>auto simp: returning_def left_rmap_def put_left_rmap_def Let_def act_flat_run
      get_left_rmap_def set_left_rmap_def fun_upd_twist cong: run_cong\<close>)

lemma wrmap_closures_order:
  "s\<lparr>closures := C, wrmap := m\<rparr> = (s :: ('v, 'a) sched_state_scheme)\<lparr>wrmap := m, closures := C\<rparr>"
  by (cases s) simp

abbreviation after_merge :: "nat \<Rightarrow> worker_id \<Rightarrow> addr \<Rightarrow> addr \<Rightarrow> addr option \<Rightarrow> (('v, 'a) sched_state_scheme, unit) act" where
  "after_merge n w parent child active \<equiv> thenA (modify (\<lambda>s. s\<lparr>wrmap := (wrmap s)(w := active)\<rparr>))
              (thenA (Closure_lock w parent) (thenA (Closure_lock w child) (return_rmap_loop n w parent child)))"

lemma return_rmap_pass_leftmost:
  assumes "l \<noteq> None \<or> r \<noteq> None" and "closures s parent = Some p" "closures s child = Some c" "parent \<noteq> child" "left_sib c = None" 
   "live_status (status c)" "live_status (status p)" "mutex_owner c = w" "mutex_owner p = w" "child_rmap p = l" "right_rmap c = r"
  shows "return_rmap_loop (Suc n) w parent child s = bindA (merge_three w l (wrmap s w) r) (after_merge n w parent child)
    (s\<lparr>wrmap := (wrmap s)(w := None), closures := (closures s)(child \<mapsto> unlock_of (c\<lparr>right_rmap := None\<rparr>), parent \<mapsto> unlock_of (p\<lparr>child_rmap := None\<rparr>))\<rparr>)"
proof (cases l)
  case None
  then obtain b where r: "r = Some b" using assms(1) by auto
  show ?thesis using assms(2-) unfolding None r by (simp add: Let_def act_flat_run get_left_rmap_def set_left_rmap_def wrmap_closures_order cong: run_cong)
next
  case (Some a)
  show ?thesis
  proof (cases r)
    case None
    show ?thesis using assms(2-) unfolding None Some by (simp add: Let_def act_flat_run get_left_rmap_def set_left_rmap_def wrmap_closures_order cong: run_cong)
  next
    case (Some b)
    show ?thesis using assms(2-) unfolding \<open>l = Some a\<close> Some by (simp add: Let_def act_flat_run get_left_rmap_def set_left_rmap_def wrmap_closures_order cong: run_cong)
  qed
qed


lemma return_rmap_pass_sibling:
  assumes "l \<noteq> None \<or> r \<noteq> None" and "closures s parent = Some p" "closures s child = Some c" "parent \<noteq> child"
   "left_sib c = Some x" "closures s x = Some y" "x \<noteq> parent" "x \<noteq> child"
   "live_status (status c)" "live_status (status p)" "mutex_owner c = w" "mutex_owner p = w" "right_rmap y = l" "right_rmap c = r"
  shows "return_rmap_loop (Suc n) w parent child s = bindA (merge_three w l (wrmap s w) r) (after_merge n w parent child)
    (s\<lparr>wrmap := (wrmap s)(w := None), closures := (closures s)(parent \<mapsto> unlock_of p, x \<mapsto> y\<lparr>right_rmap := None\<rparr>, child \<mapsto> unlock_of (c\<lparr>right_rmap := None\<rparr>))\<rparr>)"
proof (cases l)
  case None
  then obtain b where r: "r = Some b" using assms(1) by auto
  show ?thesis using assms(2-) unfolding None r by (simp add: Let_def act_flat_run get_left_rmap_def set_left_rmap_def wrmap_closures_order fun_upd_twist cong: run_cong)
next
  case (Some a)
  show ?thesis
  proof (cases r)
    case None
    show ?thesis using assms(2-) unfolding None Some by (simp add: Let_def act_flat_run get_left_rmap_def set_left_rmap_def wrmap_closures_order fun_upd_twist cong: run_cong)
  next
    case (Some b)
    show ?thesis using assms(2-) unfolding \<open>l = Some a\<close> Some by (simp add: Let_def act_flat_run get_left_rmap_def set_left_rmap_def wrmap_closures_order fun_upd_twist cong: run_cong)
  qed
qed

lemma after_merge_run:
  assumes "closures s1 = C(parent \<mapsto> unlock_of p, child \<mapsto> unlock_of c)" "wrmap s1 = (wrmap s)(w := None)" "held w p" "held w c" "parent \<noteq> child"
  shows "after_merge n w parent child q s1 = return_rmap_loop n w parent child
    (s1\<lparr>wrmap := (wrmap s)(w := q), closures := C(parent \<mapsto> p, child \<mapsto> c)\<rparr>)"
  using assms heldD[OF assms(3)] heldD[OF assms(4)] by (simp add: wrmap_closures_order fun_upd_twist)

definition same_rest :: "('v, 'a) sched_state_scheme \<Rightarrow> ('v, 'a) sched_state_scheme \<Rightarrow> bool" where
  "same_rest s s' \<longleftrightarrow> hyperobjs s' = hyperobjs s \<and> frames s' = frames s \<and> deques s' = deques s \<and> workers s' = workers s \<and>
     root_closure s' = root_closure s \<and> deleted_exns s' = deleted_exns s \<and> fibers s' = fibers s \<and>
     gfiber_pool s' = gfiber_pool s \<and> wfiber_pool s' = wfiber_pool s"

lemma same_rest_merge: "merge_frame s s' \<Longrightarrow> same_rest s s'"
  using merge_frame_fields[of s s'] sched_fields_more[of s' s] by (simp add: same_rest_def)

lemma same_rest_trans: "same_rest s s1 \<Longrightarrow> same_rest s1 s2 \<Longrightarrow> same_rest s s2"
  by (simp add: same_rest_def)

lemma same_rest_upd [simp]:
  "same_rest s (s'\<lparr>closures := C\<rparr>) = same_rest s s'" "same_rest s (s'\<lparr>wrmap := m\<rparr>) = same_rest s s'"
  "same_rest (s\<lparr>closures := C\<rparr>) s' = same_rest s s'" "same_rest (s\<lparr>wrmap := m\<rparr>) s' = same_rest s s'" "same_rest s s"
  by (simp_all add: same_rest_def)

text \<open>The state in which a pass merges, with both locks released and the slots emptied.\<close>

definition rmap_taken :: "worker_id \<Rightarrow> addr \<Rightarrow> addr \<Rightarrow> closure \<Rightarrow> ('v, 'a) sched_state_scheme \<Rightarrow> ('v, 'a) sched_state_scheme" where
  "rmap_taken w parent child c s = s\<lparr>wrmap := (wrmap s)(w := None),
     closures := (let C = put_left_rmap parent (left_sib c) None (closures s)
                  in C(parent := map_option unlock_of (C parent), child \<mapsto> unlock_of (c\<lparr>right_rmap := None\<rparr>)))\<rparr>"

definition rmap_retaken :: "addr \<Rightarrow> addr \<Rightarrow> closure \<Rightarrow> (addr \<Rightarrow> closure option) \<Rightarrow> addr \<Rightarrow> closure option" where
  "rmap_retaken parent child c C = (put_left_rmap parent (left_sib c) None C)(child \<mapsto> c\<lparr>right_rmap := None\<rparr>)"

lemma return_rmap_pass:
  assumes r: "returning w parent child p c (closures s)"
    and ne: "left_rmap (closures s) parent (left_sib c) \<noteq> None \<or> right_rmap c \<noteq> None"
    and m: "merge_three w (left_rmap (closures s) parent (left_sib c)) (wrmap s w) (right_rmap c) (rmap_taken w parent child c s) = Inr (q, s1)"
      "closures s1 = closures (rmap_taken w parent child c s)" "wrmap s1 = (wrmap s)(w := None)"
  shows "return_rmap_loop (Suc n) w parent child s =
    return_rmap_loop n w parent child (s1\<lparr>wrmap := (wrmap s)(w := q), closures := rmap_retaken parent child c (closures s)\<rparr>)"
proof -
  have st: "live_status (status c)" "live_status (status p)" "mutex_owner c = w" "mutex_owner p = w" "held w c" "held w p"
     "closures s parent = Some p" "closures s child = Some c" "parent \<noteq> child"
    using r by (auto simp: returning_def)
  show ?thesis
  proof (cases "left_sib c")
    case None
    have t: "rmap_taken w parent child c s = s\<lparr>wrmap := (wrmap s)(w := None),
        closures := (closures s)(child \<mapsto> unlock_of (c\<lparr>right_rmap := None\<rparr>), parent \<mapsto> unlock_of (p\<lparr>child_rmap := None\<rparr>))\<rparr>"
      using st(7-9) None by (simp add: rmap_taken_def put_left_rmap_def fun_upd_twist)
    have l: "left_rmap (closures s) parent (left_sib c) = child_rmap p" using None st by (simp add: left_rmap_def)
    note pass = return_rmap_pass_leftmost[OF ne[unfolded l] st(7-9) None st(1-4) refl refl, of n]
    have "return_rmap_loop (Suc n) w parent child s = after_merge n w parent child q s1"
      unfolding pass by (rule run_bindA_Inr) (use m(1)[unfolded l t] in assumption)
    also have "\<dots> = return_rmap_loop n w parent child (s1\<lparr>wrmap := (wrmap s)(w := q),
        closures := (closures s)(parent \<mapsto> p\<lparr>child_rmap := None\<rparr>, child \<mapsto> c\<lparr>right_rmap := None\<rparr>)\<rparr>)"
      by (rule after_merge_run) (use m(2,3) st in \<open>simp_all add: t fun_upd_twist\<close>)
    finally show ?thesis using None st by (simp add: rmap_retaken_def put_left_rmap_def)
  next
    case (Some x)
    then obtain y where y: "closures s x = Some y" "x \<noteq> parent" "x \<noteq> child" using r by (auto simp: returning_def)
    have t: "rmap_taken w parent child c s = s\<lparr>wrmap := (wrmap s)(w := None),
        closures := (closures s)(parent \<mapsto> unlock_of p, x \<mapsto> y\<lparr>right_rmap := None\<rparr>, child \<mapsto> unlock_of (c\<lparr>right_rmap := None\<rparr>))\<rparr>"
      using st(7-9) y Some by (simp add: rmap_taken_def put_left_rmap_def fun_upd_twist)
    have l: "left_rmap (closures s) parent (left_sib c) = right_rmap y" using Some y by (simp add: left_rmap_def)
    note pass = return_rmap_pass_sibling[OF ne[unfolded l] st(7-9) Some y st(1-4) refl refl, of n]
    have "return_rmap_loop (Suc n) w parent child s = after_merge n w parent child q s1"
      unfolding pass by (rule run_bindA_Inr) (use m(1)[unfolded l t] in assumption)
    also have "\<dots> = return_rmap_loop n w parent child (s1\<lparr>wrmap := (wrmap s)(w := q),
        closures := ((closures s)(x \<mapsto> y\<lparr>right_rmap := None\<rparr>))(parent \<mapsto> p, child \<mapsto> c\<lparr>right_rmap := None\<rparr>)\<rparr>)"
      by (rule after_merge_run) (use m(2,3) st y in \<open>simp_all add: t fun_upd_twist\<close>)
    finally show ?thesis using Some st y by (simp add: rmap_retaken_def put_left_rmap_def fun_upd_idem)
  qed
qed

lemma returning_retaken:
  assumes "returning w parent child p c C"
  obtains p' where "returning w parent child p' (c\<lparr>right_rmap := None\<rparr>) (rmap_retaken parent child c C)"
    "left_rmap (rmap_retaken parent child c C) parent (left_sib c) = None"
  using assms by (cases "left_sib c")
   (auto simp: returning_def rmap_retaken_def put_left_rmap_def left_rmap_def held_def)

lemma put_left_retaken:
  assumes "returning w parent child p c C"
  shows "put_left_rmap parent (left_sib c) q ((rmap_retaken parent child c C)(child \<mapsto> c\<lparr>right_rmap := None\<rparr>)) =
    put_left_rmap parent (left_sib c) q (C(child \<mapsto> c\<lparr>right_rmap := None\<rparr>))"
  using assms by (cases "left_sib c") (auto simp: returning_def rmap_retaken_def put_left_rmap_def fun_eq_iff)

lemma return_rmap_loop_run:
  assumes r: "returning w parent child p c (closures s)"
    and c: "rmap_conf cap K s l" "rmap_conf cap K s (wrmap s w)" "rmap_conf cap K s (right_rmap c)"
    and d: "maps_distinct [l, wrmap s w, right_rmap c]" and l: "l = left_rmap (closures s) parent (left_sib c)"
    and good: "im_good n s (live + rmap_led l + rmap_led (wrmap s w) + rmap_led (right_rmap c))" and w: "w < n"
  shows "\<exists>q s'. return_rmap_loop 2 w parent child s = Inr ((), s') \<and> rmap_conf cap K s' q \<and> im_good n s' (live + rmap_led q) \<and>
    rviews s' q = combine (hyperobjs s) (combine (hyperobjs s) (rviews s l) (rviews s (wrmap s w))) (rviews s (right_rmap c)) \<and>
    closures s' = put_left_rmap parent (left_sib c) q ((closures s)(child \<mapsto> c\<lparr>right_rmap := None\<rparr>)) \<and>
    wrmap s' = (wrmap s)(w := None) \<and> same_rest s s' \<and> q \<in> {None, l, wrmap s w, right_rmap c} \<and>
    (\<forall>x. Some x \<notin> {l, wrmap s w, right_rmap c} \<longrightarrow> rmaps s' x = rmaps s x)"
proof (cases "l = None \<and> right_rmap c = None")
  case True
  let ?s' = "s\<lparr>wrmap := (wrmap s)(w := None), closures := put_left_rmap parent (left_sib c) (wrmap s w) ((closures s)(child \<mapsto> c\<lparr>right_rmap := None\<rparr>))\<rparr>"
  have "return_rmap_loop 2 w parent child s = Inr ((), ?s')"
    using return_rmap_deposit[OF r, of 1] True l by (simp add: numeral_2_eq_2)
  moreover have "im_good n ?s' (live + rmap_led (wrmap s w))" using good True im_good_cong[of ?s' s] by simp
  moreover have "rmap_conf cap K ?s' (wrmap s w)" using c(2) rmap_conf_cong[of "wrmap s w" ?s' s] by simp
  ultimately show ?thesis using True by (intro exI[of _ "wrmap s w"] exI[of _ ?s']) (simp, simp split: option.splits)
next
  case False
  let ?s0 = "rmap_taken w parent child c s"
  have f0: "rmaps ?s0 = rmaps s" "hyperobjs ?s0 = hyperobjs s" "wrmap ?s0 = (wrmap s)(w := None)" "same_rest s ?s0"
    by (simp_all add: rmap_taken_def)
  have c0: "rmap_conf cap K ?s0 x = rmap_conf cap K s x" "rviews ?s0 x = rviews s x" for x
    using rmap_conf_cong[of x ?s0 s] f0 by (cases x; simp)+
  have g0: "im_good n ?s0 (live + rmap_led l + rmap_led (wrmap s w) + rmap_led (right_rmap c))"
    using good im_good_cong[of ?s0 s] by (simp add: rmap_taken_def)
  obtain q s1 where m: "merge_three w l (wrmap s w) (right_rmap c) ?s0 = Inr (q, s1)" "rmap_conf cap K s1 q" "im_good n s1 (live + rmap_led q)"
      "rviews s1 q = combine (hyperobjs s) (combine (hyperobjs s) (rviews s l) (rviews s (wrmap s w))) (rviews s (right_rmap c))" "merge_frame ?s0 s1"
      "q \<in> {None, l, wrmap s w, right_rmap c}" "\<forall>x. Some x \<notin> {l, wrmap s w, right_rmap c} \<longrightarrow> rmaps s1 x = rmaps s x"
    using merge_three_run[of cap K ?s0 l "wrmap s w" "right_rmap c" n live w] c d g0 w unfolding c0 f0 by blast
  note mf = merge_frame_fields[OF m(5)] and sf = sched_fields_more[OF merge_frame_fields(3)[OF m(5)]]
  let ?s2 = "s1\<lparr>wrmap := (wrmap s)(w := q), closures := rmap_retaken parent child c (closures s)\<rparr>"
  have "return_rmap_loop (Suc 1) w parent child s = return_rmap_loop 1 w parent child ?s2"
    by (rule return_rmap_pass[OF r]) (use False l m(1) mf sf f0 in auto)
  also obtain p' where p': "returning w parent child p' (c\<lparr>right_rmap := None\<rparr>) (closures ?s2)"
      "left_rmap (closures ?s2) parent (left_sib c) = None"
    using returning_retaken[OF r] by auto
  have "return_rmap_loop 1 w parent child ?s2 = Inr ((), ?s2\<lparr>wrmap := (wrmap ?s2)(w := None), closures :=
      put_left_rmap parent (left_sib c) (wrmap ?s2 w) ((closures ?s2)(child \<mapsto> c\<lparr>right_rmap := None\<rparr>))\<rparr>)"
    using return_rmap_deposit[OF p'(1), of 0] p'(2) by simp
  finally have run: "return_rmap_loop 2 w parent child s = Inr ((), s1\<lparr>wrmap := (wrmap s)(w := None),
      closures := put_left_rmap parent (left_sib c) q ((closures s)(child \<mapsto> c\<lparr>right_rmap := None\<rparr>))\<rparr>)"
    using put_left_retaken[OF r] by (simp add: numeral_2_eq_2 wrmap_closures_order)
  let ?s' = "s1\<lparr>wrmap := (wrmap s)(w := None), closures := put_left_rmap parent (left_sib c) q ((closures s)(child \<mapsto> c\<lparr>right_rmap := None\<rparr>))\<rparr>"
  have "im_good n ?s' (live + rmap_led q)" using m(3) im_good_cong[of ?s' s1] by simp
  moreover have "rmap_conf cap K ?s' q" using m(2) rmap_conf_cong[of q ?s' s1] by simp
  moreover have "same_rest s ?s'" using same_rest_trans[OF f0(4) same_rest_merge[OF m(5)]] by simp
  moreover have "rviews ?s' q = rviews s1 q" by (cases q) simp_all
  ultimately show ?thesis using run m(4,6,7) by (intro exI[of _ q] exI[of _ ?s']) simp
qed

section \<open>What a return does to exceptions and reducers\<close>

lemma exn_accounts: "mset (dropped_exns l a r) + mset_set (set_option (first_exn l a r)) =
    mset_set (set_option l) + mset_set (set_option a) + mset_set (set_option r)"
  by (cases l; cases a; cases r) (simp_all add: dropped_exns_def first_exn_def)

text \<open>Two closures on which a return can be run: closure 2 is the only child of closure 1, worker 0
  holds both locks, the child has thrown exception 5 and a sibling to its right exception 6, and the
  children that returned earlier left the reducer map at 65536 with the parent.\<close>

definition ret_parent_ex :: closure where
  "ret_parent_ex = Closure_init\<lparr>status := CLOSURE_SUSPENDED, cl_mutex := True, mutex_owner := 0, join_counter := 1,
     right_most_child := Some 2, child_rmap := Some 65536\<rparr>"

definition ret_child_ex :: closure where
  "ret_child_ex = Closure_init\<lparr>status := CLOSURE_RETURNING, cl_mutex := True, mutex_owner := 0, spawn_parent := Some 1,
     user_exn := Some 5, right_exn := Some 6\<rparr>"

definition ret_ex :: "int list sched_state" where
  "ret_ex = empty_sched\<lparr>im_pool := im_pool red_ex, im_desc := im_desc red_ex, wim := wim red_ex, rmaps := rmaps red_ex,
     hyperobjs := hyperobjs red_ex, wrmap := [0 \<mapsto> 65568], closures := [1 \<mapsto> ret_parent_ex, 2 \<mapsto> ret_child_ex]\<rparr>"

lemma ret_ex_facts:
  "returning 0 1 2 ret_parent_ex ret_child_ex (closures ret_ex)" "closures ret_ex = [1 \<mapsto> ret_parent_ex, 2 \<mapsto> ret_child_ex]"
  "rmaps ret_ex = [65536 \<mapsto> map_ex [1, 2], 65568 \<mapsto> map_ex [3]]" "hyperobjs ret_ex = [7 \<mapsto> cat_obj]" "wrmap ret_ex 0 = Some 65568"
  "left_sib ret_child_ex = None" "child_rmap ret_parent_ex = Some 65536" "right_rmap ret_child_ex = None"
  by (simp_all add: ret_ex_def returning_def ret_parent_ex_def ret_child_ex_def held_def Closure_init_def red_ex_def)

text \<open>
  Exceptions at a return (C13): with parent and child locked, the first loop of \<open>Closure_return\<close>
  ends, and leaves in the slot to the left of the child (the parent's \<open>child_exn\<close>, or \<open>right_exn\<close> of
  the left sibling) the first exception in serial order among the one waiting there, the child's own
  and the one of its right siblings.  Each of the other exceptions is deleted, exactly once, none is
  lost, and both locks are held again.
\<close>

theorem return_exn_first:
  assumes "returning w parent child p c (closures s)" and "l = left_exn (closures s) parent (left_sib c)"
  shows "\<exists>dropped. return_exn_loop 2 w parent child s = Inr ((), s\<lparr>deleted_exns := dropped @ deleted_exns s,
      closures := put_left_exn parent (left_sib c) (first_exn l (user_exn c) (right_exn c))
        ((closures s)(child \<mapsto> c\<lparr>user_exn := first_exn l (user_exn c) (right_exn c), right_exn := None\<rparr>))\<rparr>) \<and>
    mset dropped + mset_set (set_option (first_exn l (user_exn c) (right_exn c))) =
      mset_set (set_option l) + mset_set (set_option (user_exn c)) + mset_set (set_option (right_exn c))"
proof (intro exI[of _ "dropped_exns l (user_exn c) (right_exn c)"] conjI exn_accounts)
  have h: "closures s parent = Some p" "closures s child = Some c" "parent \<noteq> child" "held w c" "held w p"
    using assms(1) by (auto simp: returning_def)
  show "return_exn_loop 2 w parent child s = Inr ((), s\<lparr>deleted_exns := dropped_exns l (user_exn c) (right_exn c) @ deleted_exns s,
      closures := put_left_exn parent (left_sib c) (first_exn l (user_exn c) (right_exn c))
        ((closures s)(child \<mapsto> c\<lparr>user_exn := first_exn l (user_exn c) (right_exn c), right_exn := None\<rparr>))\<rparr>)"
  proof (cases "left_sib c")
    case None
    then show ?thesis
      using return_exn_loop_leftmost[OF h(1-3) None h(4,5) heldD(2)[OF h(4)] heldD(2)[OF h(5)] heldD(1)[OF h(4)] heldD(1)[OF h(5)] refl refl refl] assms(2) h(1-3)
      by (simp add: numeral_2_eq_2 left_exn_def put_left_exn_def del: return_exn_loop.simps)
  next
    case (Some x)
    then obtain y where y: "closures s x = Some y" "x \<noteq> parent" "x \<noteq> child" using assms(1) by (auto simp: returning_def)
    show ?thesis
      using return_exn_loop_sibling[OF h(1-3) Some y h(4,5) heldD(2)[OF h(4)] heldD(2)[OF h(5)] heldD(1)[OF h(4)] heldD(1)[OF h(5)] refl refl refl] assms(2) h(1-3) y Some
      by (simp add: numeral_2_eq_2 left_exn_def put_left_exn_def del: return_exn_loop.simps)
  qed
qed

theorem return_exn_first_witness:
  "\<exists>s'. return_exn_loop 2 0 1 2 ret_ex = Inr ((), s') \<and> deleted_exns s' = [6] \<and> closures s' 1 = Some (ret_parent_ex\<lparr>child_exn := Some 5\<rparr>)"
proof -
  have l: "None = left_exn (closures ret_ex) 1 (left_sib ret_child_ex)"
    by (simp add: ret_ex_facts left_exn_def) (simp add: ret_parent_ex_def Closure_init_def)
  have u: "user_exn ret_child_ex = Some 5" "right_exn ret_child_ex = Some 6" by (simp_all add: ret_child_ex_def)
  have f: "first_exn None (Some 5) (Some 6) = Some 5" by (simp add: first_exn_def)
  have d: "deleted_exns ret_ex = []" by (simp add: ret_ex_def empty_sched_def Let_def)
  obtain dr where dr: "return_exn_loop 2 0 1 2 ret_ex = Inr ((), ret_ex\<lparr>deleted_exns := dr,
      closures := put_left_exn 1 None (Some 5) ((closures ret_ex)(2 \<mapsto> ret_child_ex\<lparr>user_exn := Some 5, right_exn := None\<rparr>))\<rparr>)"
      "add_mset 5 (mset dr) = {#5, 6#}"
    using return_exn_first[OF ret_ex_facts(1) l] unfolding u f d ret_ex_facts(6) by auto
  have "dr = [6]" using dr(2) by (metis add_mset_add_single add_mset_remove_trivial mset_single_iff union_commute)
  then show ?thesis using dr(1) by (simp add: put_left_exn_def ret_ex_facts)
qed

text \<open>
  Reducers at a return (C12): with parent and child locked and well-formed maps, the second loop of
  \<open>Closure_return\<close> ends after at most two passes and deposits in the slot to the left of the child one
  map whose views are, reducer by reducer, those of the left, of the worker and of the right
  combined in this, the serial, order; the worker's own map is gone, the blocks of the maps merged
  away are back with the allocator, and frames, deques, workers, fibers and all other maps are as before.
\<close>

theorem return_rmap_serial:
  assumes "returning w parent child p c (closures s)" and "l = left_rmap (closures s) parent (left_sib c)"
    and "rmap_conf cap K s l" "rmap_conf cap K s (wrmap s w)" "rmap_conf cap K s (right_rmap c)"
    and "maps_distinct [l, wrmap s w, right_rmap c]"
    and "im_good n s (live + rmap_led l + rmap_led (wrmap s w) + rmap_led (right_rmap c))" and "w < n"
  shows "\<exists>q s'. return_rmap_loop 2 w parent child s = Inr ((), s') \<and> rmap_conf cap K s' q \<and> im_good n s' (live + rmap_led q) \<and>
    rviews s' q = combine (hyperobjs s) (combine (hyperobjs s) (rviews s l) (rviews s (wrmap s w))) (rviews s (right_rmap c)) \<and>
    closures s' = put_left_rmap parent (left_sib c) q ((closures s)(child \<mapsto> c\<lparr>right_rmap := None\<rparr>)) \<and>
    wrmap s' = (wrmap s)(w := None) \<and> same_rest s s' \<and> (\<forall>x. Some x \<notin> {l, wrmap s w, right_rmap c} \<longrightarrow> rmaps s' x = rmaps s x)"
  using return_rmap_loop_run[OF assms(1) assms(3-6) assms(2) assms(7,8)] by blast

theorem return_rmap_serial_witness:
  "\<exists>q s'. return_rmap_loop 2 0 1 2 ret_ex = Inr ((), s') \<and> rviews s' q = [1 \<mapsto> (7, [1, 2, 3])] \<and>
     closures s' 1 = Some (ret_parent_ex\<lparr>child_rmap := q\<rparr>)"
proof -
  have l: "Some 65536 = left_rmap (closures ret_ex) 1 (left_sib ret_child_ex)" by (simp add: ret_ex_facts left_rmap_def)
  have c: "rmap_conf 4 (\<lambda>_. 7) ret_ex (Some 65536)" "rmap_conf 4 (\<lambda>_. 7) ret_ex (Some 65568)" "rmap_conf 4 (\<lambda>_. 7) ret_ex None"
    by (auto simp: rmap_conf_def ret_ex_facts map_ex_ok map_ex_views split: if_splits) (simp_all add: map_ex_def)
  have "im_good 1 ret_ex (live) = im_good 1 red_ex live" for live
    by (rule im_good_cong) (simp_all add: ret_ex_def red_ex_def empty_sched_def Let_def)
  then have g: "im_good 1 ret_ex ({#} + rmap_led (Some 65536) + rmap_led (Some 65568) + rmap_led None)"
    using red_ex_good by (simp add: add_mset_commute)
  have "combine (hyperobjs ret_ex) (combine (hyperobjs ret_ex) (rviews ret_ex (Some 65536)) (rviews ret_ex (Some 65568))) (rviews ret_ex None) =
      [1 \<mapsto> (7, [1, 2, 3])]"
    by (simp add: ret_ex_facts map_ex_views combine_def cat_obj_def fun_eq_iff)
  then show ?thesis
    using return_rmap_serial[OF ret_ex_facts(1) l, of 4 "\<lambda>_. 7" 1 "{#}"] c g
    unfolding ret_ex_facts(5,6,8) by (auto simp: maps_distinct_def put_left_rmap_def ret_ex_facts(2))
qed

end
