(* ===== verification/Abi.thy ===== *)
theory Abi
  imports Return_Correct
begin

text \<open>
  The compiler ABI: what compiled Cilk code calls around spawns, syncs and returns
  (runtime/cilk2c_inlined.c, runtime/cilk2c.c) and the personality routine of the unwinder
  (runtime/personality.c).  \<open>w\<close> is the worker in thread-local storage.  A routine that may not come
  back says where it went: \<open>To_user\<close> is a return (or a jump) into the program, \<open>To_runtime\<close> a jump
  to the scheduling loop.  The switch of threads at the two ends of a Cilkified region,
  \<open>cilkify\<close> and \<open>uncilkify\<close>, is a parameter here; \<open>Startup\<close> models both.
\<close>

section \<open>Entering, detaching and leaving a frame\<close>

definition link_frame :: "worker_id \<Rightarrow> addr \<Rightarrow> (('v, 'a) sched_state_scheme, unit) act" where
  "link_frame w sf =
     bindA (get_w w) (\<lambda>l.
     thenA (upd_sf (Some sf) (\<lambda>f. f\<lparr>magic := frame_magic, sf_call_parent := current_stack_frame l, sf_worker := W w\<rparr>))
           (upd_w w (\<lambda>l. l\<lparr>current_stack_frame := Some sf\<rparr>)))"

definition enter_frame ::
  "(addr \<Rightarrow> (('v, 'a) sched_state_scheme, worker_id) act) \<Rightarrow> worker_id option \<Rightarrow> addr \<Rightarrow> (('v, 'a) sched_state_scheme, unit) act" where
  "enter_frame cilkify tls sf =
     thenA (upd_sf (Some sf) (\<lambda>f. f\<lparr>flags := 0\<rparr>))
    (bindA (case tls of None \<Rightarrow> cilkify sf | Some w \<Rightarrow> ret w) (\<lambda>w.
     link_frame w sf))"

definition enter_frame_fast :: "worker_id \<Rightarrow> addr \<Rightarrow> (('v, 'a) sched_state_scheme, unit) act" where
  "enter_frame_fast w sf =
     thenA (upd_sf (Some sf) (\<lambda>f. f\<lparr>flags := 0\<rparr>))
           (link_frame w sf)"

definition store_shadow :: "worker_id \<Rightarrow> int \<Rightarrow> addr option \<Rightarrow> (('v, 'a) sched_state_scheme, unit) act" where
  "store_shadow w i p =
     bindA (get_w w) (\<lambda>l.
     thenA (check (\<lambda>_. 0 \<le> i \<and> nat i < length (shadow_stack l)) Out_of_bounds)
           (upd_w w (\<lambda>l. l\<lparr>shadow_stack := (shadow_stack l)[nat i := p]\<rparr>)))"

definition detach :: "worker_id \<Rightarrow> addr \<Rightarrow> (('v, 'a) sched_state_scheme, unit) act" where
  "detach w sf =
     bindA (get_sf (Some sf)) (\<lambda>f.
     thenA (assertA (magic f = frame_magic) Cilk2c_inlined_c 198)
    (thenA (assertA (sf_worker f = W w) Cilk2c_inlined_c 199)
    (bindA (get_w w) (\<lambda>l.
     thenA (assertA (current_stack_frame l = Some sf) Cilk2c_inlined_c 200)
    (thenA (upd_sf (Some sf) (\<lambda>f. f\<lparr>flags := flags f OR CILK_FRAME_DETACHED\<rparr>))
    (thenA (assertA (tail l + 1 < ltq_limit l) Cilk2c_inlined_c 206)
    (thenA (store_shadow w (tail l) (sf_call_parent f))
           (upd_w w (\<lambda>l. l\<lparr>tail := tail l + 1\<rparr>)))))))))"

definition pop_frame :: "(addr \<Rightarrow> (('v, 'a) sched_state_scheme, unit) act) \<Rightarrow> worker_id \<Rightarrow> addr \<Rightarrow> (('v, 'a) sched_state_scheme, unit) act" where
  "pop_frame uncilkify w sf =
     bindA (get_sf (Some sf)) (\<lambda>f.
     thenA (assertA (magic f = frame_magic) Cilk2c_inlined_c 231)
    (thenA (assertA (sf_worker f = W w) Cilk2c_inlined_c 232)
    (thenA (upd_w w (\<lambda>l. l\<lparr>current_stack_frame := sf_call_parent f\<rparr>))
    (thenA (upd_sf (Some sf) (\<lambda>f. f\<lparr>sf_call_parent := None\<rparr>))
           (whenA (flags f AND CILK_FRAME_LAST \<noteq> 0) (uncilkify sf))))))"

text \<open>Undoing a detach, the victim's side of the THE protocol: the store of \<open>tail\<close> comes before the
  load of \<open>exc\<close>.  If a thief has moved \<open>exc\<close> past \<open>tail\<close>, the handler decides under the locks.\<close>

definition undo_detach :: "worker_id \<Rightarrow> addr \<Rightarrow> nat option \<Rightarrow> (('v, 'a) sched_state_scheme, handler_exit) act" where
  "undo_detach w sf exn =
     thenA (upd_w w (\<lambda>l. l\<lparr>tail := tail l - 1\<rparr>))
    (bindA (get_w w) (\<lambda>l.
     thenA (upd_sf (Some sf) (\<lambda>f. f\<lparr>flags := flags f AND NOT CILK_FRAME_DETACHED\<rparr>))
           (if tail l < exc l then Cilk_exception_handler w exn else ret To_user)))"

definition pause_frame :: "worker_id \<Rightarrow> addr \<Rightarrow> nat option \<Rightarrow> (('v, 'a) sched_state_scheme, handler_exit) act" where
  "pause_frame w sf exn =
     bindA (get_sf (Some sf)) (\<lambda>f.
     thenA (assertA (magic f = frame_magic) Cilk2c_c 371)
    (thenA (assertA (sf_worker f = W w) Cilk2c_c 372)
    (thenA (assertA (flags f AND CILK_FRAME_DETACHED \<noteq> 0) Cilk2c_c 374)
           (undo_detach w sf exn))))"

definition leave_frame :: "worker_id \<Rightarrow> addr \<Rightarrow> (('v, 'a) sched_state_scheme, handler_exit) act" where
  "leave_frame w sf =
     bindA (get_sf (Some sf)) (\<lambda>f.
     thenA (assertA (magic f = frame_magic) Cilk2c_c 399)
    (thenA (assertA (sf_worker f = W w) Cilk2c_c 400)
           (if flags f AND CILK_FRAME_DETACHED \<noteq> 0 then undo_detach w sf None
            else
              thenA (whenA (flags f AND CILK_FRAME_STOLEN \<noteq> 0)
                       (thenA (Cilk_set_return w)
                       (bindA (get_sf (Some sf)) (\<lambda>f. assertA (magic f = frame_magic) Cilk2c_c 434))))
                    (ret To_user))))"

definition cilkrts_sync :: "worker_id \<Rightarrow> addr \<Rightarrow> (('v, 'a) sched_state_scheme, handler_exit) act" where
  "cilkrts_sync w sf =
     bindA (get_sf (Some sf)) (\<lambda>f.
     thenA (assertA (sf_worker f = W w) Cilk2c_c 353)
    (thenA (assertA (magic f = frame_magic) Cilk2c_c 354)
    (bindA (get_w w) (\<lambda>l.
     thenA (assertA (current_stack_frame l = Some sf) Cilk2c_c 355)
    (bindA (Cilk_sync w sf) (\<lambda>r.
     ret (if r = SYNC_READY then To_user else To_runtime)))))))"

section \<open>Exceptions\<close>

text \<open>Taking the exception out of the closure at the bottom of the deque; both callers raise what they
  got (\<open>_Unwind_RaiseException\<close>, \<open>_Unwind_Resume\<close>), which does not return.\<close>

definition take_exception :: "worker_id \<Rightarrow> addr \<Rightarrow> (('v, 'a) sched_state_scheme, nat option) act" where
  "take_exception w sf =
     thenA (deque_lock_self w)
    (bindA (deque_peek_bottom w w) (\<lambda>tp.
     bindA (derefA tp) (\<lambda>t.
     thenA (Closure_lock w t)
    (bindA (get_cl t) (\<lambda>c.
     thenA (upd_cl t (\<lambda>k. k\<lparr>user_exn := None\<rparr>))
    (thenA (upd_sf (Some sf) (\<lambda>f. f\<lparr>flags := flags f AND NOT CILK_FRAME_EXCEPTION_PENDING\<rparr>))
    (thenA (Closure_unlock w t)
    (thenA (deque_unlock_self w)
           (ret (user_exn c))))))))))"

definition frame_worker_of :: "addr \<Rightarrow> (('v, 'a) sched_state_scheme, worker_id) act" where
  "frame_worker_of sf =
     bindA (get_sf (Some sf)) (\<lambda>f.
     case sf_worker f of W w \<Rightarrow> ret w | _ \<Rightarrow> fail Null_pointer)"

definition check_exception_raise :: "addr \<Rightarrow> (('v, 'a) sched_state_scheme, nat option) act" where
  "check_exception_raise sf = bindA (frame_worker_of sf) (\<lambda>w. take_exception w sf)"

definition check_exception_resume :: "addr \<Rightarrow> (('v, 'a) sched_state_scheme, nat option) act" where
  "check_exception_resume sf = bindA (frame_worker_of sf) (\<lambda>w. take_exception w sf)"

text \<open>True when control jumps to the continuation saved in the frame.\<close>

definition cleanup_fiber :: "addr \<Rightarrow> int \<Rightarrow> (('v, 'a) sched_state_scheme, bool) act" where
  "cleanup_fiber sf sel =
     (if sel = 0 then ret False
      else
        bindA (frame_worker_of sf) (\<lambda>w.
        thenA (deque_lock_self w)
       (bindA (deque_peek_bottom w w) (\<lambda>tp.
        bindA (derefA tp) (\<lambda>t.
        bindA (get_cl t) (\<lambda>c.
          if parent_rsp c = None then thenA (deque_unlock_self w) (ret False)
          else
            thenA (upd_sf (Some sf) (\<lambda>f. f\<lparr>SP := parent_rsp c\<rparr>))
           (thenA (upd_cl t (\<lambda>k. k\<lparr>parent_rsp := None\<rparr>))
           (thenA (whenA (saved_throwing_fiber c \<noteq> None)
                     (thenA (cilk_fiber_deallocate_to_pool w (saved_throwing_fiber c))
                            (upd_cl t (\<lambda>k. k\<lparr>saved_throwing_fiber := None\<rparr>))))
           (thenA (deque_unlock_self w)
                  (ret True))))))))))"

section \<open>The personality routine\<close>

datatype unwind_reason = URC_CONTINUE_UNWIND | URC_INSTALL_CONTEXT | URC_FATAL_PHASE1_ERROR | URC_FATAL_PHASE2_ERROR
datatype unwind_phase = SEARCH_PHASE | CLEANUP_PHASE | NO_PHASE

text \<open>How the routine ends: with a reason for the unwinder, by raising another exception, or in the
  scheduling loop, from where a later provably good steal resumes it at \<open>personality_cleanup\<close>, perhaps
  on another worker.\<close>

datatype personality_exit = Reason unwind_reason | Raised nat | Suspended

definition bottom_closure :: "worker_id \<Rightarrow> (('v, 'a) sched_state_scheme, addr) act" where
  "bottom_closure w =
     thenA (deque_lock_self w)
    (bindA (deque_peek_bottom w w) (\<lambda>tp.
     thenA (deque_unlock_self w)
           (derefA tp)))"

text \<open>The sync of a frame with children, with the exception recorded in its closure.  \<open>ctx\<close> is the stack
  pointer and the frame pointer \<open>__builtin_setjmp\<close> saves.\<close>

definition personality_sync :: "worker_id \<Rightarrow> addr \<Rightarrow> addr \<times> addr \<Rightarrow> nat \<Rightarrow> (('v, 'a) sched_state_scheme, handler_exit) act" where
  "personality_sync w sf ctx ue =
     thenA (upd_sf (Some sf) (\<lambda>f. f\<lparr>SP := Some (fst ctx), FP := Some (snd ctx)\<rparr>))
    (bindA (get_sf (Some sf)) (\<lambda>f.
     thenA (deque_lock_self w)
    (bindA (deque_peek_bottom w w) (\<lambda>tp.
     bindA (derefA tp) (\<lambda>t.
     thenA (upd_cl t (\<lambda>k. k\<lparr>parent_rsp := orig_rsp k, orig_rsp := SP f, user_exn := Some ue\<rparr>))
    (thenA (deque_unlock_self w)
    (thenA (upd_sf (Some sf) (\<lambda>f. f\<lparr>flags := flags f OR CILK_FRAME_EXCEPTING\<rparr>))
           (cilkrts_sync w sf))))))))"

definition personality_cleanup ::
  "(addr \<Rightarrow> (('v, 'a) sched_state_scheme, unit) act) \<Rightarrow> (('v, 'a) sched_state_scheme, unwind_reason) act \<Rightarrow>
   worker_id \<Rightarrow> addr \<Rightarrow> addr \<Rightarrow> nat \<Rightarrow> (('v, 'a) sched_state_scheme, personality_exit) act" where
  "personality_cleanup uncilkify std w sf cfa ue =
     bindA (bottom_closure w) (\<lambda>t.
     bindA (get_cl t) (\<lambda>c.
     let in_reraised_cfa = (reraise_cfa c = Some cfa);
         skip_leaveframe = (reraise_cfa c \<noteq> None \<and> \<not> in_reraised_cfa) in
     thenA (whenA in_reraised_cfa (upd_cl t (\<lambda>k. k\<lparr>reraise_cfa := None\<rparr>)))
    (bindA (if user_exn c \<noteq> None \<and> user_exn c \<noteq> Some ue
            then thenA (upd_cl t (\<lambda>k. k\<lparr>reraise_cfa := Some cfa\<rparr>)) (check_exception_raise sf)
            else ret None) (\<lambda>raised.
     case raised of Some e \<Rightarrow> ret (Raised e)
     | None \<Rightarrow>
         bindA (get_sf (Some sf)) (\<lambda>f.
         bindA std (\<lambda>res.
         if res = URC_CONTINUE_UNWIND \<and> flags f AND CILK_FRAME_DETACHED = 0 \<and> \<not> skip_leaveframe
         then thenA (pop_frame uncilkify w sf)
             (bindA (leave_frame w sf) (\<lambda>r. ret (if r = To_runtime then Suspended else Reason res)))
         else ret (Reason res)))))))"

definition cilk_personality ::
  "(addr \<Rightarrow> (('v, 'a) sched_state_scheme, unit) act) \<Rightarrow> (('v, 'a) sched_state_scheme, unwind_reason) act \<Rightarrow>
   worker_id \<Rightarrow> unwind_phase \<Rightarrow> addr \<times> addr \<Rightarrow> addr \<Rightarrow> nat \<Rightarrow> (('v, 'a) sched_state_scheme, personality_exit) act" where
  "cilk_personality uncilkify std w phase ctx cfa ue =
     bindA (get_w w) (\<lambda>l.
     bindA (derefA (current_stack_frame l)) (\<lambda>sf.
     case phase of
       SEARCH_PHASE \<Rightarrow> bindA std (\<lambda>r. ret (Reason r))
     | NO_PHASE \<Rightarrow> ret (Reason URC_FATAL_PHASE1_ERROR)
     | CLEANUP_PHASE \<Rightarrow>
         bindA (get_sf (Some sf)) (\<lambda>f.
         bindA (if cilkrts_unsynced f then personality_sync w sf ctx ue else ret To_user) (\<lambda>r.
         if r = To_runtime then ret Suspended
         else personality_cleanup uncilkify std w sf cfa ue))))"

end
