(* ===== verification/Abi_Correct.thy ===== *)
theory Abi_Correct
  imports Abi
begin

text \<open>
  Correctness of the compiler ABI.  As long as no parent is stolen, spawning is a function call: a
  tree of spawns and calls of any shape runs without touching a lock, a deque or a closure and leaves
  the worker as it was, up to the depth the shadow stack allows.  When a thief interferes, the return
  of a spawned frame is decided under the locks, and the frame goes on exactly when its parent is still
  there.
\<close>

section \<open>The fast path\<close>

lemma enter_run:
  assumes "frames s f = Some fr"
  shows "link_frame w f s = Inr ((), s\<lparr>frames := (frames s)(f \<mapsto> fr\<lparr>magic := frame_magic,
             sf_call_parent := current_stack_frame (workers s w), sf_worker := W w\<rparr>),
           workers := (workers s)(w := (workers s w)\<lparr>current_stack_frame := Some f\<rparr>)\<rparr>)"
  using assms by (simp add: link_frame_def)

definition entered :: "worker_id \<Rightarrow> addr option \<Rightarrow> 32 word \<Rightarrow> stack_frame \<Rightarrow> bool" where
  "entered w p fl fr \<longleftrightarrow> flags fr = fl \<and> magic fr = frame_magic \<and> sf_call_parent fr = p \<and> sf_worker fr = W w"

lemma enter_frame_run:
  assumes "frames s f = Some fr"
  obtains fr' where "entered w (current_stack_frame (workers s w)) 0 fr'"
    "enter_frame_fast w f s = Inr ((), s\<lparr>frames := (frames s)(f \<mapsto> fr'),
       workers := (workers s)(w := (workers s w)\<lparr>current_stack_frame := Some f\<rparr>)\<rparr>)"
    "enter_frame ck (Some w) f s = enter_frame_fast w f s"
proof
  let ?fr = "fr\<lparr>flags := 0, magic := frame_magic, sf_call_parent := current_stack_frame (workers s w), sf_worker := W w\<rparr>"
  show "entered w (current_stack_frame (workers s w)) 0 ?fr" by (simp add: entered_def)
  show "enter_frame_fast w f s = Inr ((), s\<lparr>frames := (frames s)(f \<mapsto> ?fr),
       workers := (workers s)(w := (workers s w)\<lparr>current_stack_frame := Some f\<rparr>)\<rparr>)"
    using assms by (simp add: enter_frame_fast_def enter_run)
  show "enter_frame ck (Some w) f s = enter_frame_fast w f s"
    using assms by (simp add: enter_frame_fast_def enter_frame_def)
qed

lemma detach_run:
  assumes "frames s f = Some fr" "entered w p 0 fr" "workers s w = l" "current_stack_frame l = Some f"
    "0 \<le> tail l" "ltq_limit l \<le> int (length (shadow_stack l))"
  shows "detach w f s = (if tail l + 1 < ltq_limit l
     then Inr ((), s\<lparr>frames := (frames s)(f \<mapsto> fr\<lparr>flags := CILK_FRAME_DETACHED\<rparr>),
       workers := (workers s)(w := l\<lparr>tail := tail l + 1, shadow_stack := (shadow_stack l)[nat (tail l) := p]\<rparr>)\<rparr>)
     else Inl (Assertion Cilk2c_inlined_c 206))"
proof (cases "tail l + 1 < ltq_limit l")
  case True
  then have "nat (tail l) < length (shadow_stack l)" using assms by linarith
  then show ?thesis using assms True
    by (cases l) (simp add: detach_def entered_def store_shadow_def act_flat_run cong: run_cong)
next
  case False
  then show ?thesis using assms by (simp add: detach_def entered_def thenA_def bindA_def)
qed

text \<open>Leaving a frame nobody stole: of a called frame nothing is to be done, and a detached frame takes
  its parent back.\<close>

lemma leave_called_run:
  assumes "frames s f = Some fr" "entered w p 0 fr"
  shows "thenA (pop_frame u w f) (leave_frame w f) s = Inr (To_user, s\<lparr>
     frames := (frames s)(f \<mapsto> fr\<lparr>sf_call_parent := None\<rparr>),
     workers := (workers s)(w := (workers s w)\<lparr>current_stack_frame := p\<rparr>)\<rparr>)"
  using assms by (simp add: pop_frame_def leave_frame_def entered_def act_flat_run cong: run_cong)

lemma leave_detached_run:
  assumes "frames s f = Some fr" "entered w p CILK_FRAME_DETACHED fr" "exc (workers s w) < tail (workers s w)"
  shows "thenA (pop_frame u w f) (leave_frame w f) s = Inr (To_user, s\<lparr>
     workers := (workers s)(w := (workers s w)\<lparr>tail := tail (workers s w) - 1, current_stack_frame := p\<rparr>),
     frames := (frames s)(f \<mapsto> fr\<lparr>sf_call_parent := None, flags := 0\<rparr>)\<rparr>)"
proof -
  have "CILK_FRAME_DETACHED AND CILK_FRAME_LAST = 0" "CILK_FRAME_DETACHED AND CILK_FRAME_DETACHED \<noteq> 0"
    by (simp_all add: flag_defs)
  then show ?thesis using assms
    by (cases "workers s w") (simp add: pop_frame_def leave_frame_def undo_detach_def entered_def act_flat_run cong: run_cong)
qed

section \<open>Trees of spawns and calls\<close>

text \<open>The control flow of a Cilk program without syncs that wait: a task is a spawned or a called
  frame, at an address, and what it spawns and calls in turn.  Frames that are on the stack at the same
  time are at different addresses.\<close>

datatype task = Spawn addr "task list" | Call addr "task list"

fun task_frames :: "task \<Rightarrow> addr set" and tasks_frames :: "task list \<Rightarrow> addr set" where
  "task_frames (Spawn f ts) = insert f (tasks_frames ts)"
| "task_frames (Call f ts) = insert f (tasks_frames ts)"
| "tasks_frames [] = {}"
| "tasks_frames (t # ts) = task_frames t \<union> tasks_frames ts"

fun stack_ok :: "task \<Rightarrow> bool" and stacks_ok :: "task list \<Rightarrow> bool" where
  "stack_ok (Spawn f ts) \<longleftrightarrow> f \<notin> tasks_frames ts \<and> stacks_ok ts"
| "stack_ok (Call f ts) \<longleftrightarrow> f \<notin> tasks_frames ts \<and> stacks_ok ts"
| "stacks_ok [] \<longleftrightarrow> True"
| "stacks_ok (t # ts) \<longleftrightarrow> stack_ok t \<and> stacks_ok ts"

text \<open>How many spawned frames are active at once.\<close>

fun spawn_depth :: "task \<Rightarrow> int" and spawns_depth :: "task list \<Rightarrow> int" where
  "spawn_depth (Spawn f ts) = 1 + spawns_depth ts"
| "spawn_depth (Call f ts) = spawns_depth ts"
| "spawns_depth [] = 0"
| "spawns_depth (t # ts) = max (spawn_depth t) (spawns_depth ts)"

text \<open>What the compiled code of a task calls, on worker \<open>w\<close>.\<close>

fun run_task :: "worker_id \<Rightarrow> task \<Rightarrow> (('v, 'a) sched_state_scheme, handler_exit) act" and
    run_tasks :: "worker_id \<Rightarrow> task list \<Rightarrow> (('v, 'a) sched_state_scheme, handler_exit) act" where
  "run_task w (Spawn f ts) =
     thenA (enter_frame_fast w f)
    (thenA (detach w f)
    (bindA (run_tasks w ts) (\<lambda>r.
     if r = To_runtime then ret r else thenA (pop_frame (\<lambda>_. fail Blocked) w f) (leave_frame w f))))"
| "run_task w (Call f ts) =
     thenA (enter_frame (\<lambda>_. fail Blocked) (Some w) f)
    (bindA (run_tasks w ts) (\<lambda>r.
     if r = To_runtime then ret r else thenA (pop_frame (\<lambda>_. fail Blocked) w f) (leave_frame w f)))"
| "run_tasks w [] = ret To_user"
| "run_tasks w (t # ts) =
     bindA (run_task w t) (\<lambda>r. if r = To_runtime then ret r else run_tasks w ts)"

text \<open>The frames are allocated and the shadow stack is an array of at least \<open>ltq_limit\<close> slots whose parents
  nobody claims.\<close>

definition unstolen :: "worker_id \<Rightarrow> addr set \<Rightarrow> ('v, 'a) sched_state_scheme \<Rightarrow> bool" where
  "unstolen w A s \<longleftrightarrow> A \<subseteq> dom (frames s) \<and> 0 \<le> tail (workers s w) \<and> exc (workers s w) \<le> tail (workers s w) \<and>
     ltq_limit (workers s w) \<le> int (length (shadow_stack (workers s w)))"

definition depth_fits :: "worker_id \<Rightarrow> int \<Rightarrow> ('v, 'a) sched_state_scheme \<Rightarrow> bool" where
  "depth_fits w d s \<longleftrightarrow> d = 0 \<or> tail (workers s w) + d < ltq_limit (workers s w)"

text \<open>The state after: other frames, and the used part of the shadow stack, are unchanged.\<close>

definition task_delta ::
  "worker_id \<Rightarrow> addr set \<Rightarrow> (addr \<Rightarrow> stack_frame option) \<Rightarrow> addr option list \<Rightarrow> ('v, 'a) sched_state_scheme \<Rightarrow> ('v, 'a) sched_state_scheme \<Rightarrow> bool" where
  "task_delta w A F S s s' \<longleftrightarrow> s' = s\<lparr>frames := F, workers := (workers s)(w := (workers s w)\<lparr>shadow_stack := S\<rparr>)\<rparr> \<and>
     dom F = dom (frames s) \<and> (\<forall>a. a \<notin> A \<longrightarrow> F a = frames s a) \<and> length S = length (shadow_stack (workers s w)) \<and>
     take (nat (tail (workers s w))) S = take (nat (tail (workers s w))) (shadow_stack (workers s w))"

definition after_task :: "worker_id \<Rightarrow> addr set \<Rightarrow> ('v, 'a) sched_state_scheme \<Rightarrow> ('v, 'a) sched_state_scheme \<Rightarrow> bool" where
  "after_task w A s s' \<longleftrightarrow> (\<exists>F S. task_delta w A F S s s')"

lemma spawn_depth_nonneg: "0 \<le> spawn_depth t" "0 \<le> spawns_depth ts"
  by (induction t and ts rule: spawn_depth_spawns_depth.induct) auto

lemma after_taskI: "task_delta w A F S s s' \<Longrightarrow> after_task w A s s'"
  by (auto simp: after_task_def)

lemma after_taskE:
  assumes "after_task w A s s'"
  obtains F S where "task_delta w A F S s s'"
  using assms by (auto simp: after_task_def)

lemma after_task_refl: "after_task w A s s"
  by (rule after_taskI[where F = "frames s" and S = "shadow_stack (workers s w)"]) (simp add: task_delta_def)

lemma after_task_trans:
  assumes "after_task w A s s'" "after_task w B s' s''"
  shows "after_task w (A \<union> B) s s''"
proof -
  obtain F S F2 S2 where "task_delta w A F S s s'" "task_delta w B F2 S2 s' s''"
    using assms by (meson after_taskE)
  then show ?thesis by (intro after_taskI[where F = F2 and S = S2]) (simp add: task_delta_def)
qed

lemma after_task_keeps:
  assumes "after_task w A s s'"
  shows "unstolen w B s' = unstolen w B s" "depth_fits w d s' = depth_fits w d s" "a \<notin> A \<Longrightarrow> frames s' a = frames s a"
    "current_stack_frame (workers s' w) = current_stack_frame (workers s w)" "tail (workers s' w) = tail (workers s w)"
    "exc (workers s' w) = exc (workers s w)"
  by (rule after_taskE[OF assms]; simp add: task_delta_def unstolen_def depth_fits_def)+

lemma after_task_mono:
  assumes "after_task w A s s'" "A \<subseteq> B"
  shows "after_task w B s s'"
proof -
  obtain F S where "task_delta w A F S s s'" using assms(1) by (rule after_taskE)
  then show ?thesis using assms(2) by (intro after_taskI) (auto simp: task_delta_def)
qed

definition task_outcome :: "worker_id \<Rightarrow> addr set \<Rightarrow> int \<Rightarrow> ('v, 'a) sched_state_scheme \<Rightarrow>
    fault + handler_exit \<times> ('v, 'a) sched_state_scheme \<Rightarrow> bool" where
  "task_outcome w A d s r \<longleftrightarrow> (if depth_fits w d s then \<exists>s'. r = Inr (To_user, s') \<and> after_task w A s s'
     else r = Inl (Assertion Cilk2c_inlined_c 206))"

lemma run_call:
  fixes s :: "('v, 'a) sched_state_scheme"
  assumes ok: "unstolen w (insert f A) s" "f \<notin> A"
    and ts: "\<And>s' :: ('v, 'a) sched_state_scheme. unstolen w A s' \<Longrightarrow> task_outcome w A (spawns_depth ts) s' (run_tasks w ts s')"
  shows "task_outcome w (insert f A) (spawns_depth ts) s (run_task w (Call f ts) s)"
proof -
  let ?l = "workers s w"
  obtain fr where fr: "frames s f = Some fr" using ok(1) by (auto simp: unstolen_def)
  obtain fr' where e: "entered w (current_stack_frame ?l) 0 fr'"
      "enter_frame (\<lambda>_. fail Blocked) (Some w) f s = Inr ((), s\<lparr>frames := (frames s)(f \<mapsto> fr'), workers := (workers s)(w := ?l\<lparr>current_stack_frame := Some f\<rparr>)\<rparr>)"
    using enter_frame_run[OF fr, of w "\<lambda>_. fail Blocked"] by metis
  let ?s1 = "s\<lparr>frames := (frames s)(f \<mapsto> fr'), workers := (workers s)(w := ?l\<lparr>current_stack_frame := Some f\<rparr>)\<rparr>"
  have u: "unstolen w A ?s1" "depth_fits w d ?s1 = depth_fits w d s" for d using ok(1) by (auto simp: unstolen_def depth_fits_def)
  note o = ts[OF u(1)]
  show ?thesis
  proof (cases "depth_fits w (spawns_depth ts) s")
    case False
    then show ?thesis using o u(2) e by (simp add: task_outcome_def run_thenA_Inr run_bindA_Inl)
  next
    case True
    then obtain s2 where s2: "run_tasks w ts ?s1 = Inr (To_user, s2)" "after_task w A ?s1 s2"
      using o u(2) by (auto simp: task_outcome_def)
    have f2: "frames s2 f = Some fr'" using after_task_keeps(3)[OF s2(2) ok(2)] by simp
    let ?s3 = "s2\<lparr>frames := (frames s2)(f \<mapsto> fr'\<lparr>sf_call_parent := None\<rparr>), workers := (workers s2)(w := (workers s2 w)\<lparr>current_stack_frame := current_stack_frame ?l\<rparr>)\<rparr>"
    have run: "run_task w (Call f ts) s = Inr (To_user, ?s3)"
      using leave_called_run[OF f2 e(1)] s2(1) e(2) by (simp add: run_thenA_Inr run_bindA_Inr)
    obtain F S where d: "task_delta w A F S ?s1 s2" using s2(2) by (rule after_taskE)
    have "after_task w (insert f A) s ?s3"
      by (rule after_taskI[where F = "F(f \<mapsto> fr'\<lparr>sf_call_parent := None\<rparr>)" and S = S])
        (use d fr in \<open>auto simp: task_delta_def\<close>)
    then show ?thesis using True run by (auto simp: task_outcome_def)
  qed
qed

lemma frames_workers: "s\<lparr>workers := ws, frames := F\<rparr> = s\<lparr>frames := F, workers := ws\<rparr>" for s :: "('v, 'a) sched_state_scheme"
  by (cases s) simp

lemma run_spawn:
  fixes s :: "('v, 'a) sched_state_scheme"
  assumes ok: "unstolen w (insert f A) s" "f \<notin> A" "0 \<le> spawns_depth ts"
    and ts: "\<And>s' :: ('v, 'a) sched_state_scheme. unstolen w A s' \<Longrightarrow> task_outcome w A (spawns_depth ts) s' (run_tasks w ts s')"
  shows "task_outcome w (insert f A) (1 + spawns_depth ts) s (run_task w (Spawn f ts) s)"
proof -
  let ?l = "workers s w" and ?d = "spawns_depth ts"
  obtain fr where fr: "frames s f = Some fr" using ok(1) by (auto simp: unstolen_def)
  obtain fr' where e: "entered w (current_stack_frame ?l) 0 fr'"
      "enter_frame_fast w f s = Inr ((), s\<lparr>frames := (frames s)(f \<mapsto> fr'), workers := (workers s)(w := ?l\<lparr>current_stack_frame := Some f\<rparr>)\<rparr>)"
    by (rule enter_frame_run[OF fr])
  let ?s0 = "s\<lparr>frames := (frames s)(f \<mapsto> fr'), workers := (workers s)(w := ?l\<lparr>current_stack_frame := Some f\<rparr>)\<rparr>"
  have lim: "0 \<le> tail ?l" "ltq_limit ?l \<le> int (length (shadow_stack ?l))" "exc ?l \<le> tail ?l" using ok(1) by (simp_all add: unstolen_def)
  note dr = detach_run[of "?s0" f fr' w "current_stack_frame ?l" "?l\<lparr>current_stack_frame := Some f\<rparr>"]
  show ?thesis
  proof (cases "tail ?l + 1 < ltq_limit ?l")
    case False
    then have "detach w f ?s0 = Inl (Assertion Cilk2c_inlined_c 206)" using dr e(1) lim by simp
    moreover have "\<not> depth_fits w (1 + ?d) s" using False ok(3) by (simp add: depth_fits_def)
    ultimately show ?thesis using e(2) by (simp add: task_outcome_def run_thenA_Inr run_thenA_Inl)
  next
    case True
    let ?s1 = "s\<lparr>frames := (frames s)(f \<mapsto> fr'\<lparr>flags := CILK_FRAME_DETACHED\<rparr>), workers := (workers s)(w := ?l\<lparr>tail := tail ?l + 1,
      shadow_stack := (shadow_stack ?l)[nat (tail ?l) := current_stack_frame ?l], current_stack_frame := Some f\<rparr>)\<rparr>"
    have d1: "detach w f ?s0 = Inr ((), ?s1)" using dr e(1) lim True by (cases ?l) simp
    have u: "unstolen w A ?s1" "depth_fits w ?d ?s1 = depth_fits w (1 + ?d) s"
      using ok lim True by (auto simp: unstolen_def depth_fits_def)
    note o = ts[OF u(1)]
    show ?thesis
    proof (cases "depth_fits w (1 + ?d) s")
      case False
      then show ?thesis using o u(2) e d1 by (simp add: task_outcome_def run_thenA_Inr run_bindA_Inl)
    next
      case fits: True
      then obtain s2 where s2: "run_tasks w ts ?s1 = Inr (To_user, s2)" "after_task w A ?s1 s2"
        using o u(2) by (auto simp: task_outcome_def)
      have f2: "frames s2 f = Some (fr'\<lparr>flags := CILK_FRAME_DETACHED\<rparr>)" "exc (workers s2 w) < tail (workers s2 w)"
        using after_task_keeps(3,5,6)[OF s2(2)] ok(2) lim by simp_all
      have e2: "entered w (current_stack_frame ?l) CILK_FRAME_DETACHED (fr'\<lparr>flags := CILK_FRAME_DETACHED\<rparr>)"
        using e(1) by (simp add: entered_def)
      let ?fr3 = "fr'\<lparr>flags := 0, sf_call_parent := None\<rparr>"
      let ?s3 = "s2\<lparr>workers := (workers s2)(w := (workers s2 w)\<lparr>tail := tail (workers s2 w) - 1, current_stack_frame := current_stack_frame ?l\<rparr>),
        frames := (frames s2)(f \<mapsto> fr'\<lparr>sf_call_parent := None, flags := 0\<rparr>)\<rparr>"
      have run: "run_task w (Spawn f ts) s = Inr (To_user, ?s3)"
        using leave_detached_run[OF f2(1) e2 f2(2)] s2(1) e(2) d1 by (simp add: run_thenA_Inr run_bindA_Inr)
      obtain F S where d: "task_delta w A F S ?s1 s2" using s2(2) by (rule after_taskE)
      have n: "nat (tail ?l + 1) = Suc (nat (tail ?l))" using lim(1) by simp
      have tk: "take (nat (tail ?l)) S = take (nat (tail ?l)) (shadow_stack ?l)"
      proof -
        have "take (nat (tail ?l)) (take (Suc (nat (tail ?l))) S) = take (nat (tail ?l)) (take (Suc (nat (tail ?l))) ((shadow_stack ?l)[nat (tail ?l) := current_stack_frame ?l]))"
          using d n by (simp add: task_delta_def)
        then show ?thesis by simp
      qed
      have "after_task w (insert f A) s ?s3"
        by (rule after_taskI[where F = "F(f \<mapsto> fr'\<lparr>sf_call_parent := None, flags := 0\<rparr>)" and S = S], cases ?l)
          (use d fr tk in \<open>auto simp: task_delta_def frames_workers\<close>)
      then show ?thesis using fits run by (auto simp: task_outcome_def)
    qed
  qed
qed

lemma run_task_outcome:
  fixes s :: "('v, 'a) sched_state_scheme"
  shows "unstolen w (task_frames t) s \<Longrightarrow> stack_ok t \<Longrightarrow> task_outcome w (task_frames t) (spawn_depth t) s (run_task w t s)"
    and "unstolen w (tasks_frames ts) s \<Longrightarrow> stacks_ok ts \<Longrightarrow> task_outcome w (tasks_frames ts) (spawns_depth ts) s (run_tasks w ts s)"
proof (induction t and ts arbitrary: s and s rule: spawn_depth_spawns_depth.induct)
  case (1 f ts)
  then show ?case using run_spawn[of w f "tasks_frames ts" s ts] spawn_depth_nonneg(2)[of ts] by simp
next
  case (2 f ts)
  then show ?case using run_call[of w f "tasks_frames ts" s ts] by simp
next
  case 3
  show ?case by (auto simp: task_outcome_def depth_fits_def intro: after_task_refl)
next
  case (4 t ts)
  have u: "unstolen w (task_frames t) s" "unstolen w (tasks_frames ts) s" and k: "stack_ok t" "stacks_ok ts"
    using 4(3,4) by (auto simp: unstolen_def)
  note d = spawn_depth_nonneg(1)[of t] spawn_depth_nonneg(2)[of ts]
  have m: "depth_fits w (spawns_depth (t # ts)) s \<longleftrightarrow> depth_fits w (spawn_depth t) s \<and> depth_fits w (spawns_depth ts) s"
    using d by (auto simp: depth_fits_def max_def)
  show ?case
  proof (cases "depth_fits w (spawn_depth t) s")
    case False
    then show ?thesis using 4(1)[OF u(1) k(1)] m by (simp add: task_outcome_def run_bindA_Inl)
  next
    case True
    then obtain s1 where s1: "run_task w t s = Inr (To_user, s1)" "after_task w (task_frames t) s s1"
      using 4(1)[OF u(1) k(1)] by (auto simp: task_outcome_def)
    have u1: "unstolen w (tasks_frames ts) s1" using u(2) after_task_keeps(1)[OF s1(2)] by simp
    have "depth_fits w (spawns_depth ts) s1 = depth_fits w (spawns_depth ts) s" by (rule after_task_keeps(2)[OF s1(2)])
    then show ?thesis using 4(2)[OF u1 k(2)] True m s1 after_task_trans[OF s1(2)]
      by (auto simp: task_outcome_def run_bindA_Inr split: if_splits)
  qed
qed

text \<open>(C25) Spawning without interference is a function call, bounded by the shadow stack: a tree of
  spawns and calls returns to the user's code, with the worker's pointers, the deques, the closures and
  the locks as before, if and only if its spawns nest less deeply than the slots left in the shadow
  stack minus one; else the overflow assertion of \<open>__cilkrts_detach\<close> fails.\<close>

theorem spawn_tree_runs:
  assumes "unstolen w (task_frames t) s" "stack_ok t"
  shows "if depth_fits w (spawn_depth t) s
     then \<exists>F S. run_task w t s = Inr (To_user, s\<lparr>frames := F, workers := (workers s)(w := (workers s w)\<lparr>shadow_stack := S\<rparr>)\<rparr>) \<and>
       dom F = dom (frames s) \<and> (\<forall>a. a \<notin> task_frames t \<longrightarrow> F a = frames s a) \<and> length S = length (shadow_stack (workers s w)) \<and>
       take (nat (tail (workers s w))) S = take (nat (tail (workers s w))) (shadow_stack (workers s w))
     else run_task w t s = Inl (Assertion Cilk2c_inlined_c 206)"
proof (cases "depth_fits w (spawn_depth t) s")
  case True
  then obtain s' F S where "run_task w t s = Inr (To_user, s')" "task_delta w (task_frames t) F S s s'"
    using run_task_outcome(1)[OF assms] by (auto simp: task_outcome_def after_task_def)
  then show ?thesis using True by (auto simp: task_delta_def intro!: exI[of _ F] exI[of _ S])
next
  case False
  then show ?thesis using run_task_outcome(1)[OF assms] by (simp add: task_outcome_def)
qed

text \<open>A worker with a shadow stack of four slots that runs a frame at address 1.\<close>

definition spawn_ex :: "nat sched_state" where
  "spawn_ex = empty_sched\<lparr>frames := (\<lambda>a. if a < 10 then Some \<lparr>flags = 0, magic = frame_magic, sf_call_parent = None, sf_worker = W 0, SP = None, FP = None\<rparr> else None),
     workers := (\<lambda>_. idle_worker\<lparr>ltq_limit := 4, shadow_stack := replicate 4 None, current_stack_frame := Some 1\<rparr>)\<rparr>"

definition spawn_ex_task :: task where
  "spawn_ex_task = Call 2 [Spawn 3 [], Spawn 3 [Call 4 [Spawn 5 []]]]"

lemma spawn_tree_runs_witness:
  "\<exists>F S. run_task 0 spawn_ex_task spawn_ex = Inr (To_user, spawn_ex\<lparr>frames := F, workers := (workers spawn_ex)(0 := (workers spawn_ex 0)\<lparr>shadow_stack := S\<rparr>)\<rparr>)"
proof -
  have "unstolen 0 (task_frames spawn_ex_task) spawn_ex" "stack_ok spawn_ex_task" "depth_fits 0 (spawn_depth spawn_ex_task) spawn_ex"
    by (auto simp: spawn_ex_def spawn_ex_task_def unstolen_def depth_fits_def idle_worker_def dom_def)
  then show ?thesis using spawn_tree_runs[of 0 spawn_ex_task spawn_ex] by auto
qed

section \<open>Returning when the parent may have been stolen\<close>

text \<open>The deque and its bottom closure are free, and the closure stands for the spawned call that
  returns: it runs on this worker and has no children.\<close>

definition returns_alone :: "worker_id \<Rightarrow> addr \<Rightarrow> closure \<Rightarrow> ('v, 'a) sched_state_scheme \<Rightarrow> bool" where
  "returns_alone w t c s \<longleftrightarrow> \<not> dq_mutex (deques s w) \<and> dq_owner (deques s w) = NO_WORKER \<and> bottom (deques s w) = Some t \<and>
     closures s t = Some c \<and> owner_ready_deque c = w \<and> \<not> cl_mutex c \<and> \<not> lock_wait c \<and> mutex_owner c = NO_WORKER \<and>
     status c = CLOSURE_RUNNING \<and> \<not> Closure_has_children c \<and>
     (case frame c of None \<Rightarrow> True | Some g \<Rightarrow> \<exists>fr. frames s g = Some fr \<and> sf_worker fr = W w)"

text \<open>A frame that may return: its detach is still marked, and it belongs to this worker.\<close>

definition detached :: "worker_id \<Rightarrow> stack_frame \<Rightarrow> bool" where
  "detached w fr \<longleftrightarrow> magic fr = frame_magic \<and> sf_worker fr = W w \<and> flags fr AND CILK_FRAME_DETACHED \<noteq> 0"

lemma deque_lock_self_run:
  "\<not> dq_mutex (deques s w) \<Longrightarrow> thenA (deque_lock_self w) n s = n (s\<lparr>workers := (workers s)(w := (workers s w)\<lparr>l_lock_wait := False\<rparr>),
     deques := (deques s)(w := (deques s w)\<lparr>dq_mutex := True, dq_owner := w\<rparr>)\<rparr>)"
  by (cases s, cases "workers s w") (simp add: deque_lock_self_def cilk_mutex_lock_def thenA_def bindA_def)

lemma deque_unlock_self_run:
  "thenA (deque_unlock_self w) n s = n (s\<lparr>deques := (deques s)(w := (deques s w)\<lparr>dq_owner := NO_WORKER, dq_mutex := False\<rparr>)\<rparr>)"
  by (simp add: deque_unlock_self_def thenA_def bindA_def)

lemma deque_peek_bottom_run:
  "dq_owner (deques s w) = w \<Longrightarrow> bottom (deques s w) = Some t \<Longrightarrow> closures s t = Some c \<Longrightarrow> owner_ready_deque c = w \<Longrightarrow>
     bindA (deque_peek_bottom w w) k s = k (Some t) s"
  by (simp add: deque_peek_bottom_def deque_assert_ownership_def bindA_def thenA_def)

lemma unlocked_deque_same: "\<not> dq_mutex (D w) \<Longrightarrow> dq_owner (D w) = x \<Longrightarrow> D(w := (D w)\<lparr>dq_owner := x, dq_mutex := False\<rparr>) = D"
  by (rule fun_upd_idem, cases "D w") simp

lemma same_fields:
  fixes s :: "('v, 'a) sched_state_scheme"
  shows "s\<lparr>workers := ws, closures := closures s, deques := deques s\<rparr> = s\<lparr>workers := ws\<rparr>"
    "s\<lparr>workers := ws, closures := C, deques := deques s\<rparr> = s\<lparr>workers := ws, closures := C\<rparr>"
  by simp_all

text \<open>The handler, with \<open>tail\<close> already moved back: it resets \<open>exc\<close>, and the frame goes on exactly when
  the head has not passed it.\<close>

definition handled :: "worker_id \<Rightarrow> addr \<Rightarrow> closure \<Rightarrow> nat option \<Rightarrow> ('v, 'a) sched_state_scheme \<Rightarrow> handler_exit \<times> ('v, 'a) sched_state_scheme" where
  "handled w t c exn s =
     (let l = workers s w; s' = s\<lparr>workers := (workers s)(w := l\<lparr>l_lock_wait := False, exc := head l\<rparr>)\<rparr> in
      if tail l < head l
      then (To_runtime, s'\<lparr>closures := (closures s)(t \<mapsto> c\<lparr>user_exn := (if exn = None then user_exn c else exn), status := CLOSURE_RETURNING\<rparr>)\<rparr>)
      else (To_user, s'))"

lemma handler_run:
  assumes "returns_alone w t c s"
  shows "Cilk_exception_handler w exn s = Inr (handled w t c exn s)"
proof -
  have c: "closures s t = Some c" "\<not> cl_mutex c" "live_status (status c)" "status c = CLOSURE_RUNNING" "\<not> Closure_has_children c"
      "\<not> dq_mutex (deques s w)" "dq_owner (deques s w) = NO_WORKER" "bottom (deques s w) = Some t" "owner_ready_deque c = w"
    using assms by (simp_all add: returns_alone_def)
  have h: "\<not> Closure_has_children (lock_of w c)" using c(5) by (simp add: Closure_has_children_def)
  have u: "unlock_of (lock_of w c) = c" "\<And>st e. unlock_of (lock_of w (c\<lparr>user_exn := e, status := st\<rparr>)) = c\<lparr>user_exn := e, status := st\<rparr>"
    "\<And>st e. unlock_of (lock_of w (c\<lparr>status := st\<rparr>)) = c\<lparr>status := st\<rparr>"
    using assms by (cases c; simp add: returns_alone_def lock_of_def unlock_of_def)+
  have same: "(deques s)(w := (deques s w)\<lparr>dq_owner := NO_WORKER, dq_mutex := False\<rparr>) = deques s" "(closures s)(t \<mapsto> c) = closures s"
    "c\<lparr>user_exn := user_exn c, status := st\<rparr> = c\<lparr>status := st\<rparr>" for st
    using c by (simp_all add: unlocked_deque_same fun_upd_idem)
  note run = Cilk_exception_handler_def reset_exception_pointer_def deque_lock_self_run deque_unlock_self_run deque_peek_bottom_run
    Closure_assert_run act_flat_run handled_def Let_def
  show ?thesis
  proof (cases "frame c")
    case None
    then show ?thesis using c h u by (cases exn) (simp_all add: run same same_fields cong: run_cong)
  next
    case (Some g)
    then obtain fr where "frames s g = Some fr" "sf_worker fr = W w" using assms by (auto simp: returns_alone_def)
    then show ?thesis using Some c h u by (cases exn) (simp_all add: run same same_fields cong: run_cong)
  qed
qed

lemma undo_detach_run:
  assumes "frames s f = Some fr" "detached w fr" "returns_alone w t c s"
  defines "s1 \<equiv> s\<lparr>workers := (workers s)(w := (workers s w)\<lparr>tail := tail (workers s w) - 1\<rparr>),
      frames := (frames s)(f \<mapsto> fr\<lparr>flags := flags fr AND NOT CILK_FRAME_DETACHED\<rparr>)\<rparr>"
  shows "undo_detach w f exn s = Inr (if exc (workers s w) < tail (workers s w) then (To_user, s1) else handled w t c exn s1)"
    and "pause_frame w f exn s = undo_detach w f exn s" "leave_frame w f s = undo_detach w f None s"
proof -
  have "returns_alone w t c s1"
    using assms by (auto simp: returns_alone_def detached_def split: option.splits)
  then have "Cilk_exception_handler w exn s1 = Inr (handled w t c exn s1)" by (rule handler_run)
  then show "undo_detach w f exn s = Inr (if exc (workers s w) < tail (workers s w) then (To_user, s1) else handled w t c exn s1)"
    using assms(1) by (auto simp: undo_detach_def s1_def)
  show "pause_frame w f exn s = undo_detach w f exn s" "leave_frame w f s = undo_detach w f None s"
    using assms(1,2) by (simp_all add: pause_frame_def leave_frame_def detached_def)
qed

text \<open>(C24) The return of a spawned frame, normally (\<open>__cilkrts_leave_frame\<close>) or on an exception
  (\<open>__cilkrts_pause_frame\<close>), in a moment in which no lock is held: \<open>tail\<close> moves back by one, and the frame
  goes on to its parent exactly when no thief has taken that parent, \<open>head \<le> tail - 1\<close>, or none has
  even announced itself, \<open>exc \<le> tail - 1\<close>.  Otherwise the worker goes to the scheduling loop, and its
  closure is returning and keeps the exception.  Nothing else changes: \<open>exc\<close> is reset to \<open>head\<close> on the
  slow path, and all locks are free again.\<close>

theorem detached_return:
  assumes "frames s f = Some fr" "detached w fr" "returns_alone w t c s"
  shows "\<exists>r s'. pause_frame w f exn s = Inr (r, s') \<and> (exn = None \<longrightarrow> leave_frame w f s = Inr (r, s')) \<and>
     (r = To_user \<longleftrightarrow> exc (workers s w) \<le> tail (workers s w) - 1 \<or> head (workers s w) \<le> tail (workers s w) - 1) \<and>
     tail (workers s' w) = tail (workers s w) - 1 \<and> head (workers s' w) = head (workers s w) \<and>
     exc (workers s' w) = (if exc (workers s w) \<le> tail (workers s w) - 1 then exc (workers s w) else head (workers s w)) \<and>
     frames s' = (frames s)(f \<mapsto> fr\<lparr>flags := flags fr AND NOT CILK_FRAME_DETACHED\<rparr>) \<and> deques s' = deques s \<and>
     closures s' = (if r = To_user then closures s
       else (closures s)(t \<mapsto> c\<lparr>user_exn := (if exn = None then user_exn c else exn), status := CLOSURE_RETURNING\<rparr>))"
  using undo_detach_run(1)[OF assms, of exn] undo_detach_run(2)[OF assms, of exn] undo_detach_run(3)[OF assms]
  by (auto simp: handled_def Let_def)

lemma exit_not_user: "r \<noteq> To_user \<longleftrightarrow> r = To_runtime"
  by (cases r) auto

definition return_ex_closure :: closure where
  "return_ex_closure = Closure_init\<lparr>status := CLOSURE_RUNNING, owner_ready_deque := 0\<rparr>"

definition return_ex :: "nat sched_state" where
  "return_ex = spawn_ex\<lparr>frames := (frames spawn_ex)(3 \<mapsto> \<lparr>flags = CILK_FRAME_DETACHED, magic = frame_magic, sf_call_parent = None, sf_worker = W 0, SP = None, FP = None\<rparr>),
     closures := [7 \<mapsto> return_ex_closure],
     deques := (\<lambda>_. empty_deque)(0 := empty_deque\<lparr>top := Some 7, bottom := Some 7\<rparr>),
     workers := (workers spawn_ex)(0 := (workers spawn_ex 0)\<lparr>head := 1, tail := 1, exc := 1\<rparr>)\<rparr>"

lemma return_ex_facts:
  "frames return_ex 3 = Some \<lparr>flags = CILK_FRAME_DETACHED, magic = frame_magic, sf_call_parent = None, sf_worker = W 0, SP = None, FP = None\<rparr>"
  "detached 0 \<lparr>flags = CILK_FRAME_DETACHED, magic = frame_magic, sf_call_parent = None, sf_worker = W 0, SP = None, FP = None\<rparr>"
  "returns_alone 0 7 return_ex_closure return_ex"
  "exc (workers return_ex 0) = 1 \<and> tail (workers return_ex 0) = 1 \<and> head (workers return_ex 0) = 1"
  by (simp_all add: return_ex_def detached_def flag_defs returns_alone_def return_ex_closure_def empty_deque_def Closure_init_def
      cilk_mutex_init_def Closure_has_children_def)

lemma detached_return_witness:
  "\<exists>s'. pause_frame 0 3 (Some 42) return_ex = Inr (To_runtime, s') \<and> closures s' 7 = Some (return_ex_closure\<lparr>user_exn := Some 42, status := CLOSURE_RETURNING\<rparr>)"
  using detached_return[OF return_ex_facts(1-3), of "Some 42"] return_ex_facts(4)
  by (elim exE conjE) (rule exI, auto simp: exit_not_user)

section \<open>Exceptions\<close>

lemma take_exception_run:
  assumes "returns_alone w t c s" "frames s f = Some fr" "sf_worker fr = W w"
  shows "check_exception_raise f s = Inr (user_exn c, s\<lparr>workers := (workers s)(w := (workers s w)\<lparr>l_lock_wait := False\<rparr>),
     closures := (closures s)(t \<mapsto> c\<lparr>user_exn := None\<rparr>),
     frames := (frames s)(f \<mapsto> fr\<lparr>flags := flags fr AND NOT CILK_FRAME_EXCEPTION_PENDING\<rparr>)\<rparr>)"
proof -
  have c: "closures s t = Some c" "\<not> cl_mutex c" "live_status (status c)" "\<not> dq_mutex (deques s w)" "dq_owner (deques s w) = NO_WORKER"
    "bottom (deques s w) = Some t" "owner_ready_deque c = w"
    using assms by (simp_all add: returns_alone_def)
  have u: "unlock_of (lock_of w (c\<lparr>user_exn := e\<rparr>)) = c\<lparr>user_exn := e\<rparr>" for e
    using assms by (cases c; simp add: returns_alone_def lock_of_def unlock_of_def)
  show ?thesis using c u assms(2,3)
    by (cases s) (simp add: check_exception_raise_def frame_worker_of_def take_exception_def deque_lock_self_run deque_unlock_self_run
        deque_peek_bottom_run act_flat_run unlocked_deque_same cong: run_cong)
qed

text \<open>(C26) An exception recorded in a closure is raised once: the check after a sync takes it out of the
  closure at the bottom of the deque, clears the flag of the frame, and finds nothing the second time.  It
  leaves the locks free and changes no other closure and frame.\<close>

theorem exception_taken_once:
  assumes "returns_alone w t c s" "frames s f = Some fr" "sf_worker fr = W w"
  shows "\<exists>s'. check_exception_raise f s = Inr (user_exn c, s') \<and> check_exception_raise f s' = Inr (None, s') \<and>
     closures s' = (closures s)(t \<mapsto> c\<lparr>user_exn := None\<rparr>) \<and> deques s' = deques s \<and>
     frames s' = (frames s)(f \<mapsto> fr\<lparr>flags := flags fr AND NOT CILK_FRAME_EXCEPTION_PENDING\<rparr>)"
proof -
  let ?s1 = "s\<lparr>workers := (workers s)(w := (workers s w)\<lparr>l_lock_wait := False\<rparr>), closures := (closures s)(t \<mapsto> c\<lparr>user_exn := None\<rparr>),
     frames := (frames s)(f \<mapsto> fr\<lparr>flags := flags fr AND NOT CILK_FRAME_EXCEPTION_PENDING\<rparr>)\<rparr>"
  have "returns_alone w t (c\<lparr>user_exn := None\<rparr>) ?s1"
    using assms by (auto simp: returns_alone_def Closure_has_children_def split: option.splits)
  from take_exception_run[OF this] have "check_exception_raise f ?s1 = Inr (None, ?s1)" using assms(3) by simp
  then show ?thesis using take_exception_run[OF assms] by (intro exI[of _ ?s1]) simp
qed

lemma exception_taken_once_witness:
  "\<exists>s'. check_exception_raise 3 (return_ex\<lparr>closures := [7 \<mapsto> return_ex_closure\<lparr>user_exn := Some 42\<rparr>]\<rparr>) = Inr (Some 42, s') \<and> check_exception_raise 3 s' = Inr (None, s')"
proof -
  let ?s = "return_ex\<lparr>closures := [7 \<mapsto> return_ex_closure\<lparr>user_exn := Some 42\<rparr>]\<rparr>"
  have a: "returns_alone 0 7 (return_ex_closure\<lparr>user_exn := Some 42\<rparr>) ?s"
    by (simp add: returns_alone_def return_ex_def return_ex_closure_def empty_deque_def Closure_init_def cilk_mutex_init_def Closure_has_children_def)
  have f: "frames ?s 3 = Some \<lparr>flags = CILK_FRAME_DETACHED, magic = frame_magic, sf_call_parent = None, sf_worker = W 0, SP = None, FP = None\<rparr>"
    by (simp add: return_ex_def)
  from exception_taken_once[OF a f] show ?thesis by auto
qed

end
