(* ===== verification/THE_Protocol.thy ===== *)
theory THE_Protocol
  imports Abi_Correct
begin

text \<open>
  The THE protocol between a worker and the thieves that raid its shadow stack, step by step: the
  victim's \<open>__cilkrts_detach\<close>, \<open>__cilkrts_leave_frame\<close> and \<open>Cilk_exception_handler\<close> against
  \<open>do_dekker_on\<close> and \<open>promote_child\<close> of any number of thieves.  A step is one access to \<open>head\<close>, \<open>tail\<close>,
  \<open>exc\<close>, a slot of the shadow stack or the lock of the victim's deque; the steps interleave freely, in
  one global order, as the sequentially consistent accesses and the fence of the code demand.

  Every frame pushed gets a number (\<open>pushed\<close> counts them).  \<open>kept\<close> are the frames the victim has gone
  back to, \<open>stolen\<close> those the thieves took.  The invariant \<open>the_inv\<close> gives: no frame is in both, none
  twice, none gets lost; and a thief or victim that holds the lock can always finish.
\<close>

section \<open>States and steps\<close>

datatype victim_pc =
    V_run        \<comment> \<open>in the program\<close>
  | V_pushing    \<comment> \<open>detach: the slot is written, \<open>tail\<close> not yet moved\<close>
  | V_popped     \<comment> \<open>leave_frame: \<open>tail\<close> is moved back, \<open>exc\<close> not yet read\<close>
  | V_wait       \<comment> \<open>\<open>exc > tail\<close> was seen; in \<open>deque_lock_self\<close>\<close>
  | V_locked     \<comment> \<open>in \<open>Cilk_exception_handler\<close> with the lock\<close>
  | V_reset      \<comment> \<open>\<open>exc\<close> is reset\<close>
  | V_lost       \<comment> \<open>the closure is \<open>CLOSURE_RETURNING\<close>; in the scheduling loop\<close>
  | V_fresh      \<comment> \<open>in \<open>setup_for_execution\<close> of another closure, which is not yet on the deque\<close>

datatype thief_pc =
    T_idle
  | T_locked     \<comment> \<open>the deque is locked, its top closure examined\<close>
  | T_raised     \<comment> \<open>\<open>exc\<close> is incremented\<close>
  | T_failed     \<comment> \<open>\<open>head \<ge> tail\<close>: \<open>exc\<close> is to be decremented\<close>
  | T_won        \<comment> \<open>\<open>do_dekker_on\<close> has returned true\<close>
  | T_read nat   \<comment> \<open>\<open>promote_child\<close> has read the frame at \<open>head\<close>\<close>
  | T_unlock

datatype holder = Victim | Thief nat

record the_state =
  t_head :: int
  t_tail :: int
  t_exc :: int
  slots :: "int \<Rightarrow> nat"
  t_lock :: "holder option"
  running :: bool       \<comment> \<open>the deque has a closure on top, and it is \<open>CLOSURE_RUNNING\<close>\<close>
  vpc :: victim_pc
  tpc :: "nat \<Rightarrow> thief_pc"
  pushed :: nat
  kept :: "nat list"
  stolen :: "nat list"

inductive victim_step :: "the_state \<Rightarrow> the_state \<Rightarrow> bool" where
  store_slot: "vpc s = V_run \<Longrightarrow> victim_step s (s\<lparr>slots := (slots s)(t_tail s := pushed s), vpc := V_pushing\<rparr>)"
| move_tail: "vpc s = V_pushing \<Longrightarrow> victim_step s (s\<lparr>t_tail := t_tail s + 1, vpc := V_run, pushed := pushed s + 1\<rparr>)"
| pop_tail: "vpc s = V_run \<Longrightarrow> 0 < t_tail s \<Longrightarrow> victim_step s (s\<lparr>t_tail := t_tail s - 1, vpc := V_popped\<rparr>)"
| see_no_thief: "vpc s = V_popped \<Longrightarrow> t_exc s \<le> t_tail s \<Longrightarrow>
    victim_step s (s\<lparr>vpc := V_run, kept := slots s (t_tail s) # kept s\<rparr>)"
| see_thief: "vpc s = V_popped \<Longrightarrow> t_tail s < t_exc s \<Longrightarrow> victim_step s (s\<lparr>vpc := V_wait\<rparr>)"
| lock_self: "vpc s = V_wait \<Longrightarrow> t_lock s = None \<Longrightarrow> victim_step s (s\<lparr>t_lock := Some Victim, vpc := V_locked\<rparr>)"
| reset_exc: "vpc s = V_locked \<Longrightarrow> victim_step s (s\<lparr>t_exc := t_head s, vpc := V_reset\<rparr>)"
| go_on: "vpc s = V_reset \<Longrightarrow> t_head s \<le> t_tail s \<Longrightarrow>
    victim_step s (s\<lparr>t_lock := None, vpc := V_run, kept := slots s (t_tail s) # kept s\<rparr>)"
| give_up: "vpc s = V_reset \<Longrightarrow> t_tail s < t_head s \<Longrightarrow>
    victim_step s (s\<lparr>t_lock := None, running := False, vpc := V_lost\<rparr>)"
| set_up: "vpc s = V_lost \<Longrightarrow> victim_step s (s\<lparr>t_head := 0, t_tail := 0, t_exc := 0, vpc := V_fresh\<rparr>)"
| publish: "vpc s = V_fresh \<Longrightarrow> t_lock s = None \<Longrightarrow> victim_step s (s\<lparr>running := True, vpc := V_run\<rparr>)"

inductive thief_step :: "nat \<Rightarrow> the_state \<Rightarrow> the_state \<Rightarrow> bool" for i where
  trylock: "tpc s i = T_idle \<Longrightarrow> t_lock s = None \<Longrightarrow>
    thief_step i s (s\<lparr>t_lock := Some (Thief i), tpc := (tpc s)(i := T_locked)\<rparr>)"
| no_work: "tpc s i = T_locked \<Longrightarrow> \<not> running s \<Longrightarrow> thief_step i s (s\<lparr>tpc := (tpc s)(i := T_unlock)\<rparr>)"
| raise_exc: "tpc s i = T_locked \<Longrightarrow> running s \<Longrightarrow>
    thief_step i s (s\<lparr>t_exc := t_exc s + 1, tpc := (tpc s)(i := T_raised)\<rparr>)"
| dekker_fails: "tpc s i = T_raised \<Longrightarrow> t_tail s \<le> t_head s \<Longrightarrow> thief_step i s (s\<lparr>tpc := (tpc s)(i := T_failed)\<rparr>)"
| dekker_wins: "tpc s i = T_raised \<Longrightarrow> t_head s < t_tail s \<Longrightarrow> thief_step i s (s\<lparr>tpc := (tpc s)(i := T_won)\<rparr>)"
| lower_exc: "tpc s i = T_failed \<Longrightarrow> thief_step i s (s\<lparr>t_exc := t_exc s - 1, tpc := (tpc s)(i := T_unlock)\<rparr>)"
| read_head: "tpc s i = T_won \<Longrightarrow> thief_step i s (s\<lparr>tpc := (tpc s)(i := T_read (slots s (t_head s)))\<rparr>)"
| move_head: "tpc s i = T_read k \<Longrightarrow>
    thief_step i s (s\<lparr>t_head := t_head s + 1, tpc := (tpc s)(i := T_unlock), stolen := k # stolen s\<rparr>)"
| unlock: "tpc s i = T_unlock \<Longrightarrow> thief_step i s (s\<lparr>t_lock := None, tpc := (tpc s)(i := T_idle)\<rparr>)"

inductive_cases victim_stepE: "victim_step s s'"
inductive_cases thief_stepE: "thief_step i s s'"

definition the_step :: "the_state \<Rightarrow> the_state \<Rightarrow> bool" where
  "the_step s s' \<longleftrightarrow> victim_step s s' \<or> (\<exists>i. thief_step i s s')"

text \<open>A worker that starts a closure with an empty shadow stack.\<close>

definition the_start :: the_state where
  "the_start = \<lparr>t_head = 0, t_tail = 0, t_exc = 0, slots = (\<lambda>_. 0), t_lock = None, running = True, vpc = V_run,
     tpc = (\<lambda>_. T_idle), pushed = 0, kept = [], stolen = []\<rparr>"

inductive the_reachable :: "the_state \<Rightarrow> bool" where
  start: "the_reachable the_start"
| step: "the_reachable s \<Longrightarrow> the_step s s' \<Longrightarrow> the_reachable s'"

section \<open>The invariant\<close>

text \<open>The program counter of the thief that holds the lock.\<close>

definition hpc :: "the_state \<Rightarrow> thief_pc" where
  "hpc s = (case t_lock s of Some (Thief i) \<Rightarrow> tpc s i | _ \<Rightarrow> T_idle)"

definition raised :: "thief_pc \<Rightarrow> bool" where
  "raised p \<longleftrightarrow> (case p of T_raised \<Rightarrow> True | T_failed \<Rightarrow> True | T_won \<Rightarrow> True | T_read _ \<Rightarrow> True | _ \<Rightarrow> False)"

definition winning :: "thief_pc \<Rightarrow> bool" where
  "winning p \<longleftrightarrow> (case p of T_won \<Rightarrow> True | T_read _ \<Rightarrow> True | _ \<Rightarrow> False)"

text \<open>The end of the part of the shadow stack whose frames are neither kept nor stolen: the frame just
  popped still counts until its fate is decided.\<close>

definition limit :: "the_state \<Rightarrow> int" where
  "limit s = (if vpc s \<in> {V_popped, V_wait, V_locked, V_reset} then t_tail s + 1 else t_tail s)"

definition waiting :: "the_state \<Rightarrow> nat set" where
  "waiting s = slots s ` {t_head s ..< limit s}"

definition lock_inv :: "the_state \<Rightarrow> bool" where
  "lock_inv s \<longleftrightarrow> (\<forall>i. (tpc s i \<noteq> T_idle) = (t_lock s = Some (Thief i))) \<and>
     (vpc s \<in> {V_locked, V_reset} \<longleftrightarrow> t_lock s = Some Victim) \<and>
     (running s \<longleftrightarrow> vpc s \<notin> {V_lost, V_fresh}) \<and> (raised (hpc s) \<longrightarrow> running s)"

definition pointer_inv :: "the_state \<Rightarrow> bool" where
  "pointer_inv s \<longleftrightarrow> t_exc s = t_head s + (if raised (hpc s) then 1 else 0) \<and> 0 \<le> t_head s \<and> 
     (winning (hpc s) \<longrightarrow> t_head s < limit s) \<and>
     (vpc s \<noteq> V_lost \<longrightarrow> t_head s \<le> limit s) \<and> (vpc s = V_lost \<longrightarrow> t_head s = t_tail s + 1) \<and> (vpc s = V_fresh \<longrightarrow> t_tail s = 0) \<and>
     (\<forall>k. hpc s = T_read k \<longrightarrow> k = slots s (t_head s)) \<and> (vpc s = V_pushing \<longrightarrow> slots s (t_tail s) = pushed s)"

definition frame_inv :: "the_state \<Rightarrow> bool" where
  "frame_inv s \<longleftrightarrow> distinct (kept s @ stolen s) \<and> inj_on (slots s) {t_head s ..< limit s} \<and>
     set (kept s @ stolen s) \<inter> waiting s = {} \<and> set (kept s @ stolen s) \<union> waiting s = {..< pushed s}"

definition the_inv :: "the_state \<Rightarrow> bool" where
  "the_inv s \<longleftrightarrow> lock_inv s \<and> pointer_inv s \<and> frame_inv s"

lemma the_inv_start: "the_inv the_start"
  by (simp add: the_inv_def lock_inv_def pointer_inv_def frame_inv_def waiting_def limit_def the_start_def hpc_def raised_def winning_def)

lemma raised_simps [simp]:
  "\<not> raised T_idle" "\<not> raised T_locked" "raised T_raised" "raised T_failed" "raised T_won" "raised (T_read k)" "\<not> raised T_unlock"
  "\<not> winning T_idle" "\<not> winning T_locked" "\<not> winning T_raised" "\<not> winning T_failed" "winning T_won" "winning (T_read k)" "\<not> winning T_unlock"
  by (simp_all add: raised_def winning_def)

lemma limit_cong: "vpc s' = vpc s \<Longrightarrow> t_tail s' = t_tail s \<Longrightarrow> limit s' = limit s"
  by (simp add: limit_def)

lemma lock_inv_victim:
  assumes "lock_inv s" "victim_step s s'"
  shows "lock_inv s'"
  using assms(2,1) by (cases rule: victim_step.cases) (auto simp: lock_inv_def hpc_def split: option.splits holder.splits)

lemma hpc_thief: "lock_inv s \<Longrightarrow> tpc s i \<noteq> T_idle \<Longrightarrow> hpc s = tpc s i \<and> t_lock s = Some (Thief i)"
  by (auto simp: lock_inv_def hpc_def)

lemma lock_inv_thief:
  assumes "lock_inv s" "thief_step i s s'"
  shows "lock_inv s'"
  using assms(2,1)
proof (cases rule: thief_step.cases)
  case trylock
  then show ?thesis using assms(1) by (auto simp: lock_inv_def hpc_def)
qed (use assms(1) hpc_thief[OF assms(1), of i] in \<open>auto simp: lock_inv_def hpc_def split: if_splits\<close>)

lemma hpc_free: "t_lock s = None \<Longrightarrow> hpc s = T_idle" "t_lock s = Some Victim \<Longrightarrow> hpc s = T_idle"
  by (simp_all add: hpc_def)

lemma winning_raised: "winning p \<Longrightarrow> raised p"
  by (cases p) simp_all

lemma pointer_inv_victim:
  assumes "lock_inv s" "pointer_inv s" "victim_step s s'"
  shows "pointer_inv s'"
  using assms(3,1,2)
proof (cases rule: victim_step.cases)
  case store_slot
  then show ?thesis using assms(1,2) by (auto simp: pointer_inv_def hpc_def limit_def dest: winning_raised split: option.splits holder.splits)
qed (auto simp: pointer_inv_def lock_inv_def hpc_def limit_def dest: winning_raised split: option.splits holder.splits if_splits)

lemma pointer_inv_thief:
  assumes "lock_inv s" "pointer_inv s" "thief_step i s s'"
  shows "pointer_inv s'"
  using assms(3,2)
proof (cases rule: thief_step.cases)
  case trylock
  then show ?thesis using assms(2) hpc_free(1)[of s] by (auto simp: pointer_inv_def hpc_def limit_def)
next
  case move_head
  then show ?thesis using assms(2) hpc_thief[OF assms(1), of i] by (auto simp: pointer_inv_def hpc_def limit_def split: if_splits)
next
  case dekker_wins
  then show ?thesis using assms(2) hpc_thief[OF assms(1), of i] by (auto simp: pointer_inv_def hpc_def limit_def)
qed (use hpc_thief[OF assms(1), of i] in \<open>auto simp: pointer_inv_def hpc_def limit_def\<close>)

text \<open>What the steps do to the frames: a push adds one at the end, a victim takes the last one, a thief
  the first one; every other step leaves them alone.\<close>

lemma range_split:
  "a < b \<Longrightarrow> {a ..< b} = insert a {a + 1 ..< b}" "a < b \<Longrightarrow> {a ..< b} = insert (b - 1) {a ..< b - 1}" for a b :: int
  by auto

lemma frame_inv_same:
  assumes "frame_inv s" "kept s' = kept s" "stolen s' = stolen s" "pushed s' = pushed s" "slots s' = slots s"
    "t_head s' = t_head s" "limit s' = limit s"
  shows "frame_inv s'"
  using assms by (simp add: frame_inv_def waiting_def)

lemma frame_inv_push:
  assumes "frame_inv s" "t_head s \<le> limit s" "slots s (limit s) = pushed s" "kept s' = kept s" "stolen s' = stolen s"
    "pushed s' = pushed s + 1" "slots s' = slots s" "t_head s' = t_head s" "limit s' = limit s + 1"
  shows "frame_inv s'"
proof -
  have r: "{t_head s ..< limit s + 1} = insert (limit s) {t_head s ..< limit s}" using assms(2) by auto
  have w: "waiting s' = insert (pushed s) (waiting s)" using assms r by (simp add: waiting_def)
  have n: "pushed s \<notin> set (kept s @ stolen s) \<union> waiting s" using assms(1) by (simp add: frame_inv_def)
  have "inj_on (slots s) (insert (limit s) {t_head s ..< limit s})"
    using assms(1,3) n by (auto simp: frame_inv_def waiting_def)
  moreover have "{..< pushed s + 1} = insert (pushed s) {..< pushed s}" by auto
  ultimately show ?thesis using assms n r by (auto simp: frame_inv_def w)
qed

lemma frame_inv_keep:
  assumes "frame_inv s" "t_head s < limit s" "kept s' = slots s (limit s - 1) # kept s" "stolen s' = stolen s"
    "pushed s' = pushed s" "slots s' = slots s" "t_head s' = t_head s" "limit s' = limit s - 1"
  shows "frame_inv s'"
proof -
  let ?k = "slots s (limit s - 1)"
  have w: "waiting s = insert ?k (waiting s')" using assms range_split(2)[OF assms(2)] by (simp add: waiting_def)
  have i: "?k \<notin> waiting s'" "inj_on (slots s') {t_head s' ..< limit s'}"
    using assms range_split(2)[OF assms(2)] by (auto simp: frame_inv_def waiting_def inj_on_def)
  then show ?thesis using assms(1,3-5) w by (auto simp: frame_inv_def)
qed

lemma frame_inv_steal:
  assumes "frame_inv s" "t_head s < limit s" "stolen s' = slots s (t_head s) # stolen s" "kept s' = kept s"
    "pushed s' = pushed s" "slots s' = slots s" "t_head s' = t_head s + 1" "limit s' = limit s"
  shows "frame_inv s'"
proof -
  let ?k = "slots s (t_head s)"
  have w: "waiting s = insert ?k (waiting s')" using assms range_split(1)[OF assms(2)] by (simp add: waiting_def)
  have i: "?k \<notin> waiting s'" "inj_on (slots s') {t_head s' ..< limit s'}"
    using assms range_split(1)[OF assms(2)] by (auto simp: frame_inv_def waiting_def inj_on_def)
  then show ?thesis using assms(1,3-5) w by (auto simp: frame_inv_def)
qed

lemma frame_inv_victim:
  assumes "lock_inv s" "pointer_inv s" "frame_inv s" "victim_step s s'"
  shows "frame_inv s'"
  using assms(4)
proof (cases rule: victim_step.cases)
  case store_slot
  have "slots s' ` {t_head s ..< t_tail s} = slots s ` {t_head s ..< t_tail s}" "inj_on (slots s') {t_head s ..< t_tail s} = inj_on (slots s) {t_head s ..< t_tail s}"
    using store_slot(1) by (auto intro!: image_cong inj_on_cong)
  then show ?thesis using assms(3) store_slot by (simp add: frame_inv_def waiting_def limit_def)
next
  case move_tail
  then show ?thesis using assms(2) by (intro frame_inv_push[OF assms(3)]) (simp_all add: pointer_inv_def limit_def)
next
  case see_no_thief
  then show ?thesis using assms(2) by (intro frame_inv_keep[OF assms(3)]) (auto simp: pointer_inv_def limit_def split: if_splits)
next
  case go_on
  then show ?thesis using assms(2) by (intro frame_inv_keep[OF assms(3)]) (auto simp: pointer_inv_def limit_def split: if_splits)
next
  case give_up
  then have "t_head s = t_tail s + 1" using assms(2) by (simp add: pointer_inv_def limit_def)
  then show ?thesis using assms(3) give_up by (simp add: frame_inv_def waiting_def limit_def)
next
  case set_up
  then have "t_head s = t_tail s + 1" using assms(2) by (simp add: pointer_inv_def)
  then show ?thesis using assms(3) set_up by (simp add: frame_inv_def waiting_def limit_def)
qed (rule frame_inv_same[OF assms(3)]; simp add: limit_def)+

lemma frame_inv_thief:
  assumes "lock_inv s" "pointer_inv s" "frame_inv s" "thief_step i s s'"
  shows "frame_inv s'"
  using assms(4)
proof (cases rule: thief_step.cases)
  case (move_head k)
  then have "t_head s < limit s" "k = slots s (t_head s)" using assms(2) hpc_thief[OF assms(1), of i] by (auto simp: pointer_inv_def)
  then show ?thesis using move_head by (intro frame_inv_steal[OF assms(3)]) (simp_all add: limit_def)
qed (rule frame_inv_same[OF assms(3)]; simp add: limit_def)+

lemma the_inv_step: "the_inv s \<Longrightarrow> the_step s s' \<Longrightarrow> the_inv s'"
  using lock_inv_victim lock_inv_thief pointer_inv_victim pointer_inv_thief frame_inv_victim frame_inv_thief
  unfolding the_inv_def the_step_def by blast

lemma the_reachable_inv: "the_reachable s \<Longrightarrow> the_inv s"
  by (induction rule: the_reachable.induct) (auto intro: the_inv_start the_inv_step)

section \<open>Safety and progress\<close>

text \<open>(C27) Under every interleaving of the victim with any number of thieves, each frame that was pushed is
  at any moment in exactly one place: the victim went back to it, one thief took it, or it still waits on
  the shadow stack.  No frame is run twice and none is lost; and when the victim gives up on a return,
  nothing waits any more.\<close>

theorem the_frames_once:
  assumes "the_reachable s"
  shows "distinct (kept s @ stolen s) \<and> set (kept s @ stolen s) \<inter> waiting s = {} \<and>
     set (kept s @ stolen s) \<union> waiting s = {..< pushed s} \<and> inj_on (slots s) {t_head s ..< limit s} \<and>
     (vpc s = V_lost \<longrightarrow> set (kept s @ stolen s) = {..< pushed s})"
  using the_reachable_inv[OF assms] by (auto simp: the_inv_def frame_inv_def pointer_inv_def waiting_def limit_def)

text \<open>One frame pushed, and stolen while the victim returns from it.\<close>

definition race_wait :: the_state where
  "race_wait = \<lparr>t_head = 0, t_tail = 0, t_exc = 1, slots = (\<lambda>_. 0)(0 := 0), t_lock = Some (Thief 7), running = True, vpc = V_wait,
     tpc = (\<lambda>_. T_idle)(7 := T_won), pushed = 1, kept = [], stolen = []\<rparr>"

definition race_ex :: the_state where
  "race_ex = \<lparr>t_head = 1, t_tail = 0, t_exc = 1, slots = (\<lambda>_. 0)(0 := 0), t_lock = None, running = False, vpc = V_lost,
     tpc = (\<lambda>_. T_idle)(7 := T_idle), pushed = 1, kept = [], stolen = [0]\<rparr>"

lemma vstep: "the_reachable s \<Longrightarrow> victim_step s s' \<Longrightarrow> the_reachable s'"
  by (erule the_reachable.step) (simp add: the_step_def)

lemma tstep: "the_reachable s \<Longrightarrow> thief_step i s s' \<Longrightarrow> the_reachable s'"
  by (erule the_reachable.step) (auto simp: the_step_def)

lemma race_wait_reachable: "the_reachable race_wait"
proof -
  have 1: "the_reachable (the_start\<lparr>slots := (\<lambda>_. 0)(0 := 0), vpc := V_pushing\<rparr>)"
    using vstep[OF the_reachable.start store_slot] by (simp add: the_start_def)
  have 2: "the_reachable (the_start\<lparr>slots := (\<lambda>_. 0)(0 := 0), t_tail := 1, pushed := 1\<rparr>)"
    using vstep[OF 1 move_tail] by (simp add: the_start_def)
  have 3: "the_reachable (the_start\<lparr>slots := (\<lambda>_. 0)(0 := 0), t_tail := 1, pushed := 1, t_lock := Some (Thief 7), tpc := (\<lambda>_. T_idle)(7 := T_locked)\<rparr>)"
    using tstep[OF 2 trylock[of _ 7]] by (simp add: the_start_def)
  have 4: "the_reachable (the_start\<lparr>slots := (\<lambda>_. 0)(0 := 0), t_tail := 1, pushed := 1, t_lock := Some (Thief 7), t_exc := 1, tpc := (\<lambda>_. T_idle)(7 := T_raised)\<rparr>)"
    using tstep[OF 3 raise_exc[of _ 7]] by (simp add: the_start_def)
  have 5: "the_reachable (the_start\<lparr>slots := (\<lambda>_. 0)(0 := 0), t_tail := 1, pushed := 1, t_lock := Some (Thief 7), t_exc := 1, tpc := (\<lambda>_. T_idle)(7 := T_won)\<rparr>)"
    using tstep[OF 4 dekker_wins[of _ 7]] by (simp add: the_start_def)
  have 6: "the_reachable (the_start\<lparr>slots := (\<lambda>_. 0)(0 := 0), t_tail := 0, pushed := 1, t_lock := Some (Thief 7), t_exc := 1, tpc := (\<lambda>_. T_idle)(7 := T_won), vpc := V_popped\<rparr>)"
    using vstep[OF 5 pop_tail] by (simp add: the_start_def)
  show ?thesis using vstep[OF 6 see_thief] by (simp add: the_start_def race_wait_def)
qed

lemma race_ex_reachable: "the_reachable race_ex"
proof -
  note 7 = race_wait_reachable[unfolded race_wait_def]
  have 8: "the_reachable (the_start\<lparr>slots := (\<lambda>_. 0)(0 := 0), t_tail := 0, pushed := 1, t_lock := Some (Thief 7), t_exc := 1, tpc := (\<lambda>_. T_idle)(7 := T_read 0), vpc := V_wait\<rparr>)"
    using tstep[OF 7 read_head[of _ 7]] by (simp add: the_start_def)
  have 9: "the_reachable (the_start\<lparr>slots := (\<lambda>_. 0)(0 := 0), t_head := 1, t_tail := 0, pushed := 1, t_lock := Some (Thief 7), t_exc := 1,
      tpc := (\<lambda>_. T_idle)(7 := T_unlock), vpc := V_wait, stolen := [0]\<rparr>)"
    using tstep[OF 8 move_head[of _ 7 0]] by (simp add: the_start_def)
  have 10: "the_reachable (the_start\<lparr>slots := (\<lambda>_. 0)(0 := 0), t_head := 1, t_tail := 0, pushed := 1, t_exc := 1, tpc := (\<lambda>_. T_idle)(7 := T_idle), vpc := V_wait, stolen := [0]\<rparr>)"
    using tstep[OF 9 unlock[of _ 7]] by (simp add: the_start_def)
  have 11: "the_reachable (the_start\<lparr>slots := (\<lambda>_. 0)(0 := 0), t_head := 1, t_tail := 0, pushed := 1, t_exc := 1, tpc := (\<lambda>_. T_idle)(7 := T_idle),
      t_lock := Some Victim, vpc := V_locked, stolen := [0]\<rparr>)"
    using vstep[OF 10 lock_self] by (simp add: the_start_def)
  have 12: "the_reachable (the_start\<lparr>slots := (\<lambda>_. 0)(0 := 0), t_head := 1, t_tail := 0, pushed := 1, t_exc := 1, tpc := (\<lambda>_. T_idle)(7 := T_idle),
      t_lock := Some Victim, vpc := V_reset, stolen := [0]\<rparr>)"
    using vstep[OF 11 reset_exc] by (simp add: the_start_def)
  show ?thesis using vstep[OF 12 give_up] by (simp add: the_start_def race_ex_def)
qed

lemma the_frames_once_witness: "set (kept race_ex @ stolen race_ex) = {..< pushed race_ex} \<and> stolen race_ex = [0]"
  using the_frames_once[OF race_ex_reachable] by (simp add: race_ex_def)

text \<open>Steps of the victim and of the thief that holds the lock.\<close>

definition holder_step :: "the_state \<Rightarrow> the_state \<Rightarrow> bool" where
  "holder_step s s' \<longleftrightarrow> victim_step s s' \<or> (\<exists>i. t_lock s = Some (Thief i) \<and> thief_step i s s')"

lemma holder_victim: "holder_step\<^sup>*\<^sup>* s a \<Longrightarrow> victim_step a b \<Longrightarrow> holder_step\<^sup>*\<^sup>* s b"
  by (erule rtranclp.rtrancl_into_rtrancl) (simp add: holder_step_def)

text \<open>How many steps a thief is from giving the lock back, at most.\<close>

fun thief_rank :: "thief_pc \<Rightarrow> nat" where
  "thief_rank T_idle = 0"
| "thief_rank T_unlock = 1"
| "thief_rank T_failed = 2"
| "thief_rank (T_read k) = 2"
| "thief_rank T_won = 3"
| "thief_rank T_raised = 4"
| "thief_rank T_locked = 5"

lemma thief_progress:
  assumes "tpc s i \<noteq> T_idle" "running s"
  obtains s' where "thief_step i s s'" "vpc s' = vpc s" "running s'" "thief_rank (tpc s' i) < thief_rank (tpc s i)"
    "t_lock s' = (if tpc s' i = T_idle then None else t_lock s)"
proof (cases "tpc s i")
  case T_locked
  then show ?thesis using that[OF raise_exc] assms by simp
next
  case T_raised
  then show ?thesis using that[OF dekker_wins] that[OF dekker_fails] assms by (cases "t_head s < t_tail s") simp_all
next
  case (T_read k)
  then show ?thesis using that[OF move_head] assms by simp
qed (use assms that[OF lower_exc] that[OF read_head] that[OF unlock] in simp_all)

lemma holder_unlocks:
  assumes "vpc s = V_wait" "t_lock s = Some (Thief i)" "running s" "tpc s i \<noteq> T_idle"
  shows "\<exists>s'. holder_step\<^sup>*\<^sup>* s s' \<and> vpc s' = V_wait \<and> t_lock s' = None"
  using assms
proof (induction "thief_rank (tpc s i)" arbitrary: s rule: less_induct)
  case less
  obtain s1 where s1: "thief_step i s s1" "vpc s1 = vpc s" "running s1" "thief_rank (tpc s1 i) < thief_rank (tpc s i)"
    "t_lock s1 = (if tpc s1 i = T_idle then None else t_lock s)"
    using less.prems(4,3) by (rule thief_progress)
  have h: "holder_step s s1" using s1(1) less.prems(2) by (auto simp: holder_step_def)
  show ?case
  proof (cases "tpc s1 i = T_idle")
    case True
    then show ?thesis using h s1 less.prems(1) by (intro exI[of _ s1] conjI r_into_rtranclp) simp_all
  next
    case False
    then obtain s2 where "holder_step\<^sup>*\<^sup>* s1 s2" "vpc s2 = V_wait" "t_lock s2 = None"
      using less.hyps[OF s1(4)] less.prems s1 by auto
    then show ?thesis using h by (intro exI[of _ s2] conjI converse_rtranclp_into_rtranclp[of holder_step s s1 s2])
  qed
qed

text \<open>(C28) A victim whose return collided with a thief never waits in vain: from every reachable state, the
  steps of the thief that holds the lock and of the victim itself lead to the decision, back to the
  program or to the scheduling loop.\<close>

theorem the_return_decided:
  assumes "the_reachable s" "vpc s = V_wait"
  shows "\<exists>s'. holder_step\<^sup>*\<^sup>* s s' \<and> (vpc s' = V_run \<or> vpc s' = V_lost)"
proof -
  have li: "lock_inv s" using the_reachable_inv[OF assms(1)] by (simp add: the_inv_def)
  have "\<exists>s'. holder_step\<^sup>*\<^sup>* s s' \<and> vpc s' = V_wait \<and> t_lock s' = None"
  proof (cases "t_lock s")
    case None
    then show ?thesis using assms(2) by blast
  next
    case (Some h)
    then obtain i where "t_lock s = Some (Thief i)" using li assms(2) by (cases h) (auto simp: lock_inv_def)
    then show ?thesis using li assms(2) by (intro holder_unlocks) (auto simp: lock_inv_def)
  qed
  then obtain s1 where s1: "holder_step\<^sup>*\<^sup>* s s1" "vpc s1 = V_wait" "t_lock s1 = None" by blast
  let ?s2 = "s1\<lparr>t_lock := Some Victim, vpc := V_locked\<rparr>"
  have "victim_step s1 ?s2" by (rule lock_self) (use s1 in simp_all)
  then have "holder_step\<^sup>*\<^sup>* s ?s2" by (rule holder_victim[OF s1(1)])
  moreover have "victim_step ?s2 (?s2\<lparr>t_exc := t_head ?s2, vpc := V_reset\<rparr>)" by (rule reset_exc) simp
  ultimately have "holder_step\<^sup>*\<^sup>* s (?s2\<lparr>t_exc := t_head ?s2, vpc := V_reset\<rparr>)" by (rule holder_victim)
  then obtain s3 where s3: "holder_step\<^sup>*\<^sup>* s s3" "vpc s3 = V_reset" by (rule that) simp
  obtain s4 where "victim_step s3 s4" "vpc s4 = V_run \<or> vpc s4 = V_lost"
    using that[OF go_on[OF s3(2)]] that[OF give_up[OF s3(2)]] by (cases "t_head s3 \<le> t_tail s3") simp_all
  then show ?thesis using holder_victim[OF s3(1)] by (intro exI[of _ s4]) simp
qed

lemma the_return_decided_witness: "\<exists>s'. holder_step\<^sup>*\<^sup>* race_wait s' \<and> (vpc s' = V_run \<or> vpc s' = V_lost)"
  by (rule the_return_decided[OF race_wait_reachable]) (simp add: race_wait_def)

section \<open>The handlers follow the protocol\<close>

text \<open>The pointers of a worker are those of the protocol's state.\<close>

definition at_state :: "worker_id \<Rightarrow> ('v, 'a) sched_state_scheme \<Rightarrow> the_state \<Rightarrow> bool" where
  "at_state w s p \<longleftrightarrow> head (workers s w) = t_head p \<and> tail (workers s w) = t_tail p \<and> exc (workers s w) = t_exc p"

lemma steps_trans [trans]: "r\<^sup>*\<^sup>* a b \<Longrightarrow> r b c \<Longrightarrow> r\<^sup>*\<^sup>* a c"
  by (rule rtranclp.rtrancl_into_rtrancl)

text \<open>(C29) \<open>do_dekker_on\<close>, run by a thief that holds the locks of the victim's deque and of its running
  closure, always returns, and its effect on \<open>exc\<close> and its result are those of the protocol's steps:
  announce, compare, and withdraw on failure.\<close>

theorem dekker_follows_protocol:
  assumes "closures s cl = Some c" "mutex_owner c = w" "status c = CLOSURE_RUNNING"
    and exc: "exc (workers s victim) + 1 < EXCEPTION_INFINITY"
    and p: "at_state victim s p" "tpc p i = T_locked" "running p"
  shows "\<exists>ok s' p'. do_dekker_on w victim cl s = Inr (ok, s') \<and> (ok \<longleftrightarrow> head (workers s victim) < tail (workers s victim)) \<and>
     (thief_step i)\<^sup>*\<^sup>* p p' \<and> at_state victim s' p' \<and> tpc p' i = (if ok then T_won else T_unlock) \<and> t_lock p' = t_lock p"
proof -
  let ?v = "workers s victim" and ?p1 = "p\<lparr>t_exc := t_exc p + 1, tpc := (tpc p)(i := T_raised)\<rparr>"
  have 1: "(thief_step i)\<^sup>*\<^sup>* p ?p1" using raise_exc[OF p(2,3)] by (rule r_into_rtranclp)
  show ?thesis
  proof (cases "head ?v < tail ?v")
    case True
    let ?s' = "s\<lparr>workers := (workers s)(victim := ?v\<lparr>exc := exc ?v + 1\<rparr>)\<rparr>"
    have "do_dekker_on w victim cl s = Inr (True, ?s')" using assms(1-3) exc True
      by (simp add: do_dekker_on_def increment_exception_pointer_def act_flat_run cong: run_cong)
    moreover have "thief_step i ?p1 (?p1\<lparr>tpc := (tpc ?p1)(i := T_won)\<rparr>)"
      using True p(1) by (intro dekker_wins) (simp_all add: at_state_def)
    ultimately show ?thesis using True p(1) steps_trans[OF 1]
      by (intro exI[of _ True] exI[of _ ?s'] exI[of _ "?p1\<lparr>tpc := (tpc ?p1)(i := T_won)\<rparr>"]) (simp add: at_state_def)
  next
    case False
    have "do_dekker_on w victim cl s = Inr (False, s\<lparr>workers := (workers s)(victim := ?v\<lparr>exc := exc ?v\<rparr>)\<rparr>)" using assms(1-3) exc False
      by (simp add: do_dekker_on_def increment_exception_pointer_def decrement_exception_pointer_def act_flat_run cong: run_cong)
    then have run: "do_dekker_on w victim cl s = Inr (False, s)" by simp
    let ?p2 = "?p1\<lparr>tpc := (tpc ?p1)(i := T_failed)\<rparr>"
    let ?p3 = "?p2\<lparr>t_exc := t_exc ?p2 - 1, tpc := (tpc ?p2)(i := T_unlock)\<rparr>"
    have "thief_step i ?p1 ?p2" using False p(1) by (intro dekker_fails) (simp_all add: at_state_def)
    moreover have "thief_step i ?p2 ?p3" by (rule lower_exc) simp
    ultimately have "(thief_step i)\<^sup>*\<^sup>* p ?p3" using steps_trans[OF steps_trans[OF 1]] by blast
    then show ?thesis using False p(1) run
      by (intro exI[of _ False] exI[of _ s] exI[of _ ?p3]) (simp add: at_state_def)
  qed
qed

lemma dekker_follows_protocol_witness:
  "\<exists>s' p'. do_dekker_on 1 0 7 (return_ex\<lparr>closures := [7 \<mapsto> return_ex_closure\<lparr>mutex_owner := 1\<rparr>]\<rparr>) = Inr (False, s') \<and>
     (thief_step 1)\<^sup>*\<^sup>* (the_start\<lparr>t_head := 1, t_tail := 1, t_exc := 1, tpc := (\<lambda>_. T_locked)\<rparr>) p' \<and> at_state 0 s' p' \<and> tpc p' 1 = T_unlock"
  using dekker_follows_protocol[of "return_ex\<lparr>closures := [7 \<mapsto> return_ex_closure\<lparr>mutex_owner := 1\<rparr>]\<rparr>" 7 "return_ex_closure\<lparr>mutex_owner := 1\<rparr>" 1 0
      "the_start\<lparr>t_head := 1, t_tail := 1, t_exc := 1, tpc := (\<lambda>_. T_locked)\<rparr>" 1]
  by (auto simp: return_ex_def return_ex_closure_def at_state_def the_start_def EXCEPTION_INFINITY_def)



end
