(* ===== verification/Reducer_Ids.thy ===== *)
theory Reducer_Ids
  imports Rts_Prelude
begin

unbundle bit_operations_syntax

text \<open>
  The manager of reducer ids (the first part of runtime/reducer_impl.c): a bitmap of 64-bit words
  with a hint where to look first.  Ids are \<open>uint32_t\<close>, the words of the bitmap \<open>unsigned long\<close>.
  The worker argument is \<open>None\<close> for a thread that is not a worker.
\<close>

section \<open>The manager\<close>

definition REDUCER_LIMIT :: "32 word" where "REDUCER_LIMIT = 1024"

definition GLOBAL_REDUCER_LIMIT :: "32 word" where "GLOBAL_REDUCER_LIMIT = 100"

record reducer_id_manager =
  rm_mutex :: cilk_mutex
  rm_owner :: worker_id
  id_cap :: "32 word"
  id_next :: "32 word"
  id_hwm :: "32 word"
  id_used :: "64 word list"
  id_global :: "addr option list option"

definition reducer_id_manager_assert_ownership :: "worker_id option \<Rightarrow> (reducer_id_manager, unit) act" where
  "reducer_id_manager_assert_ownership w =
     (case w of None \<Rightarrow> ret () | Some v \<Rightarrow> check (\<lambda>m. rm_owner m = v) (Assertion Reducer_impl_c 48))"

definition reducer_id_manager_lock :: "worker_id option \<Rightarrow> (reducer_id_manager, unit) act" where
  "reducer_id_manager_lock w =
     thenA (cilk_mutex_lock rm_mutex (\<lambda>b m. m\<lparr>rm_mutex := b\<rparr>))
           (modify (\<lambda>m. m\<lparr>rm_owner := (case w of None \<Rightarrow> NO_WORKER | Some v \<Rightarrow> v)\<rparr>))"

definition reducer_id_manager_unlock :: "worker_id option \<Rightarrow> (reducer_id_manager, unit) act" where
  "reducer_id_manager_unlock w =
     thenA (reducer_id_manager_assert_ownership w)
    (thenA (modify (\<lambda>m. m\<lparr>rm_owner := NO_WORKER\<rparr>))
           (cilk_mutex_unlock (\<lambda>b m. m\<lparr>rm_mutex := b\<rparr>)))"

definition init_reducer_id_manager :: "32 word \<Rightarrow> fault + reducer_id_manager" where
  "init_reducer_id_manager cap0 =
     (let cap = (cap0 + 64 - 1) div 64 * 64 in
      if \<not> (0 < cap \<and> cap < 9999999) then Inl (Assertion Reducer_impl_c 77)
      else Inr \<lparr>rm_mutex = False, rm_owner = 0, id_cap = cap, id_next = 0, id_hwm = 0,
                id_used = replicate (unat cap div 64) 0, id_global = None\<rparr>)"

section \<open>Allocating and freeing an id\<close>

text \<open>\<open>used[i]\<close>, read and written.\<close>

definition used_word :: "nat \<Rightarrow> (reducer_id_manager, 64 word) act" where
  "used_word i = thenA (check (\<lambda>m. i < length (id_used m)) Out_of_bounds) (gets (\<lambda>m. id_used m ! i))"

definition set_used_word :: "nat \<Rightarrow> 64 word \<Rightarrow> (reducer_id_manager, unit) act" where
  "set_used_word i u = thenA (check (\<lambda>m. i < length (id_used m)) Out_of_bounds)
     (modify (\<lambda>m. m\<lparr>id_used := (id_used m)[i := u]\<rparr>))"

text \<open>\<open>__builtin_ctzl\<close>: the number of trailing zero bits of a word that is not zero.\<close>

definition builtin_ctzl :: "64 word \<Rightarrow> nat" where
  "builtin_ctzl x = length (takeWhile (\<lambda>i. \<not> bit x i) [0..<64])"

text \<open>The search through the bitmap, \<open>n\<close> words from word \<open>i\<close> on.\<close>

primrec scan_used :: "nat \<Rightarrow> nat \<Rightarrow> (reducer_id_manager, 32 word) act" where
  "scan_used 0 i = ret (NOT 0)"
| "scan_used (Suc n) i =
     bindA (used_word i) (\<lambda>u.
       if NOT u \<noteq> 0 then
         (let index = builtin_ctzl (NOT u) in
          thenA (check (\<lambda>_. u AND push_bit index 1 = 0) (Assertion Reducer_impl_c 117))
         (thenA (set_used_word i (u OR push_bit index 1))
                (ret (of_nat i * 64 + of_nat index))))
       else scan_used n (Suc i))"

text \<open>The end of \<open>reducer_id_get\<close>: the hint and the high water mark move on.\<close>

definition finish_get :: "worker_id option \<Rightarrow> 32 word \<Rightarrow> (reducer_id_manager, 32 word) act" where
  "finish_get w i =
     thenA (modify (\<lambda>m. m\<lparr>id_next := (if id_cap m \<le> i + 1 then 0 else i + 1)\<rparr>))
    (thenA (modify (\<lambda>m. if id_hwm m \<le> i then m\<lparr>id_hwm := i + 1\<rparr> else m))
    (thenA (check (\<lambda>m. \<not> id_cap m \<le> i) (Bug Reducer_impl_c 129))
    (thenA (reducer_id_manager_unlock w)
           (ret i))))"

definition reducer_id_get :: "worker_id option \<Rightarrow> (reducer_id_manager, 32 word) act" where
  "reducer_id_get w =
     thenA (reducer_id_manager_lock w)
    (bindA (gets id_next) (\<lambda>id0.
     let mask = push_bit (unat (id0 mod 64)) 1; word = unat (id0 div 64) in
     bindA (used_word word) (\<lambda>u.
     bindA (if u AND mask = 0 then thenA (set_used_word word (u OR mask)) (ret id0)
            else bindA (gets id_cap) (\<lambda>cap. scan_used (unat (cap div 64)) 0)) (finish_get w))))"

definition reducer_id_free :: "worker_id option \<Rightarrow> 32 word \<Rightarrow> (reducer_id_manager, unit) act" where
  "reducer_id_free ws i =
     thenA (reducer_id_manager_lock ws)
    (thenA (check (\<lambda>m. i < id_cap m) (Assertion Reducer_impl_c 142))
    (bindA (used_word (unat (i div 64))) (\<lambda>u.
     thenA (check (\<lambda>_. u AND push_bit (unat (i mod 64)) 1 \<noteq> 0) (Assertion Reducer_impl_c 143))
    (thenA (set_used_word (unat (i div 64)) (u AND NOT (push_bit (unat (i mod 64)) 1)))
    (thenA (modify (\<lambda>m. m\<lparr>id_next := i\<rparr>))
    (thenA (modify (\<lambda>m. case id_global m of None \<Rightarrow> m
                        | Some g \<Rightarrow> if i < GLOBAL_REDUCER_LIMIT then m\<lparr>id_global := Some (g[unat i := None])\<rparr> else m))
           (reducer_id_manager_unlock ws)))))))"

section \<open>The ids in use\<close>

definition used_ids :: "reducer_id_manager \<Rightarrow> nat set" where
  "used_ids m = {i. i < 64 * length (id_used m) \<and> bit (id_used m ! (i div 64)) (i mod 64)}"

text \<open>What holds of a manager between operations.\<close>

definition ids_ok :: "reducer_id_manager \<Rightarrow> bool" where
  "ids_ok m \<longleftrightarrow> \<not> rm_mutex m \<and> 0 < id_cap m \<and> id_cap m < 9999999 \<and> unat (id_cap m) = 64 * length (id_used m) \<and>
     id_next m < id_cap m \<and> id_hwm m \<le> id_cap m \<and> (\<forall>i \<in> used_ids m. i < unat (id_hwm m)) \<and>
     (case id_global m of None \<Rightarrow> True | Some g \<Rightarrow> length g = 100)"

lemma mask_zero_iff: "(u :: 'a::len word) AND push_bit n 1 = 0 \<longleftrightarrow> \<not> bit u n"
  by (simp add: and_exp_eq_0_iff_not_bit)

lemma word_bit_index: "bit ((2 :: 64 word) ^ (i mod 64)) (j mod 64) \<longleftrightarrow> i mod 64 = j mod (64 :: nat)"
  by (auto simp: bit_simps)

lemma div_mod_same: "j div (64 :: nat) = i div 64 \<Longrightarrow> i mod 64 = j mod 64 \<longleftrightarrow> i = j"
  by (metis div_mult_mod_eq)

lemma used_ids_set:
  assumes "i < 64 * length (id_used m)"
  shows "used_ids (m\<lparr>id_used := (id_used m)[i div 64 := (id_used m ! (i div 64)) OR push_bit (i mod 64) 1]\<rparr>) = insert i (used_ids m)"
proof (rule set_eqI)
  fix j
  show "j \<in> used_ids (m\<lparr>id_used := (id_used m)[i div 64 := (id_used m ! (i div 64)) OR push_bit (i mod 64) 1]\<rparr>) \<longleftrightarrow> j \<in> insert i (used_ids m)"
    using assms by (cases "j div 64 = i div 64") (auto simp: used_ids_def bit_or_iff word_bit_index div_mod_same nth_list_update)
qed

lemma used_ids_clear:
  assumes "i < 64 * length (id_used m)"
  shows "used_ids (m\<lparr>id_used := (id_used m)[i div 64 := (id_used m ! (i div 64)) AND NOT (push_bit (i mod 64) 1)]\<rparr>) = used_ids m - {i}"
proof (rule set_eqI)
  fix j
  show "j \<in> used_ids (m\<lparr>id_used := (id_used m)[i div 64 := (id_used m ! (i div 64)) AND NOT (push_bit (i mod 64) 1)]\<rparr>) \<longleftrightarrow> j \<in> used_ids m - {i}"
    using assms by (cases "j div 64 = i div 64")
      (auto simp: used_ids_def bit_and_iff bit_not_iff word_bit_index div_mod_same nth_list_update possible_bit_def)
qed

lemma used_ids_fields [simp]:
  "used_ids (m\<lparr>rm_mutex := b\<rparr>) = used_ids m" "used_ids (m\<lparr>rm_owner := v\<rparr>) = used_ids m" "used_ids (m\<lparr>id_next := n\<rparr>) = used_ids m"
  "used_ids (m\<lparr>id_hwm := h\<rparr>) = used_ids m" "used_ids (m\<lparr>id_global := g\<rparr>) = used_ids m"
  by (simp_all add: used_ids_def)

lemma builtin_ctzl_first:
  assumes "x \<noteq> 0"
  shows "builtin_ctzl x < 64" "bit x (builtin_ctzl x)" "i < builtin_ctzl x \<Longrightarrow> \<not> bit x i"
proof -
  let ?k = "builtin_ctzl x"
  obtain j where j: "bit x j" "j < 64" using assms by (auto simp: bit_eq_iff possible_bit_def)
  show k: "?k < 64"
  proof (rule ccontr)
    assume "\<not> ?k < 64"
    then have "length (takeWhile (\<lambda>i. \<not> bit x i) [0..<64]) = length [0..<64]"
      using length_takeWhile_le[of "\<lambda>i. \<not> bit x i" "[0..<64]"] by (simp add: builtin_ctzl_def)
    then have "takeWhile (\<lambda>i. \<not> bit x i) [0..<64] = [0..<64]" by (metis takeWhile_eq_take take_all_iff order_refl)
    then have "\<forall>i \<in> set [0..<64]. \<not> bit x i" by (metis set_takeWhileD)
    then show False using j by simp
  qed
  show "bit x ?k" using nth_length_takeWhile[of "\<lambda>i. \<not> bit x i" "[0..<64]"] k by (simp add: builtin_ctzl_def)
  show "\<not> bit x i" if "i < ?k" for i
    using that k nth_mem[of i "takeWhile (\<lambda>i. \<not> bit x i) [0..<64]"] takeWhile_nth[of i "\<lambda>i. \<not> bit x i" "[0..<64]"] set_takeWhileD
    by (fastforce simp: builtin_ctzl_def)
qed


abbreviation with_id :: "nat \<Rightarrow> reducer_id_manager \<Rightarrow> reducer_id_manager" where
  "with_id k m \<equiv> m\<lparr>id_used := (id_used m)[k div 64 := (id_used m ! (k div 64)) OR push_bit (k mod 64) 1]\<rparr>"

lemma used_word_run [simp]:
  "i < length (id_used m) \<Longrightarrow> bindA (used_word i) f m = f (id_used m ! i) m"
  "i < length (id_used m) \<Longrightarrow> thenA (set_used_word i u) n m = n (m\<lparr>id_used := (id_used m)[i := u]\<rparr>)"
  by (simp_all add: used_word_def set_used_word_def act_flat_run)

text \<open>The search finds the least id that is free, or none.\<close>

lemma scan_used_run:
  assumes "i + n = length (id_used m)" "64 * length (id_used m) < 2 ^ 32" "{..<64 * i} \<subseteq> used_ids m"
  shows "used_ids m = {..<64 * length (id_used m)} \<and> scan_used n i m = Inr (NOT 0, m) \<or>
    (\<exists>k < 64 * length (id_used m). k \<notin> used_ids m \<and> {..<k} \<subseteq> used_ids m \<and> scan_used n i m = Inr (of_nat k, with_id k m))"
  using assms(1,3)
proof (induction n arbitrary: i)
  case 0
  then show ?case by (auto simp: used_ids_def)
next
  case (Suc n)
  let ?u = "id_used m ! i"
  have i: "i < length (id_used m)" using Suc.prems(1) by simp
  have in_word: "64 * i + j \<in> used_ids m \<longleftrightarrow> bit ?u j" if "j < 64" for j
    using that i by (auto simp: used_ids_def)
  show ?case
  proof (cases "NOT ?u = 0")
    case True
    have "bit ?u j" if "j < 64" for j using True that bit_not_iff[of ?u j] by (simp add: possible_bit_def)
    then have w: "j \<in> used_ids m" if "64 * i \<le> j" "j < 64 * i + 64" for j using in_word[of "j - 64 * i"] that by simp
    have "{..<64 * Suc i} \<subseteq> used_ids m"
    proof
      fix j assume "j \<in> {..<64 * Suc i}"
      then show "j \<in> used_ids m" using Suc.prems(2) w[of j] by (cases "j < 64 * i") auto
    qed
    note ih = Suc.IH[of "Suc i", OF _ this]
    have "scan_used (Suc n) i m = scan_used n (Suc i) m" using True i by simp
    with ih Suc.prems(1) show ?thesis by (simp only: add_Suc add_Suc_right)
  next
    case False
    let ?x = "builtin_ctzl (NOT ?u)" and ?k = "64 * i + builtin_ctzl (NOT ?u)"
    have x: "?x < 64" "\<not> bit ?u ?x" "\<And>j. j < ?x \<Longrightarrow> bit ?u j"
      using builtin_ctzl_first[OF False] by (auto simp: bit_not_iff)
    have k: "?k < 64 * length (id_used m)" "?k div 64 = i" "?k mod 64 = ?x" using i x(1) by auto
    have "{..<?k} \<subseteq> used_ids m"
    proof
      fix j assume "j \<in> {..<?k}"
      then show "j \<in> used_ids m"
        using Suc.prems(2) in_word[of "j - 64 * i"] x by (cases "j < 64 * i") auto
    qed
    moreover have "?k \<notin> used_ids m" using in_word x by simp
    moreover have "scan_used (Suc n) i m = Inr (of_nat ?k, with_id ?k m)"
      using False i x(1,2) by (simp add: Let_def k(2,3) mask_zero_iff[simplified] mult.commute)
    ultimately show ?thesis using k(1) by blast
  qed
qed


section \<open>Correctness\<close>

lemma id_lock_run [simp]:
  "\<not> rm_mutex m \<Longrightarrow> thenA (reducer_id_manager_lock w) n m =
     n (m\<lparr>rm_mutex := True, rm_owner := (case w of None \<Rightarrow> NO_WORKER | Some v \<Rightarrow> v)\<rparr>)"
  by (simp add: reducer_id_manager_lock_def act_flat_run) (simp add: thenA_def bindA_def cilk_mutex_lock_def)

lemma id_unlock_run [simp]:
  "(case w of None \<Rightarrow> True | Some v \<Rightarrow> rm_owner m = v) \<Longrightarrow>
     reducer_id_manager_unlock w m = Inr ((), m\<lparr>rm_owner := NO_WORKER, rm_mutex := False\<rparr>)"
  "(case w of None \<Rightarrow> True | Some v \<Rightarrow> rm_owner m = v) \<Longrightarrow>
     thenA (reducer_id_manager_unlock w) n m = n (m\<lparr>rm_owner := NO_WORKER, rm_mutex := False\<rparr>)"
  by (cases w; simp add: reducer_id_manager_unlock_def reducer_id_manager_assert_ownership_def act_flat_run;
      simp add: thenA_def bindA_def)+

text \<open>The id \<open>reducer_id_get\<close> gives out: the hint if it is free, else the least free id.\<close>

definition next_id :: "reducer_id_manager \<Rightarrow> nat" where
  "next_id m = (if unat (id_next m) \<notin> used_ids m then unat (id_next m) else (LEAST k. k \<notin> used_ids m))"

definition id_taken :: "nat \<Rightarrow> reducer_id_manager \<Rightarrow> reducer_id_manager" where
  "id_taken k m = (with_id k m)\<lparr>rm_owner := NO_WORKER, rm_mutex := False,
     id_next := (if id_cap m \<le> of_nat k + 1 then 0 else of_nat k + 1),
     id_hwm := (if id_hwm m \<le> of_nat k then of_nat k + 1 else id_hwm m)\<rparr>"

lemma ids_okD:
  assumes "ids_ok m"
  shows "\<not> rm_mutex m" "unat (id_cap m) = 64 * length (id_used m)" "unat (id_next m) < 64 * length (id_used m)"
    "64 * length (id_used m) < 9999999" "0 < length (id_used m)" "used_ids m \<subseteq> {..<64 * length (id_used m)}"
  using assms word_less_nat_alt[of "id_cap m" 9999999] word_less_nat_alt[of "id_next m" "id_cap m"] word_less_nat_alt[of 0 "id_cap m"]
  by (auto simp: ids_ok_def used_ids_def)

lemma next_id_free:
  assumes "ids_ok m" "used_ids m \<noteq> {..<unat (id_cap m)}"
  shows "next_id m \<notin> used_ids m" "next_id m < unat (id_cap m)"
proof -
  obtain k where k: "k \<notin> used_ids m" "k < unat (id_cap m)" using assms ids_okD[OF assms(1)] by auto
  have "(LEAST k. k \<notin> used_ids m) \<notin> used_ids m" "(LEAST k. k \<notin> used_ids m) \<le> k"
    using LeastI[of "\<lambda>k. k \<notin> used_ids m" k] Least_le[of "\<lambda>k. k \<notin> used_ids m" k] k(1) by auto
  then show "next_id m \<notin> used_ids m" "next_id m < unat (id_cap m)"
    using k ids_okD[OF assms(1)] by (auto simp: next_id_def)
qed

lemma finish_get_run:
  assumes "i < id_cap m" "rm_owner m = (case w of None \<Rightarrow> NO_WORKER | Some v \<Rightarrow> v)"
  shows "finish_get w i m = Inr (i, m\<lparr>rm_owner := NO_WORKER, rm_mutex := False,
     id_next := (if id_cap m \<le> i + 1 then 0 else i + 1), id_hwm := (if id_hwm m \<le> i then i + 1 else id_hwm m)\<rparr>)"
  using assms by (cases w; cases "id_hwm m \<le> i"; cases m) (auto simp: finish_get_def not_le)

lemma finish_get_full: "finish_get w (NOT 0) m = Inl (Bug Reducer_impl_c 129)"
  by (simp add: finish_get_def)

lemma reducer_id_get_run:
  assumes "ids_ok m"
  shows "reducer_id_get w m = (if used_ids m = {..<unat (id_cap m)} then Inl (Bug Reducer_impl_c 129)
    else Inr (of_nat (next_id m), id_taken (next_id m) m))"
proof -
  note ok = ids_okD[OF assms]
  let ?o = "case w of None \<Rightarrow> NO_WORKER | Some v \<Rightarrow> v" and ?n = "unat (id_next m)"
  let ?m = "m\<lparr>rm_mutex := True, rm_owner := ?o\<rparr>"
  have n: "?n div 64 < length (id_used m)" using ok(3) by simp
  have free: "?n \<in> used_ids m \<longleftrightarrow> bit (id_used m ! (?n div 64)) (?n mod 64)" using ok(3) by (simp add: used_ids_def)
  have ix: "unat (id_next m mod 64) = ?n mod 64" "unat (id_next m div 64) = ?n div 64" "unat (id_cap m div 64) = length (id_used m)"
    using ok(2) by (simp_all add: unat_mod_distrib unat_div_distrib)
  show ?thesis
  proof (cases "?n \<in> used_ids m")
    case False
    then have ne: "used_ids m \<noteq> {..<unat (id_cap m)}" using ok(2,3) by auto
    have lt: "id_next m < id_cap m" using ok(2,3) by (simp add: word_less_nat_alt)
    have id: "next_id m = ?n" using False by (simp add: next_id_def)
    show ?thesis using False free n ok(1) finish_get_run[of "id_next m" "with_id ?n ?m" w] lt ne
      by (simp add: reducer_id_get_def Let_def ix mask_zero_iff[simplified] act_flat_run id id_taken_def cong: run_cong)
  next
    case True
    have m: "used_ids ?m = used_ids m" "id_used ?m = id_used m" by simp_all
    have scan: "used_ids m = {..<64 * length (id_used m)} \<and> scan_used (length (id_used m)) 0 ?m = Inr (NOT 0, ?m) \<or>
      (\<exists>k < 64 * length (id_used m). k \<notin> used_ids m \<and> {..<k} \<subseteq> used_ids m \<and> scan_used (length (id_used m)) 0 ?m = Inr (of_nat k, with_id k ?m))"
      using scan_used_run[of 0 "length (id_used m)" ?m] ok(4) unfolding m by simp
    have run: "reducer_id_get w m = bindA (scan_used (length (id_used m)) 0) (finish_get w) ?m"
      using True free n ok(1) by (simp add: reducer_id_get_def Let_def ix mask_zero_iff[simplified] act_flat_run cong: run_cong)
    show ?thesis
    proof (cases "used_ids m = {..<unat (id_cap m)}")
      case True
      then have "scan_used (length (id_used m)) 0 ?m = Inr (NOT 0, ?m)" using scan ok(2) by auto
      then show ?thesis using True by (simp add: run run_bindA_Inr finish_get_full[simplified])
    next
      case False
      then obtain k where k: "k < 64 * length (id_used m)" "k \<notin> used_ids m" "{..<k} \<subseteq> used_ids m"
          "scan_used (length (id_used m)) 0 ?m = Inr (of_nat k, with_id k ?m)" using scan ok(2) by auto
      have "(LEAST k. k \<notin> used_ids m) = k" using k(2,3) by (intro Least_equality) (auto simp: not_less[symmetric])
      then have id: "next_id m = k" using True by (simp add: next_id_def)
      have "unat (of_nat k :: 32 word) = k" using k(1) ok(4) by (simp add: unat_of_nat)
      then have "of_nat k < id_cap m" using k(1) ok(2) by (simp add: word_less_nat_alt)
      then show ?thesis using False finish_get_run[of "of_nat k" "with_id k ?m" w]
        by (simp add: run bindA_def k(4) id id_taken_def)
    qed
  qed
qed


lemma unat_id: "ids_ok m \<Longrightarrow> k < unat (id_cap m) \<Longrightarrow> unat (of_nat k :: 32 word) = k"
  using ids_okD(2,4)[of m] by (simp add: unat_of_nat)

lemma id_taken_ok:
  assumes ok: "ids_ok m" and k: "k < unat (id_cap m)"
  shows "ids_ok (id_taken k m)" "used_ids (id_taken k m) = insert k (used_ids m)"
proof -
  note d = ids_okD[OF ok] and u = unat_id[OF ok k]
  have u1: "unat (of_nat k + 1 :: 32 word) = k + 1" using k d(2,4) u by (simp add: unat_word_ariths)
  show used: "used_ids (id_taken k m) = insert k (used_ids m)"
    using used_ids_set[of k m] k d(2) by (simp add: id_taken_def)
  have h: "unat (id_hwm (id_taken k m)) = max (unat (id_hwm m)) (k + 1)"
    using u u1 by (auto simp: id_taken_def word_le_nat_alt max_def)
  have "\<forall>i \<in> used_ids (id_taken k m). i < unat (id_hwm (id_taken k m))"
    unfolding used h using ok by (auto simp: ids_ok_def less_max_iff_disj)
  moreover have "id_hwm (id_taken k m) \<le> id_cap m"
    unfolding word_le_nat_alt h using ok k by (auto simp: ids_ok_def word_le_nat_alt)
  ultimately show "ids_ok (id_taken k m)"
    using ok unfolding ids_ok_def by (auto simp: id_taken_def not_le split: if_splits)
qed

definition id_freed :: "32 word \<Rightarrow> reducer_id_manager \<Rightarrow> reducer_id_manager" where
  "id_freed i m = m\<lparr>rm_owner := NO_WORKER, rm_mutex := False,
      id_used := (id_used m)[unat i div 64 := (id_used m ! (unat i div 64)) AND NOT (push_bit (unat i mod 64) 1)], id_next := i,
      id_global := map_option (\<lambda>g. if i < GLOBAL_REDUCER_LIMIT then g[unat i := None] else g) (id_global m)\<rparr>"

lemma reducer_id_free_run:
  assumes ok: "ids_ok m" and i: "i < id_cap m"
  shows "reducer_id_free w i m = (if unat i \<in> used_ids m
    then Inr ((), id_freed i m)
    else Inl (Assertion Reducer_impl_c 143))"
proof -
  note d = ids_okD[OF ok]
  have n: "unat i < 64 * length (id_used m)" using i d(2) by (simp add: word_less_nat_alt)
  then have n': "unat i div 64 < length (id_used m)" by simp
  have ix: "unat (i mod 64) = unat i mod 64" "unat (i div 64) = unat i div 64"
    by (simp_all add: unat_mod_distrib unat_div_distrib)
  show ?thesis
    using n n' i d(1) by (cases w; cases "id_global m"; cases m; cases "unat i \<in> used_ids m")
      (auto simp: reducer_id_free_def id_freed_def ix mask_zero_iff[simplified] used_ids_def)
qed


lemma id_freed_ok:
  assumes ok: "ids_ok m" and i: "i < id_cap m"
  shows "ids_ok (id_freed i m)" "used_ids (id_freed i m) = used_ids m - {unat i}" "id_next (id_freed i m) = i"
    "id_cap (id_freed i m) = id_cap m"
proof -
  have n: "unat i < 64 * length (id_used m)" using i ids_okD(2)[OF ok] by (simp add: word_less_nat_alt)
  show u: "used_ids (id_freed i m) = used_ids m - {unat i}" using used_ids_clear[OF n] by (simp add: id_freed_def used_ids_def)
  show "id_next (id_freed i m) = i" "id_cap (id_freed i m) = id_cap m" by (simp_all add: id_freed_def)
  show "ids_ok (id_freed i m)" using ok i u unfolding ids_ok_def by (auto simp: id_freed_def split: option.splits)
qed

section \<open>The contract of an id source\<close>

text \<open>A client that registers several hyperobjects calls \<open>get\<close> repeatedly, for several workers.\<close>

primrec get_all :: "('w \<Rightarrow> ('m, 'i) act) \<Rightarrow> 'w list \<Rightarrow> ('m, 'i list) act" where
  "get_all get [] = ret []"
| "get_all get (w # ws) = bindA (get w) (\<lambda>i. bindA (get_all get ws) (\<lambda>is. ret (i # is)))"

locale id_source =
  fixes get :: "'w \<Rightarrow> ('m, 'i) act" and free :: "'w \<Rightarrow> 'i \<Rightarrow> ('m, unit) act"
    and used :: "'m \<Rightarrow> 'i set" and ok :: "'m \<Rightarrow> bool" and cap :: "'m \<Rightarrow> nat"
  assumes get_fresh: "ok m \<Longrightarrow> card (used m) < cap m \<Longrightarrow>
      \<exists>i m'. get w m = Inr (i, m') \<and> i \<notin> used m \<and> used m' = insert i (used m) \<and> ok m' \<and> cap m' = cap m"
    and get_full: "ok m \<Longrightarrow> cap m \<le> card (used m) \<Longrightarrow> \<exists>e. get w m = Inl e"
    and free_used: "ok m \<Longrightarrow> i \<in> used m \<Longrightarrow> \<exists>m'. free w i m = Inr ((), m') \<and> used m' = used m - {i} \<and> ok m' \<and> cap m' = cap m"
    and free_unused: "ok m \<Longrightarrow> i \<notin> used m \<Longrightarrow> \<exists>e. free w i m = Inl e"
    and finite_used: "ok m \<Longrightarrow> finite (used m) \<and> card (used m) \<le> cap m"
begin

lemma get_all_fresh:
  assumes "ok m" "card (used m) + length ws \<le> cap m"
  shows "\<exists>is m'. get_all get ws m = Inr (is, m') \<and> length is = length ws \<and> distinct is \<and> set is \<inter> used m = {} \<and>
    used m' = used m \<union> set is \<and> ok m' \<and> cap m' = cap m"
  using assms
proof (induction ws arbitrary: m)
  case (Cons w ws)
  obtain i m1 where g: "get w m = Inr (i, m1)" "i \<notin> used m" "used m1 = insert i (used m)" "ok m1" "cap m1 = cap m"
    using get_fresh[of m w] Cons.prems by auto
  have "card (used m1) + length ws \<le> cap m1" using g Cons.prems finite_used[of m] by simp
  then obtain "is" m2 where r: "get_all get ws m1 = Inr (is, m2)" "length is = length ws" "distinct is" "set is \<inter> used m1 = {}"
      "used m2 = used m1 \<union> set is" "ok m2" "cap m2 = cap m1" using Cons.IH[OF g(4)] by blast
  have "get_all get (w # ws) m = Inr (i # is, m2)" by (simp add: bindA_def g(1) r(1))
  then show ?case using g r by (intro exI[of _ "i # is"] exI[of _ m2]) auto
qed simp

lemma get_all_exhausted:
  assumes "ok m" "cap m < card (used m) + length ws"
  shows "\<exists>e. get_all get ws m = Inl e"
  using assms
proof (induction ws arbitrary: m)
  case Nil
  then show ?case using finite_used[of m] by simp
next
  case (Cons w ws)
  show ?case
  proof (cases "card (used m) < cap m")
    case True
    obtain i m1 where g: "get w m = Inr (i, m1)" "i \<notin> used m" "used m1 = insert i (used m)" "ok m1" "cap m1 = cap m"
      using get_fresh[of m w] Cons.prems True by auto
    then obtain e where "get_all get ws m1 = Inl e" using Cons.IH[of m1] Cons.prems finite_used[of m] by auto
    then show ?thesis by (simp add: bindA_def g(1))
  next
    case False
    then obtain e where "get w m = Inl e" using get_full[of m w] Cons.prems by (auto simp: not_less)
    then show ?thesis by (simp add: bindA_def)
  qed
qed

end

lemma reducer_id_get_fresh:
  assumes ok: "ids_ok m" and c: "card (used_ids m) < unat (id_cap m)"
  shows "\<exists>i m'. reducer_id_get w m = Inr (i, m') \<and> unat i \<notin> used_ids m \<and> i < id_cap m \<and>
    used_ids m' = insert (unat i) (used_ids m) \<and> ids_ok m' \<and> id_cap m' = id_cap m"
proof -
  have ne: "used_ids m \<noteq> {..<unat (id_cap m)}" using c by (metis card_lessThan less_irrefl)
  note n = next_id_free[OF ok ne] and u = unat_id[OF ok next_id_free(2)[OF ok ne]]
  have g: "reducer_id_get w m = Inr (of_nat (next_id m), id_taken (next_id m) m)" using reducer_id_get_run[OF ok, of w] unfolding if_not_P[OF ne] .
  have lt: "of_nat (next_id m) < id_cap m" unfolding word_less_nat_alt u by (rule n(2))
  have cap: "id_cap (id_taken (next_id m) m) = id_cap m" by (simp add: id_taken_def)
  have "unat (of_nat (next_id m) :: 32 word) \<notin> used_ids m" "used_ids (id_taken (next_id m) m) = insert (unat (of_nat (next_id m) :: 32 word)) (used_ids m)"
    unfolding u using n(1) id_taken_ok(2)[OF ok n(2)] .
  with g lt id_taken_ok(1)[OF ok n(2)] cap show ?thesis by blast
qed

lemma used_ids_card:
  assumes "ids_ok m"
  shows "finite (used_ids m)" "card (used_ids m) \<le> unat (id_cap m)" "unat (id_cap m) \<le> card (used_ids m) \<Longrightarrow> used_ids m = {..<unat (id_cap m)}"
proof -
  have s: "used_ids m \<subseteq> {..<unat (id_cap m)}" using ids_okD(2,6)[OF assms] by simp
  show "finite (used_ids m)" by (rule finite_subset[OF s]) simp
  show "card (used_ids m) \<le> unat (id_cap m)" using card_mono[OF _ s] by simp
  show "used_ids m = {..<unat (id_cap m)}" if "unat (id_cap m) \<le> card (used_ids m)" using card_seteq[OF _ s] that by simp
qed

text \<open>The ids in use as machine words.\<close>

definition used_words :: "reducer_id_manager \<Rightarrow> 32 word set" where
  "used_words m = {i. unat i \<in> used_ids m}"

lemma used_words_image:
  assumes "ids_ok m"
  shows "used_ids m = unat ` used_words m" "card (used_words m) = card (used_ids m)" "finite (used_words m)"
proof -
  show i: "used_ids m = unat ` used_words m"
  proof (intro equalityI subsetI)
    fix k assume k: "k \<in> used_ids m"
    then have "unat (of_nat k :: 32 word) = k" using unat_id[OF assms] ids_okD(2,6)[OF assms] by auto
    then show "k \<in> unat ` used_words m" using k by (intro image_eqI[of _ _ "of_nat k"]) (simp_all only: used_words_def mem_Collect_eq)
  qed (auto simp: used_words_def)
  have j: "inj_on unat (used_words m)" by (simp add: inj_on_def word_unat_eq_iff)
  show "card (used_words m) = card (used_ids m)" unfolding i by (rule card_image[OF j, symmetric])
  show "finite (used_words m)" using finite_imageD[OF _ j] used_ids_card(1)[OF assms] i by simp
qed

lemma used_words_lt: "ids_ok m \<Longrightarrow> i \<in> used_words m \<Longrightarrow> i < id_cap m"
  using ids_okD(2,6)[of m] by (auto simp: used_words_def word_less_nat_alt)

lemma reducer_id_free_Inl:
  assumes "ids_ok m" "i \<notin> used_words m"
  shows "reducer_id_free w i m = Inl (Assertion Reducer_impl_c (if i < id_cap m then 143 else 142))"
proof (cases "i < id_cap m")
  case False
  then show ?thesis using ids_okD(1)[OF assms(1)] by (simp add: reducer_id_free_def)
qed (use assms reducer_id_free_run[OF assms(1)] in \<open>simp add: used_words_def\<close>)

lemma used_words_freed: "ids_ok m \<Longrightarrow> i < id_cap m \<Longrightarrow> used_words (id_freed i m) = used_words m - {i}"
  unfolding used_words_def id_freed_ok(2) by (auto simp: word_unat_eq_iff)

interpretation ids: id_source reducer_id_get reducer_id_free used_words ids_ok "\<lambda>m. unat (id_cap m)"
proof
  fix m w assume ok: "ids_ok m" and c: "card (used_words m) < unat (id_cap m)"
  have "card (used_ids m) < unat (id_cap m)" using c unfolding used_words_image(2)[OF ok] .
  then obtain i m' where g: "reducer_id_get w m = Inr (i, m')" "unat i \<notin> used_ids m" "used_ids m' = insert (unat i) (used_ids m)"
      "ids_ok m'" "id_cap m' = id_cap m" using reducer_id_get_fresh[OF ok, of w] by blast
  have "used_words m' = insert i (used_words m)" unfolding used_words_def g(3) by (auto simp: word_unat_eq_iff)
  with g show "\<exists>i m'. reducer_id_get w m = Inr (i, m') \<and> i \<notin> used_words m \<and> used_words m' = insert i (used_words m) \<and> ids_ok m' \<and>
      unat (id_cap m') = unat (id_cap m)"
    by (intro exI[of _ i] exI[of _ m']) (simp add: used_words_def)
next
  fix m w assume ok: "ids_ok m" and "unat (id_cap m) \<le> card (used_words m)"
  then show "\<exists>e. reducer_id_get w m = Inl e"
    using reducer_id_get_run[OF ok, of w] used_ids_card(3)[OF ok] used_words_image(2)[OF ok] by simp
next
  fix m w i assume ok: "ids_ok m" and i: "i \<in> used_words m"
  note lt = used_words_lt[OF ok i]
  have "reducer_id_free w i m = Inr ((), id_freed i m)" using reducer_id_free_run[OF ok lt, of w] i by (simp add: used_words_def)
  then show "\<exists>m'. reducer_id_free w i m = Inr ((), m') \<and> used_words m' = used_words m - {i} \<and> ids_ok m' \<and> unat (id_cap m') = unat (id_cap m)"
    using used_words_freed[OF ok lt] id_freed_ok(1,4)[OF ok lt] by metis
next
  fix m w i assume "ids_ok m" "i \<notin> used_words m"
  then show "\<exists>e. reducer_id_free w i m = Inl e" by (simp add: reducer_id_free_Inl)
next
  fix m assume ok: "ids_ok m"
  then show "finite (used_words m) \<and> card (used_words m) \<le> unat (id_cap m)"
    using used_words_image(2,3)[OF ok] used_ids_card(2)[OF ok] by simp
qed


section \<open>Properties\<close>


definition ids_ex :: reducer_id_manager where
  "ids_ex = \<lparr>rm_mutex = False, rm_owner = NO_WORKER, id_cap = 64, id_next = 1, id_hwm = 2, id_used = [2], id_global = None\<rparr>"

lemma ids_ex_ok: "ids_ok ids_ex" "used_ids ids_ex = {1}" "used_words ids_ex = {1}"
proof -
  show u: "used_ids ids_ex = {1}"
    by (auto simp: used_ids_def ids_ex_def bit_iff_odd)
       (metis bit_iff_odd bit_2_iff less_one nat_neq_iff not_less_eq numeral_2_eq_2 One_nat_def)
  show "ids_ok ids_ex" using u by (simp add: ids_ok_def ids_ex_def)
  show "used_words ids_ex = {1}" unfolding used_words_def u by (auto simp: word_unat_eq_iff)
qed


text \<open>
  Reuse of reducer ids (C18): freeing an id that is in use removes it from the bitmap, and the next
  registration, by whichever worker, gets that same id back; afterwards the set of ids in use is the
  one before.  Freeing an id that is not in use fails one of the two assertions of \<open>reducer_id_free\<close>.
\<close>

theorem reducer_id_reuse:
  assumes "ids_ok m"
  shows "if i \<in> used_words m
    then \<exists>m' m''. reducer_id_free w i m = Inr ((), m') \<and> used_words m' = used_words m - {i} \<and>
      reducer_id_get v m' = Inr (i, m'') \<and> used_words m'' = used_words m \<and> ids_ok m' \<and> ids_ok m''
    else reducer_id_free w i m = Inl (Assertion Reducer_impl_c (if i < id_cap m then 143 else 142))"
proof (cases "i \<in> used_words m")
  case True
  note lt = used_words_lt[OF assms True] and f = id_freed_ok[OF assms used_words_lt[OF assms True]]
  have i: "unat i \<in> used_ids m" using True by (simp add: used_words_def)
  have n: "next_id (id_freed i m) = unat i" using f by (simp add: next_id_def)
  have "unat i < unat (id_cap (id_freed i m))" using lt f(4) by (simp add: word_less_nat_alt)
  note t = id_taken_ok[OF f(1) this]
  have "used_ids (id_freed i m) \<noteq> {..<unat (id_cap (id_freed i m))}" using f(2,4) lt by (auto simp: word_less_nat_alt)
  then have "reducer_id_get v (id_freed i m) = Inr (i, id_taken (unat i) (id_freed i m))"
    using reducer_id_get_run[OF f(1), of v] n by simp
  moreover have "used_words (id_taken (unat i) (id_freed i m)) = used_words m" unfolding used_words_def t(2) f(2) using i by auto
  moreover note used_words_freed[OF assms lt]
  ultimately show ?thesis unfolding if_P[OF True] using reducer_id_free_run[OF assms lt, of w] i f(1) t(1) by auto
qed (use reducer_id_free_Inl[OF assms] in simp)

theorem reducer_id_reuse_witness:
  "\<exists>m' m''. reducer_id_free (Some 0) 1 ids_ex = Inr ((), m') \<and> used_words m' = {} \<and>
     reducer_id_get (Some 1) m' = Inr (1, m'') \<and> used_words m'' = {1}"
  using reducer_id_reuse[OF ids_ex_ok(1), of 1 "Some 0" "Some 1"] unfolding ids_ex_ok(3) by auto

lemma round_up_unat:
  fixes c :: "32 word"
  shows "unat ((c + 64 - 1) div 64 * 64) = (unat c + 63) mod 2 ^ 32 div 64 * 64"
proof -
  have e: "c + 64 - 1 = c + 63" by simp
  have a: "unat (c + 63) = (unat c + 63) mod 2 ^ 32" by (simp add: unat_word_ariths)
  have d: "unat ((c + 63) div 64) = (unat c + 63) mod 2 ^ 32 div 64" by (simp add: unat_div_distrib a)
  have "(unat c + 63) mod 2 ^ 32 div 64 * 64 < 2 ^ 32" by (rule le_less_trans[OF div_times_less_eq_dividend]) simp
  then show ?thesis unfolding e unat_word_ariths(2) d by (simp add: mod_less)
qed

lemma round_up_range: "0 < (n + 63) div 64 * 64 \<and> (n + 63) div 64 * 64 < 9999999 \<longleftrightarrow> 0 < n \<and> n \<le> (9999936 :: nat)"
proof (cases "n \<le> 9999936")
  case True
  then have "(n + 63) div 64 \<le> (9999936 + 63) div 64" by (intro div_le_mono) simp
  then show ?thesis using True by (cases n) auto
next
  case False
  then have "(9999937 + 63) div 64 \<le> (n + 63) div 64" by (intro div_le_mono) simp
  then show ?thesis using False by simp
qed

lemma init_ids_run:
  "init_reducer_id_manager c = (if 0 < unat c \<and> unat c \<le> 9999936
    then Inr \<lparr>rm_mutex = False, rm_owner = 0, id_cap = (c + 64 - 1) div 64 * 64, id_next = 0, id_hwm = 0,
                id_used = replicate (unat ((c + 64 - 1) div 64 * 64) div 64) 0, id_global = None\<rparr>
    else Inl (Assertion Reducer_impl_c 77))"
proof -
  have "0 < (c + 64 - 1) div 64 * 64 \<and> (c + 64 - 1) div 64 * 64 < 9999999 \<longleftrightarrow> 0 < unat c \<and> unat c \<le> 9999936"
  proof -
    have n: "unat c < 2 ^ 32" using unsigned_less[of c] by simp
    have "0 < (unat c + 63) mod 2 ^ 32 div 64 * 64 \<and> (unat c + 63) mod 2 ^ 32 div 64 * 64 < 9999999 \<longleftrightarrow> 0 < unat c \<and> unat c \<le> 9999936"
    proof (cases "unat c + 63 < 2 ^ 32")
      case False
      then have "(unat c + 63) mod 2 ^ 32 = unat c + 63 - 2 ^ 32" using n by (simp add: mod_if)
      then show ?thesis using n False by simp
    next
      case True
      then have m: "(unat c + 63) mod 2 ^ 32 = unat c + 63" by simp
      show ?thesis unfolding m by (rule round_up_range)
    qed
    then show ?thesis unfolding word_less_nat_alt round_up_unat by simp
  qed
  then show ?thesis unfolding init_reducer_id_manager_def Let_def by (simp only: if_not_P if_P not_not split: if_split) blast
qed

text \<open>
  Capacity of the manager (C19): \<open>init_reducer_id_manager\<close> rounds the capacity up to whole 64-bit words.
  It gives a manager in a consistent state with no id in use and between 0 and 63 more ids than
  asked for, exactly for capacities from 1 to 9999936; every other value fails its assertion, also
  the largest ones, for which the 32-bit sum wraps around.
\<close>

theorem init_ids_capacity:
  "case init_reducer_id_manager c of
     Inl e \<Rightarrow> e = Assertion Reducer_impl_c 77 \<and> (c = 0 \<or> 9999936 < unat c)
   | Inr m \<Rightarrow> ids_ok m \<and> used_ids m = {} \<and> unat c \<le> unat (id_cap m) \<and> unat (id_cap m) < unat c + 64 \<and> 0 < unat c \<and> unat c \<le> 9999936"
proof (cases "0 < unat c \<and> unat c \<le> 9999936")
  case False
  then show ?thesis by (auto simp: init_ids_run unat_eq_0)
next
  case True
  let ?m = "\<lparr>rm_mutex = False, rm_owner = 0, id_cap = (c + 64 - 1) div 64 * 64, id_next = 0, id_hwm = 0,
                id_used = replicate (unat ((c + 64 - 1) div 64 * 64) div 64) 0, id_global = None\<rparr>"
  have u: "unat (id_cap ?m) = (unat c + 63) div 64 * 64" using True by (simp only: reducer_id_manager.simps round_up_unat) simp
  have e: "used_ids ?m = {}" by (auto simp: used_ids_def)
  have "64 * length (id_used ?m) = unat (id_cap ?m)" by (simp only: reducer_id_manager.simps length_replicate round_up_unat) simp
  moreover have "0 < id_cap ?m \<and> id_cap ?m < 9999999" unfolding word_less_nat_alt u using True round_up_range[of "unat c"] by simp
  ultimately have "ids_ok ?m" using e by (simp add: ids_ok_def)
  moreover have "unat c \<le> (unat c + 63) div 64 * 64 \<and> (unat c + 63) div 64 * 64 < unat c + 64" by presburger
  ultimately show ?thesis using True e u by (simp add: init_ids_run)
qed

end
