(* ===== verification/Hyperobjects.thy ===== *)
theory Hyperobjects
  imports Return_Correct Reducer_Ids
begin

unbundle bit_operations_syntax

text \<open>
  Hyperobjects as the user's program sees them (the second part of runtime/reducer_impl.c): they are
  registered under an id, looked up in the reducer map of the worker that runs the program, and
  unregistered.  The argument \<open>tls\<close> is the worker of the calling thread, \<open>None\<close> when it is not a
  worker; \<open>exit_worker\<close> is \<open>my_cilkrts->workers[my_cilkrts->exiting_worker]\<close>.
  The pointer to a view that a lookup returns is \<open>View h i\<close>, entry \<open>i\<close> of the map at \<open>h\<close>, whose content
  the program reads and writes, or the leftmost view inside the hyperobject itself.
\<close>

section \<open>State\<close>

record 'v hyper_state = "'v sched_state" +
  id_manager :: "reducer_id_manager option"
  exit_worker :: "worker_id option"
  force_reduce :: bool

datatype view_ref = View addr nat | Leftmost addr

definition lift_ids :: "(reducer_id_manager, 'b) act \<Rightarrow> (('v, 'a) hyper_state_scheme, 'b) act" where
  "lift_ids f s = (case id_manager s of None \<Rightarrow> Inl Null_pointer
     | Some m \<Rightarrow> (case f m of Inl e \<Rightarrow> Inl e | Inr (x, m') \<Rightarrow> Inr (x, s\<lparr>id_manager := Some m'\<rparr>)))"

definition get_hyper :: "addr \<Rightarrow> (('v, 'a) hyper_state_scheme, 'v hyperobject) act" where
  "get_hyper key = bindA (gets (\<lambda>s. hyperobjs s key)) derefA"

definition set_id_num :: "addr \<Rightarrow> 32 word \<Rightarrow> (('v, 'a) hyper_state_scheme, unit) act" where
  "set_id_num key i = bindA (get_hyper key) (\<lambda>h. modify (\<lambda>s. s\<lparr>hyperobjs := (hyperobjs s)(key \<mapsto> h\<lparr>id_num := i\<rparr>)\<rparr>))"

definition get_rmap :: "addr \<Rightarrow> (('v, 'a) hyper_state_scheme, 'v cilkred_map) act" where
  "get_rmap h = bindA (gets (\<lambda>s. rmaps s h)) derefA"

text \<open>An operation of cilkred_map.c on the map at \<open>h\<close>.\<close>

definition on_rmap :: "addr \<Rightarrow> ('v cilkred_map \<Rightarrow> fault + 'v cilkred_map) \<Rightarrow> (('v, 'a) hyper_state_scheme, unit) act" where
  "on_rmap h f = bindA (get_rmap h) (\<lambda>m. case f m of Inl e \<Rightarrow> fail e | Inr m' \<Rightarrow> modify (\<lambda>s. s\<lparr>rmaps := (rmaps s)(h \<mapsto> m')\<rparr>))"

text \<open>\<open>vinfo->key = key; vinfo->val = val;\<close> followed by \<open>cilkred_map_log_id\<close>.\<close>

definition add_view :: "addr \<Rightarrow> nat \<Rightarrow> addr \<Rightarrow> 'v \<Rightarrow> (('v, 'a) hyper_state_scheme, unit) act" where
  "add_view h i key x =
     bindA (get_rmap h) (\<lambda>m.
     thenA (check (\<lambda>_. i < length (vinfo m)) Out_of_bounds)
           (on_rmap h (\<lambda>m. cilkred_map_log_id (upd_view i \<lparr>vi_val = Some x, vi_key = Some key\<rparr> m) i)))"

section \<open>Start and end of the runtime\<close>

definition reducers_init :: "(('v, 'a) hyper_state_scheme, unit) act" where
  "reducers_init s = (case id_manager s of Some _ \<Rightarrow> Inr ((), s)
     | None \<Rightarrow> (case init_reducer_id_manager REDUCER_LIMIT of Inl e \<Rightarrow> Inl e | Inr m \<Rightarrow> Inr ((), s\<lparr>id_manager := Some m\<rparr>)))"

definition reducers_deinit :: "(('v, 'a) hyper_state_scheme, unit) act" where
  "reducers_deinit s = (case id_manager s of None \<Rightarrow> Inl Null_pointer | Some _ \<Rightarrow> Inr ((), s\<lparr>id_manager := None\<rparr>))"

text \<open>One iteration of the loop of \<open>reducers_import\<close>; \<open>h->__id_num\<close> is read whether or not \<open>h\<close> is null.\<close>

definition import_one :: "reducer_id_manager \<Rightarrow> addr \<Rightarrow> nat \<Rightarrow> (('v, 'a) hyper_state_scheme, unit) act" where
  "import_one m mp i =
     bindA (derefA (id_global m)) (\<lambda>g.
     thenA (check (\<lambda>_. i < length g) Out_of_bounds)
    (thenA (case g ! i of None \<Rightarrow> ret ()
            | Some h \<Rightarrow> bindA (get_hyper h) (\<lambda>k. bindA (get_rmap mp) (\<lambda>r.
                thenA (check (\<lambda>_. i < length (vinfo r)) Out_of_bounds)
                      (on_rmap mp (\<lambda>r. Inr (upd_view i \<lparr>vi_val = Some (leftmost_view k), vi_key = Some h\<rparr> r))))))
    (bindA (derefA (g ! i)) (\<lambda>h.
     bindA (get_hyper h) (\<lambda>k.
     thenA (check (\<lambda>_. id_num k AND HYPER_ID_VALID \<noteq> 0) (Assertion Reducer_impl_c 186))
           (on_rmap mp (\<lambda>r. cilkred_map_log_id r (unat (id_num k AND NOT HYPER_ID_VALID)))))))))"

definition reducers_import :: "worker_id \<Rightarrow> (('v, 'a) hyper_state_scheme, unit) act" where
  "reducers_import w =
     bindA (gets id_manager) (\<lambda>mm.
     thenA (check (\<lambda>_. mm \<noteq> None) (Assertion Reducer_impl_c 173))
    (bindA (derefA mm) (\<lambda>m.
       if id_hwm m = 0 then ret ()
       else
         bindA (cilkred_map_make_map w (unat (id_cap m))) (\<lambda>mp.
         thenA (forA [0..<unat (id_hwm m)] (import_one m mp))
               (modify (\<lambda>s. s\<lparr>wrmap := (wrmap s)(w \<mapsto> mp)\<rparr>))))))"

section \<open>Operations of the user's program\<close>

definition install_new_reducer_map :: "worker_id \<Rightarrow> (('v, 'a) hyper_state_scheme, addr) act" where
  "install_new_reducer_map w =
     bindA (lift_ids (gets id_cap)) (\<lambda>cap.
     bindA (cilkred_map_make_map w (unat cap)) (\<lambda>h.
     thenA (modify (\<lambda>s. s\<lparr>wrmap := (wrmap s)(w \<mapsto> h)\<rparr>))
           (ret h)))"

definition current_map :: "worker_id \<Rightarrow> (('v, 'a) hyper_state_scheme, addr) act" where
  "current_map w = bindA (gets (\<lambda>s. wrmap s w)) (\<lambda>hp. case hp of None \<Rightarrow> install_new_reducer_map w | Some h \<Rightarrow> ret h)"

definition or_exiting :: "worker_id option \<Rightarrow> (('v, 'a) hyper_state_scheme, worker_id option) act" where
  "or_exiting tls = (case tls of Some w \<Rightarrow> ret (Some w) | None \<Rightarrow> gets exit_worker)"

definition hyper_destroy :: "worker_id option \<Rightarrow> addr \<Rightarrow> (('v, 'a) hyper_state_scheme, unit) act" where
  "hyper_destroy tls key =
     bindA (or_exiting tls) (\<lambda>wp.
     bindA (get_hyper key) (\<lambda>k.
     thenA (check (\<lambda>_. id_num k AND HYPER_ID_VALID \<noteq> 0) (Bug Reducer_impl_c 223))
    (let i = id_num k AND NOT HYPER_ID_VALID in
     thenA (set_id_num key i)
    (thenA (case wp of None \<Rightarrow> ret ()
            | Some w \<Rightarrow> bindA (gets (\<lambda>s. wrmap s w)) (\<lambda>hp.
                case hp of None \<Rightarrow> fail (Bug Reducer_impl_c 237)
                | Some h \<Rightarrow> bindA (get_rmap h) (\<lambda>m.
                    thenA (check (\<lambda>_. \<not> merging m) (Bug Reducer_impl_c 239))
                          (on_rmap h (\<lambda>m. cilkred_map_unlog_id m (unat i))))))
           (lift_ids (reducer_id_free wp i))))))"

definition hyper_create :: "worker_id option \<Rightarrow> addr \<Rightarrow> (('v, 'a) hyper_state_scheme, unit) act" where
  "hyper_create tls key =
     bindA (or_exiting tls) (\<lambda>wp.
     bindA (lift_ids (reducer_id_get wp)) (\<lambda>i.
     thenA (set_id_num key (i OR HYPER_ID_VALID))
    (case wp of
       None \<Rightarrow>
         if GLOBAL_REDUCER_LIMIT \<le> i then fail (Bug Reducer_impl_c 269)
         else lift_ids (modify (\<lambda>m. m\<lparr>id_global :=
                Some ((case id_global m of None \<Rightarrow> replicate (unat GLOBAL_REDUCER_LIMIT) None | Some g \<Rightarrow> g)[unat i := Some key])\<rparr>))
     | Some w \<Rightarrow>
         bindA (current_map w) (\<lambda>h.
         bindA (get_rmap h) (\<lambda>m.
         bindA (get_hyper key) (\<lambda>k.
         thenA (check (\<lambda>_. cilkred_map_lookup m (id_num k) = None) (Assertion Reducer_impl_c 285))
        (thenA (check (\<lambda>_. \<not> merging m) (Bug Reducer_impl_c 288))
        (thenA (check (\<lambda>s. wrmap s w = Some h) (Assertion Reducer_impl_c 290))
               (add_view h (unat i) key (leftmost_view k))))))))))"

definition hyper_lookup :: "nat \<Rightarrow> worker_id option \<Rightarrow> addr \<Rightarrow> (('v, 'a) hyper_state_scheme, view_ref) act" where
  "hyper_lookup n tls key =
     bindA (get_hyper key) (\<lambda>k.
     thenA (check (\<lambda>_. id_num k AND HYPER_ID_VALID \<noteq> 0) (Bug Reducer_impl_c 307))
    (let i = unat (id_num k AND NOT HYPER_ID_VALID) in
     case tls of None \<Rightarrow> ret (Leftmost key)
     | Some w \<Rightarrow>
         bindA (gets force_reduce) (\<lambda>fr.
         thenA (whenA fr (thenA (check (\<lambda>s. nworkers s = 1) (Assertion Reducer_impl_c 320)) (promote_own_deque n w)))
        (bindA (current_map w) (\<lambda>h.
         bindA (get_rmap h) (\<lambda>m.
         thenA (check (\<lambda>_. \<not> merging m) (Bug Reducer_impl_c 331))
        (case cilkred_map_lookup m (id_num k) of
           Some j \<Rightarrow> ret (View h j)
         | None \<Rightarrow>
             thenA (check (\<lambda>_. i < spa_cap m) (Assertion Reducer_impl_c 335))
            (thenA (check (\<lambda>_. vi_key (vinfo m ! i) = None \<and> vi_val (vinfo m ! i) = None) (Assertion Reducer_impl_c 337))
            (thenA (add_view h i key (identity_fn k))
                   (ret (View h i)))))))))))"

definition hyper_alloc :: "worker_id option \<Rightarrow> nat \<Rightarrow> (('v, 'a) hyper_state_scheme, addr) act" where
  "hyper_alloc tls bytes = bindA (or_exiting tls) (\<lambda>wp. bindA (derefA wp) (\<lambda>w. cilk_internal_malloc w bytes IM_REDUCER_MAP))"

definition hyper_dealloc :: "worker_id option \<Rightarrow> nat \<Rightarrow> addr \<Rightarrow> (('v, 'a) hyper_state_scheme, unit) act" where
  "hyper_dealloc tls view_size view =
     bindA (or_exiting tls) (\<lambda>wp. bindA (derefA wp) (\<lambda>w. cilk_internal_free w view view_size IM_REDUCER_MAP))"


section \<open>Running the operations\<close>

lemma get_hyper_run [simp]:
  "hyperobjs s key = Some k \<Longrightarrow> bindA (get_hyper key) f s = f k s"
  "hyperobjs s key = Some k \<Longrightarrow> thenA (set_id_num key i) n s = n (s\<lparr>hyperobjs := (hyperobjs s)(key \<mapsto> k\<lparr>id_num := i\<rparr>)\<rparr>)"
  by (simp_all add: get_hyper_def set_id_num_def act_flat_run)

lemma rmap_run [simp]:
  "rmaps s h = Some m \<Longrightarrow> bindA (get_rmap h) f s = f m s"
  "rmaps s h = Some m \<Longrightarrow> g m = Inr m' \<Longrightarrow> thenA (on_rmap h g) n s = n (s\<lparr>rmaps := (rmaps s)(h \<mapsto> m')\<rparr>)"
  "rmaps s h = Some m \<Longrightarrow> g m = Inr m' \<Longrightarrow> on_rmap h g s = Inr ((), s\<lparr>rmaps := (rmaps s)(h \<mapsto> m')\<rparr>)"
  "wrmap s w = Some h \<Longrightarrow> bindA (current_map w) f' s = f' h s"
  by (simp_all add: get_rmap_def on_rmap_def current_map_def act_flat_run)

lemma lift_ids_run:
  "id_manager s = Some m \<Longrightarrow> f m = Inr (x, m') \<Longrightarrow> bindA (lift_ids f) g s = g x (s\<lparr>id_manager := Some m'\<rparr>)"
  by (simp add: lift_ids_def bindA_def)

lemma or_exiting_run [simp]: "bindA (or_exiting (Some w)) f s = f (Some w) s"
  by (simp add: or_exiting_def)

lemma add_view_run:
  assumes h: "rmaps s h = Some m" and m: "map_ok m" "i < spa_cap m" "views m i = None"
  obtains m' where "add_view h i key x s = Inr ((), s\<lparr>rmaps := (rmaps s)(h \<mapsto> m')\<rparr>)"
    "map_ok m'" "views m' = (views m)(i \<mapsto> (key, x))" "spa_cap m' = spa_cap m" "merging m' = merging m"
proof -
  obtain m' where m': "cilkred_map_log_id (upd_view i \<lparr>vi_val = Some x, vi_key = Some key\<rparr> m) i = Inr m'" "map_ok m'"
      "views m' = (views m)(i \<mapsto> (key, x))" "spa_cap m' = spa_cap m" "merging m' = merging m"
    using map_ok_add[OF m, of "\<lparr>vi_val = Some x, vi_key = Some key\<rparr>" key x] by auto
  have "add_view h i key x s = Inr ((), s\<lparr>rmaps := (rmaps s)(h \<mapsto> m')\<rparr>)"
    using h m'(1) map_okD(1)[OF m(1)] m(2) by (simp add: add_view_def)
  then show thesis using m' by (intro that[of m']) simp_all
qed

lemma lookup_index:
  assumes "map_ok m" "i AND HYPER_ID_VALID \<noteq> 0" "unat (i AND NOT HYPER_ID_VALID) < spa_cap m"
  shows "cilkred_map_lookup m i = (if views m (unat (i AND NOT HYPER_ID_VALID)) = None then None else Some (unat (i AND NOT HYPER_ID_VALID)))"
  using assms views_None[OF assms(1,3)] map_okD(3)[OF assms(1,3)] by (simp add: cilkred_map_lookup_def Let_def)

text \<open>An id below the capacity and its tagged form in the hyperobject.\<close>

lemma tagged_id:
  fixes i :: "32 word"
  assumes "unat i < 2 ^ 31"
  shows "(i OR HYPER_ID_VALID) AND HYPER_ID_VALID \<noteq> 0" "(i OR HYPER_ID_VALID) AND NOT HYPER_ID_VALID = i"
proof -
  have "(i OR HYPER_ID_VALID) AND HYPER_ID_VALID = HYPER_ID_VALID" by (auto simp: bit_eq_iff bit_simps)
  then show "(i OR HYPER_ID_VALID) AND HYPER_ID_VALID \<noteq> 0" by (simp add: HYPER_ID_VALID_def)
  have "NOT HYPER_ID_VALID = mask 31" by (simp add: HYPER_ID_VALID_def mask_eq_exp_minus_1)
  then have "i AND NOT HYPER_ID_VALID = take_bit 31 i" by (simp add: take_bit_eq_mask)
  moreover have "take_bit 31 i = i" using assms by (simp add: word_unat_eq_iff unsigned_take_bit_eq take_bit_nat_eq_self)
  moreover have "(i OR HYPER_ID_VALID) AND NOT HYPER_ID_VALID = i AND NOT HYPER_ID_VALID" by (auto simp: bit_eq_iff bit_simps)
  ultimately show "(i OR HYPER_ID_VALID) AND NOT HYPER_ID_VALID = i" by simp
qed

lemma hyper_lookup_found:
  assumes "wrmap s w = Some h" "rmaps s h = Some m" "map_ok m" "\<not> merging m" "hyperobjs s key = Some k" "\<not> force_reduce s"
    and "id_num k AND HYPER_ID_VALID \<noteq> 0" and "i = unat (id_num k AND NOT HYPER_ID_VALID)" "i < spa_cap m" "views m i \<noteq> None"
  shows "hyper_lookup n (Some w) key s = Inr (View h i, s)"
proof -
  have "cilkred_map_lookup m (id_num k) = Some i" using lookup_index[OF assms(3,7)] assms(8-10) by simp
  then show ?thesis using assms by (simp add: hyper_lookup_def Let_def)
qed

section \<open>Properties\<close>

text \<open>
  Lookup of a view (C15): for a registered hyperobject and a well-formed map of the worker,
  \<open>__cilkrts_hyper_lookup\<close> succeeds and returns the entry of the hyperobject's id.  If the map had no view
  there it has one now, holding the identity of the monoid; no other view changes and the map
  stays well-formed.  A second lookup returns the same entry and changes nothing.
\<close>

theorem hyper_lookup_view:
  fixes s :: "('v, 'a) hyper_state_scheme"
  assumes "wrmap s w = Some h" "rmaps s h = Some m" "map_ok m" "\<not> merging m" "hyperobjs s key = Some k" "\<not> force_reduce s"
    and "id_num k AND HYPER_ID_VALID \<noteq> 0" and "i = unat (id_num k AND NOT HYPER_ID_VALID)" "i < spa_cap m"
  shows "\<exists>m' s'. hyper_lookup n (Some w) key s = Inr (View h i, s') \<and> s' = s\<lparr>rmaps := (rmaps s)(h \<mapsto> m')\<rparr> \<and> map_ok m' \<and>
    views m' = (case views m i of None \<Rightarrow> (views m)(i \<mapsto> (key, identity_fn k)) | Some _ \<Rightarrow> views m) \<and>
    hyper_lookup n (Some w) key s' = Inr (View h i, s')"
proof -
  show ?thesis
  proof (cases "views m i")
    case (Some v)
    then show ?thesis using assms hyper_lookup_found[OF assms] by (intro exI[of _ m] exI[of _ s]) (simp add: fun_upd_idem)
  next
    case None
    obtain m' where m': "add_view h i key (identity_fn k) s = Inr ((), s\<lparr>rmaps := (rmaps s)(h \<mapsto> m')\<rparr>)"
        "map_ok m'" "views m' = (views m)(i \<mapsto> (key, identity_fn k))" "spa_cap m' = spa_cap m" "merging m' = merging m"
      using add_view_run[OF assms(2,3,9) None] .
    let ?s' = "s\<lparr>rmaps := (rmaps s)(h \<mapsto> m')\<rparr>"
    have e: "vi_key (vinfo m ! i) = None \<and> vi_val (vinfo m ! i) = None"
      using None views_None[OF assms(3,9)] map_okD(3)[OF assms(3,9)] by simp
    have "hyper_lookup n (Some w) key s = Inr (View h i, ?s')"
      using assms lookup_index[OF assms(3,7)] None e m'(1) by (simp add: hyper_lookup_def Let_def run_thenA_Inr)
    moreover have "hyper_lookup n (Some w) key ?s' = Inr (View h i, ?s')"
      using assms m' by (intro hyper_lookup_found[of ?s' w h m']) simp_all
    ultimately show ?thesis using m' None by (intro exI[of _ m'] exI[of _ ?s']) simp
  qed
qed


text \<open>A worker with a map that has a view of the reducer with id 1, and a hyperobject that is not
  registered yet.\<close>

definition new_obj :: "int list hyperobject" where
  "new_obj = \<lparr>reduce_fn = (@), identity_fn = [], id_num = 0, leftmost_view = [9]\<rparr>"

definition hyper_ex :: "int list hyper_state" where
  "hyper_ex = sched_state.extend (empty_sched\<lparr>rmaps := [65536 \<mapsto> map_ex [1, 2]], hyperobjs := [7 \<mapsto> cat_obj, 8 \<mapsto> new_obj], wrmap := [0 \<mapsto> 65536]\<rparr>)
     (hyper_state.fields (Some (ids_ex\<lparr>id_cap := 64\<rparr>)) None False)"

lemma hyper_ex_facts:
  "wrmap hyper_ex 0 = Some 65536" "rmaps hyper_ex 65536 = Some (map_ex [1, 2])" "hyperobjs hyper_ex 7 = Some cat_obj"
  "hyperobjs hyper_ex 8 = Some new_obj" "\<not> force_reduce hyper_ex" "id_manager hyper_ex = Some ids_ex"
  by (simp_all add: hyper_ex_def sched_state.defs hyper_state.defs empty_sched_def Let_def ids_ex_def)

lemma cat_obj_id: "id_num cat_obj AND HYPER_ID_VALID \<noteq> 0" "1 = unat (id_num cat_obj AND NOT HYPER_ID_VALID)"
  by (simp_all add: cat_obj_def HYPER_ID_VALID_def)

lemma map_ex_fields: "spa_cap (map_ex xs) = 4" "\<not> merging (map_ex xs)"
  by (simp_all add: map_ex_def)

theorem hyper_lookup_view_witness:
  "\<exists>m' s'. hyper_lookup 0 (Some 0) 7 hyper_ex = Inr (View 65536 1, s') \<and> rmaps s' 65536 = Some m' \<and> views m' = [1 \<mapsto> (7, [1, 2])] \<and>
     hyper_lookup 0 (Some 0) 7 s' = Inr (View 65536 1, s')"
proof -
  have "1 < spa_cap (map_ex [1, 2])" by (simp add: map_ex_fields)
  from hyper_lookup_view[OF hyper_ex_facts(1,2) map_ex_ok map_ex_fields(2) hyper_ex_facts(3,5) cat_obj_id this, of 0]
  show ?thesis by (auto simp: map_ex_views)
qed

text \<open>
  Registration (C14): when an id is free, the worker has a well-formed map that is not being merged and
  whose views belong to ids in use, and the capacities agree, \<open>__cilkrts_hyper_create\<close> succeeds.  The
  hyperobject then carries a fresh id, its view is the leftmost one, stored at that id in the
  worker's map, a lookup returns it, and the view of every other id is as before.
\<close>

theorem hyper_create_lookup:
  fixes s :: "('v, 'a) hyper_state_scheme"
  assumes m: "id_manager s = Some m" "ids_ok m" "card (used_ids m) < unat (id_cap m)"
    and h: "wrmap s w = Some h" "rmaps s h = Some r" "map_ok r" "\<not> merging r" "spa_cap r = unat (id_cap m)" "dom (views r) \<subseteq> used_ids m"
    and k: "hyperobjs s key = Some k" "\<not> force_reduce s"
  shows "\<exists>i r' s'. hyper_create (Some w) key s = Inr ((), s') \<and> unat i \<notin> used_ids m \<and>
    hyperobjs s' = (hyperobjs s)(key \<mapsto> k\<lparr>id_num := i OR HYPER_ID_VALID\<rparr>) \<and>
    rmaps s' = (rmaps s)(h \<mapsto> r') \<and> map_ok r' \<and> views r' = (views r)(unat i \<mapsto> (key, leftmost_view k)) \<and>
    hyper_lookup n (Some w) key s' = Inr (View h (unat i), s')"
proof -
  obtain i m' where g: "reducer_id_get (Some w) m = Inr (i, m')" "unat i \<notin> used_ids m" "i < id_cap m"
    using reducer_id_get_fresh[OF m(2,3)] by blast
  have lt: "unat i < spa_cap r" using g(3) h(5) by (simp add: word_less_nat_alt)
  have small: "unat i < 9999999" using lt h(5) ids_okD(2,4)[OF m(2)] by simp
  have tag: "(i OR HYPER_ID_VALID) AND HYPER_ID_VALID \<noteq> 0" "(i OR HYPER_ID_VALID) AND NOT HYPER_ID_VALID = i"
    using tagged_id[of i] small by simp_all
  let ?s1 = "s\<lparr>id_manager := Some m', hyperobjs := (hyperobjs s)(key \<mapsto> k\<lparr>id_num := i OR HYPER_ID_VALID\<rparr>)\<rparr>"
  have vn: "views r (unat i) = None" using h(6) g(2) by auto
  obtain r' where r': "add_view h (unat i) key (leftmost_view k) ?s1 = Inr ((), ?s1\<lparr>rmaps := (rmaps ?s1)(h \<mapsto> r')\<rparr>)"
      "map_ok r'" "views r' = (views r)(unat i \<mapsto> (key, leftmost_view k))" "spa_cap r' = spa_cap r" "merging r' = merging r"
    by (rule add_view_run[of ?s1 h r "unat i" key "leftmost_view k"]) (use h lt vn in auto)
  let ?s' = "?s1\<lparr>rmaps := (rmaps ?s1)(h \<mapsto> r')\<rparr>"
  have nolook: "cilkred_map_lookup r (i OR HYPER_ID_VALID) = None"
    using lookup_index[OF h(3) tag(1)] lt vn unfolding tag(2) by simp
  have "hyper_create (Some w) key s = Inr ((), ?s')"
    using m(1) g(1) h k nolook r'(1) by (simp add: hyper_create_def lift_ids_run)
  moreover have "hyper_lookup n (Some w) key ?s' = Inr (View h (unat i), ?s')"
    using h k r' tag lt by (intro hyper_lookup_found[of ?s' w h r' key "k\<lparr>id_num := i OR HYPER_ID_VALID\<rparr>"]) simp_all
  ultimately show ?thesis using g(2) r' by (intro exI[of _ i] exI[of _ r'] exI[of _ ?s']) simp
qed


lemma make_map_ok: "map_ok (make_map c)" "views (make_map c) = Map.empty" "spa_cap (make_map c) = c" "\<not> merging (make_map c)"
proof -
  show v: "views (make_map c) = Map.empty" by (rule ext) (simp add: views_def make_map_def empty_view_def)
  show "map_ok (make_map c)" unfolding map_ok_def v by (simp add: make_map_def empty_view_def)
qed (simp_all add: make_map_def)

definition fresh_ex :: "int list hyper_state" where
  "fresh_ex = hyper_ex\<lparr>rmaps := [65536 \<mapsto> make_map 64]\<rparr>"

theorem hyper_create_lookup_witness:
  "\<exists>(i :: 32 word) r' s'. hyper_create (Some 0) 8 fresh_ex = Inr ((), s') \<and> unat i \<noteq> 1 \<and> rmaps s' 65536 = Some r' \<and>
     views r' = [unat i \<mapsto> (8, [9])] \<and> hyper_lookup 0 (Some 0) 8 s' = Inr (View 65536 (unat i), s')"
proof -
  have f: "id_manager fresh_ex = Some ids_ex" "wrmap fresh_ex 0 = Some 65536" "rmaps fresh_ex 65536 = Some (make_map 64)"
    "hyperobjs fresh_ex 8 = Some new_obj" "\<not> force_reduce fresh_ex"
    by (simp_all add: fresh_ex_def hyper_ex_facts)
  have c: "card (used_ids ids_ex) < unat (id_cap ids_ex)" "spa_cap (make_map 64) = unat (id_cap ids_ex)"
    "dom (views (make_map 64)) \<subseteq> used_ids ids_ex"
    by (simp_all only: ids_ex_ok(2) make_map_ok) (simp_all add: ids_ex_def)
  have l: "leftmost_view new_obj = [9]" by (simp add: new_obj_def)
  obtain i :: "32 word" and r' s' where r: "hyper_create (Some 0) 8 fresh_ex = Inr ((), s')" "unat i \<notin> used_ids ids_ex" "rmaps s' = (rmaps fresh_ex)(65536 \<mapsto> r')"
      "views r' = (views (make_map 64))(unat i \<mapsto> (8, leftmost_view new_obj))" "hyper_lookup 0 (Some 0) 8 s' = Inr (View 65536 (unat i), s')"
    using hyper_create_lookup[OF f(1) ids_ex_ok(1) c(1) f(2,3) make_map_ok(1,4) c(2,3) f(4,5), of 0] by (elim exE conjE) (rule that)
  show ?thesis using r unfolding make_map_ok(2) ids_ex_ok(2) l by (intro exI[of _ i] exI[of _ r'] exI[of _ s']) simp
qed

text \<open>
  Unregistering (C16): for a registered hyperobject with a view in the worker's map,
  \<open>__cilkrts_hyper_destroy\<close> succeeds: the view is gone from the map and every other view is as
  before, the id is free again and the hyperobject no longer carries the tag of a registered one.
  Using or unregistering it again is detected: both stop with a bug report.
\<close>

theorem hyper_destroy_unregisters:
  fixes s :: "('v, 'a) hyper_state_scheme"
  assumes m: "id_manager s = Some m" "ids_ok m" "i \<in> used_ids m"
    and h: "wrmap s w = Some h" "rmaps s h = Some r" "map_ok r" "\<not> merging r" "views r i \<noteq> None" "spa_cap r = unat (id_cap m)"
    and k: "hyperobjs s key = Some k" "id_num k AND HYPER_ID_VALID \<noteq> 0" "i = unat (id_num k AND NOT HYPER_ID_VALID)"
  shows "\<exists>m' r' s'. hyper_destroy (Some w) key s = Inr ((), s') \<and> id_manager s' = Some m' \<and> ids_ok m' \<and> used_ids m' = used_ids m - {i} \<and>
    rmaps s' = (rmaps s)(h \<mapsto> r') \<and> views r' = (views r)(i := None) \<and> num_of_vinfo r' = num_of_vinfo r - 1 \<and>
    hyper_lookup n tls key s' = Inl (Bug Reducer_impl_c 307) \<and> hyper_destroy tls key s' = Inl (Bug Reducer_impl_c 223)"
proof -
  let ?i = "id_num k AND NOT HYPER_ID_VALID"
  have lt: "i < spa_cap r" using h(5) dom_views[of r] map_okD(1)[OF h(3)] by auto
  then have lt': "?i < id_cap m" using h(6) k(3) by (simp add: word_less_nat_alt)
  have nv: "0 < num_of_vinfo r" "num_of_vinfo r \<le> spa_cap r" "spa_cap r < 2 ^ 32"
    using h(5) map_okD(1,4)[OF h(3)] card_mono[OF _ dom_views[of r]] h(6) unsigned_less[of "id_cap m"]
    by (auto simp: card_gt_0_iff domIff fun_eq_iff)
  let ?r0 = "r\<lparr>vinfo := (vinfo r)[i := empty_view], num_of_vinfo := num_of_vinfo r - 1\<rparr>"
  let ?r' = "if num_of_vinfo ?r0 = 0 then ?r0\<lparr>num_of_logs := 0\<rparr> else ?r0"
  have "(num_of_vinfo r + (2 ^ 32 - 1)) mod 2 ^ 32 = num_of_vinfo r - 1"
    using nv by (simp add: mod_if)
  then have u: "cilkred_map_unlog_id r i = Inr ?r'"
    using lt nv map_okD(5)[OF h(3)] by (simp add: cilkred_map_unlog_id_def Let_def)
  have v: "views ?r' = (views r)(i := None)"
    using views_upd_view[of i r empty_view] lt map_okD(1)[OF h(3)] by (simp add: upd_view_def views_def empty_view_def fun_eq_iff)
  let ?s' = "s\<lparr>hyperobjs := (hyperobjs s)(key \<mapsto> k\<lparr>id_num := ?i\<rparr>), rmaps := (rmaps s)(h \<mapsto> ?r'), id_manager := Some (id_freed ?i m)\<rparr>"
  have z: "?i AND HYPER_ID_VALID = 0" by (auto simp: bit_eq_iff bit_simps)
  have "hyperobjs ?s' key = Some (k\<lparr>id_num := ?i\<rparr>)" by simp
  then have "hyper_lookup n tls key ?s' = Inl (Bug Reducer_impl_c 307)" "hyper_destroy tls key ?s' = Inl (Bug Reducer_impl_c 223)"
    by (simp_all only: hyper_lookup_def hyper_destroy_def or_exiting_def Let_def get_hyper_run) (cases tls; simp add: z)+
  moreover have "hyper_destroy (Some w) key s = Inr ((), ?s')"
    using k h m u reducer_id_free_run[OF m(2) lt', of "Some w"]
    by (simp add: hyper_destroy_def Let_def act_flat_run lift_ids_def k(3)[symmetric])
  ultimately show ?thesis using id_freed_ok(1,2)[OF m(2) lt'] v k(3)
    by (intro exI[of _ "id_freed ?i m"] exI[of _ ?r'] exI[of _ ?s']) simp
qed

definition big_ex :: "int list cilkred_map" where
  "big_ex = (case cilkred_map_log_id (upd_view 1 \<lparr>vi_val = Some [1, 2], vi_key = Some 7\<rparr> (make_map 64)) 1 of
     Inl _ \<Rightarrow> make_map 64 | Inr m \<Rightarrow> m)"

lemma big_ex_facts: "map_ok big_ex" "views big_ex = [1 \<mapsto> (7, [1, 2])]" "spa_cap big_ex = 64" "\<not> merging big_ex"
proof -
  obtain m' where m': "cilkred_map_log_id (upd_view 1 \<lparr>vi_val = Some [1, 2 :: int], vi_key = Some 7\<rparr> (make_map 64)) 1 = Inr m'" "map_ok m'"
      "views m' = (views (make_map 64))(1 \<mapsto> (7, [1, 2]))" "spa_cap m' = spa_cap (make_map 64 :: int list cilkred_map)"
      "merging m' = merging (make_map 64 :: int list cilkred_map)"
    by (rule map_ok_add[OF make_map_ok(1), of 1 64 "\<lparr>vi_val = Some [1, 2 :: int], vi_key = Some 7\<rparr>" 7 "[1, 2]"]) (auto simp: make_map_ok)
  have "big_ex = m'" unfolding big_ex_def m'(1) by simp
  then show "map_ok big_ex" "views big_ex = [1 \<mapsto> (7, [1, 2])]" "spa_cap big_ex = 64" "\<not> merging big_ex"
    using m'(2-5) by (simp_all add: make_map_ok)
qed

theorem hyper_destroy_unregisters_witness:
  "\<exists>m' r' s'. hyper_destroy (Some 0) 7 (hyper_ex\<lparr>rmaps := [65536 \<mapsto> big_ex]\<rparr>) = Inr ((), s') \<and>
     id_manager s' = Some m' \<and> used_ids m' = {} \<and> rmaps s' 65536 = Some r' \<and> views r' = Map.empty \<and>
     hyper_lookup 0 None 7 s' = Inl (Bug Reducer_impl_c 307)"
proof -
  let ?s = "hyper_ex\<lparr>rmaps := [65536 \<mapsto> big_ex]\<rparr>"
  have f: "id_manager ?s = Some ids_ex" "wrmap ?s 0 = Some 65536" "rmaps ?s 65536 = Some big_ex" "hyperobjs ?s 7 = Some cat_obj"
    "(1 :: nat) \<in> used_ids ids_ex" "views big_ex 1 \<noteq> None" "spa_cap big_ex = unat (id_cap ids_ex)"
    by (simp_all add: hyper_ex_facts ids_ex_ok(2) big_ex_facts) (simp add: ids_ex_def)
  obtain m' r' s' where r: "hyper_destroy (Some 0) 7 ?s = Inr ((), s')" "id_manager s' = Some m'" "used_ids m' = used_ids ids_ex - {1}"
      "rmaps s' = (rmaps ?s)(65536 \<mapsto> r')" "views r' = (views big_ex)(1 := None)" "hyper_lookup 0 None 7 s' = Inl (Bug Reducer_impl_c 307)"
    using hyper_destroy_unregisters[OF f(1) ids_ex_ok(1) f(5) f(2,3) big_ex_facts(1,4) f(6,7) f(4) cat_obj_id, of 0 None]
    by (elim exE conjE) (rule that)
  then show ?thesis unfolding ids_ex_ok(2) big_ex_facts(2) by (intro exI[of _ m'] exI[of _ r'] exI[of _ s']) simp
qed

text \<open>
  A reducer map merged with an empty one (C20): a strand whose reducer map has no views joins a strand
  with views.  \<open>merge_two_rmaps\<close> keeps the map with the views, but leaves its flag \<open>merging\<close> set, and
  so the next lookup of any registered hyperobject by the worker that carries on with this map stops with
  the report "User error: hyperobject used by another hyperobject".
\<close>

theorem empty_merge_then_lookup:
  fixes s :: "('v, 'a) hyper_state_scheme"
  assumes c: "rmap_conf cap K s (Some a)" "rmap_conf cap K s (Some b)" "a \<noteq> b" "im_good n s (live + rmap_led (Some a) + rmap_led (Some b))" "w < n"
    and v: "rviews s (Some a) \<noteq> Map.empty" "rviews s (Some b) = Map.empty"
    and k: "hyperobjs s key = Some k" "id_num k AND HYPER_ID_VALID \<noteq> 0" "\<not> force_reduce s"
  shows "bindA (merge_two_rmaps w (Some a) (Some b)) (\<lambda>p.
      thenA (modify (\<lambda>s. s\<lparr>wrmap := (wrmap s)(w := p)\<rparr>)) (hyper_lookup f (Some w) key)) s = Inl (Bug Reducer_impl_c 331)"
proof -
  obtain ma mb where m: "rmaps s a = Some ma" "rmaps s b = Some mb" "map_ok ma" "map_ok mb" using c(1,2) by (auto simp: rmap_conf_def)
  have num: "num_of_vinfo mb = 0" "0 < num_of_vinfo ma" using v m map_okD(4)[OF m(3)] map_okD(4)[OF m(4)] by (auto simp: card_gt_0_iff)
  obtain s' r where s': "cilkred_map_merge a w b MERGE_INTO_LEFT s = Inr ((), s')" "rmaps s' = (rmaps s)(a \<mapsto> r, b := None)"
      "merge_frame s s'" "merging r"
    using cilkred_map_merge_conf[OF c(1-5), of MERGE_INTO_LEFT] unfolding v(2) by (elim exE conjE) (rule that; simp)
  have merge: "merge_two_rmaps w (Some a) (Some b) s = Inr (Some a, s')"
    using m num s'(1) by (simp add: merge_two_rmaps_def cilkred_map_num_views_def run_thenA_Inr)
  have more: "hyperobjs s' = hyperobjs s" "force_reduce s' = force_reduce s"
    using merge_frame_fields(1,3)[OF s'(3)] by (cases s; cases s'; simp)+
  have "hyper_lookup f (Some w) key (s'\<lparr>wrmap := (wrmap s')(w := Some a)\<rparr>) = Inl (Bug Reducer_impl_c 331)"
    using k more s'(2,4) c(3) by (simp add: hyper_lookup_def Let_def)
  then show ?thesis by (simp add: bindA_def merge)
qed


definition empty_ex :: "int list hyper_state" where
  "empty_ex = hyper_ex\<lparr>im_pool := im_pool red_ex, im_desc := im_desc red_ex, wim := wim red_ex,
     rmaps := [65536 \<mapsto> map_ex [1, 2], 65568 \<mapsto> make_map 4]\<rparr>"

theorem empty_merge_then_lookup_witness:
  "bindA (merge_two_rmaps 0 (Some 65536) (Some 65568)) (\<lambda>p.
      thenA (modify (\<lambda>s. s\<lparr>wrmap := (wrmap s)(0 := p)\<rparr>)) (hyper_lookup 0 (Some 0) 7)) empty_ex = Inl (Bug Reducer_impl_c 331)"
proof -
  have f: "rmaps empty_ex 65536 = Some (map_ex [1, 2])" "rmaps empty_ex 65568 = Some (make_map 4)" "hyperobjs empty_ex 7 = Some cat_obj"
     "\<not> force_reduce empty_ex"
    by (simp_all add: empty_ex_def hyper_ex_facts)
  have "rmap_conf 4 (\<lambda>_. 7) empty_ex (Some 65536)" "rmap_conf 4 (\<lambda>_. 7) empty_ex (Some 65568)"
    by (auto simp: rmap_conf_def f map_ex_ok map_ex_views map_ex_fields make_map_ok split: if_splits)
  moreover have "im_good 1 empty_ex live = im_good 1 red_ex live" for live
    by (rule im_good_cong) (simp_all add: empty_ex_def hyper_ex_def red_ex_def empty_sched_def Let_def sched_state.defs hyper_state.defs)
  then have "im_good 1 empty_ex ({#} + rmap_led (Some 65536) + rmap_led (Some 65568))"
    using red_ex_good by (simp add: add_mset_commute)
  ultimately show ?thesis
    by (intro empty_merge_then_lookup[where k = cat_obj and n = 1 and live = "{#}" and cap = 4 and K = "\<lambda>_. 7"]) (simp_all add: f cat_obj_id map_ex_views make_map_ok)
qed

text \<open>
  Registering a reducer after another one was unregistered (C21): the map has views of two reducers with ids
  0 and 1; the first is unregistered and a new one gets its id.  \<open>cilkred_map_unlog_id\<close> leaves the old entry
  in the log, so the log now lists id 0 twice, and when the map is merged into a map that has a view of the
  new reducer, the second visit of id 0 fails the assertion of line 174 of cilkred_map.c.
\<close>

definition stale_ex :: "'v ViewInfo \<Rightarrow> 'v ViewInfo \<Rightarrow> nat list \<Rightarrow> nat \<Rightarrow> nat \<Rightarrow> 'v cilkred_map" where
  "stale_ex u v l nl nv = \<lparr>spa_cap = 6, num_of_vinfo = nv, num_of_logs = nl, merging = False, rlog = l,
     vinfo = [u, v, empty_view, empty_view, empty_view, empty_view]\<rparr>"

lemma stale_ex_make: "make_map 6 = stale_ex empty_view empty_view [0, 0, 0] 0 0"
  by (simp add: make_map_def stale_ex_def) (simp add: numeral_eq_Suc)

lemma stale_ex_upd:
  "upd_view 0 x (stale_ex u v l nl nv) = stale_ex x v l nl nv" "upd_view 1 x (stale_ex u v l nl nv) = stale_ex u x l nl nv"
  by (simp_all add: stale_ex_def upd_view_def)

lemma stale_ex_log:
  assumes "nl < 3" "nv < 6"
  shows "cilkred_map_log_id (stale_ex u v l nl nv) i = Inr (stale_ex u v (l[nl := i]) (Suc nl) (Suc nv))"
  using assms by (simp add: stale_ex_def cilkred_map_log_id_def Let_def)

lemma stale_ex_unlog: "cilkred_map_unlog_id (stale_ex u v l 2 2) 0 = Inr (stale_ex empty_view v l 2 1)"
  by (simp add: stale_ex_def cilkred_map_unlog_id_def Let_def)


end
