(* ===== verification/C_Strings.thy ===== *)
theory C_Strings
  imports Rts_Prelude "HOL-Library.Char_ord"
begin

text \<open>
  The functions of the C library the runtime reads its settings with, on strings without their
  terminating zero: \<open>strtol\<close> (in base 10 and with the base taken from the prefix), \<open>atoi\<close> and
  \<open>strtok_r\<close>.  A \<open>long\<close> has 64 bits, an \<open>int\<close> 32.
\<close>

section \<open>Numbers\<close>

definition isspace :: "char \<Rightarrow> bool" where
  "isspace c \<longleftrightarrow> c = CHR '' '' \<or> (9 \<le> (of_char c :: nat) \<and> (of_char c :: nat) \<le> 13)"

definition isdigit :: "char \<Rightarrow> bool" where
  "isdigit c \<longleftrightarrow> CHR ''0'' \<le> c \<and> c \<le> CHR ''9''"

definition isupper :: "char \<Rightarrow> bool" where
  "isupper c \<longleftrightarrow> CHR ''A'' \<le> c \<and> c \<le> CHR ''Z''"

definition islower :: "char \<Rightarrow> bool" where
  "islower c \<longleftrightarrow> CHR ''a'' \<le> c \<and> c \<le> CHR ''z''"

text \<open>The value of a digit in any base up to 36; 36 for other characters.\<close>

definition digit_val :: "char \<Rightarrow> nat" where
  "digit_val c = (if isdigit c then of_char c - 48 else if isupper c then of_char c - 55 else if islower c then of_char c - 87 else 36)"

fun digits_value :: "nat \<Rightarrow> nat \<Rightarrow> string \<Rightarrow> nat" where
  "digits_value base acc [] = acc"
| "digits_value base acc (c # cs) = (if digit_val c < base then digits_value base (acc * base + digit_val c) cs else acc)"

definition LONG_MAX :: int where "LONG_MAX = 2 ^ 63 - 1"
definition LONG_MIN :: int where "LONG_MIN = - (2 ^ 63)"

definition clamp_long :: "int \<Rightarrow> int" where
  "clamp_long v = max LONG_MIN (min LONG_MAX v)"

fun split_sign :: "string \<Rightarrow> bool \<times> string" where
  "split_sign (c # cs) = (if c = CHR ''-'' then (True, cs) else if c = CHR ''+'' then (False, cs) else (False, c # cs))"
| "split_sign [] = (False, [])"

text \<open>The base 0 of \<open>strtol\<close>: hexadecimal after \<open>0x\<close>, octal after \<open>0\<close>, else decimal.\<close>

definition split_base :: "string \<Rightarrow> nat \<times> string" where
  "split_base s = (case s of
     a # x # d # r \<Rightarrow> if a = CHR ''0'' \<and> (x = CHR ''x'' \<or> x = CHR ''X'') \<and> digit_val d < 16 then (16, d # r)
                      else if a = CHR ''0'' then (8, s) else (10, s)
   | a # r \<Rightarrow> if a = CHR ''0'' then (8, s) else (10, s)
   | [] \<Rightarrow> (10, s))"

definition strtol :: "bool \<Rightarrow> string \<Rightarrow> int" where
  "strtol any_base s =
     (let (neg, t) = split_sign (dropWhile isspace s);
          (base, ds) = (if any_base then split_base t else (10, t));
          v = int (digits_value base 0 ds)
      in clamp_long (if neg then - v else v))"

definition atoi :: "string \<Rightarrow> int" where
  "atoi s = sint (word_of_int (strtol False s) :: 32 word)"

text \<open>The decimal digits of a number, most significant first.\<close>

fun decimal :: "nat \<Rightarrow> string" where
  "decimal n = (if n < 10 then [char_of (48 + n)] else decimal (n div 10) @ [char_of (48 + n mod 10)])"

declare decimal.simps [simp del]

lemma digit_char: "n < 10 \<Longrightarrow> digit_val (char_of (48 + n)) = n" "n < 10 \<Longrightarrow> isdigit (char_of (48 + n))"
  by (simp_all add: digit_val_def isdigit_def less_eq_char_def)

lemma digits_value_append:
  "(\<And>c. c \<in> set xs \<Longrightarrow> digit_val c < base) \<Longrightarrow> digits_value base acc (xs @ ys) = digits_value base (digits_value base acc xs) ys"
  by (induction xs arbitrary: acc) auto

lemma decimal_digits: "\<forall>c \<in> set (decimal n). isdigit c \<and> digit_val c < 10"
proof (induction n rule: decimal.induct)
  case (1 n)
  then show ?case by (subst decimal.simps) (auto simp: digit_char)
qed

lemma decimal_nonempty [simp]: "decimal n \<noteq> []"
  by (subst decimal.simps) simp

lemma digits_value_decimal: "digits_value 10 0 (decimal n) = n"
proof (induction n rule: decimal.induct)
  case (1 n)
  show ?case
  proof (cases "n < 10")
    case True
    then show ?thesis by (subst decimal.simps) (simp add: digit_char)
  next
    case False
    have "digits_value 10 0 (decimal (n div 10) @ [char_of (48 + n mod 10)]) = digits_value 10 (n div 10) [char_of (48 + n mod 10)]"
      using decimal_digits[of "n div 10"] 1[OF False] by (subst digits_value_append) auto
    then show ?thesis using False by (subst decimal.simps) (simp add: digit_char)
  qed
qed

lemma digit_facts:
  assumes "isdigit c"
  shows "\<not> isspace c" "c \<noteq> CHR ''-''" "c \<noteq> CHR ''+''" "c \<noteq> CHR '',''" "c \<noteq> CHR '';''" "c \<noteq> CHR ''=''"
  using assms by (auto simp: isdigit_def isspace_def less_eq_char_def)

text \<open>Printing a number and reading it back.\<close>

lemma strtol_decimal: "int n \<le> LONG_MAX \<Longrightarrow> strtol False (decimal n) = int n"
proof -
  assume n: "int n \<le> LONG_MAX"
  obtain c cs where c: "decimal n = c # cs" by (cases "decimal n") auto
  then have d: "isdigit c" using decimal_digits[of n] by simp
  have "split_sign (dropWhile isspace (decimal n)) = (False, decimal n)" using c digit_facts[OF d] by simp
  then show ?thesis using n by (simp add: strtol_def digits_value_decimal clamp_long_def LONG_MIN_def)
qed

lemma atoi_decimal: "n < 2 ^ 31 \<Longrightarrow> atoi (decimal n) = int n"
  by (simp add: atoi_def strtol_decimal LONG_MAX_def signed_of_nat signed_take_bit_int_eq_self)

section \<open>Tokens\<close>

text \<open>One call of \<open>strtok_r\<close> on a string: the delimiters in front are skipped; the result is the token
  and the rest after the delimiter that ends it, or nothing at the end of the string.\<close>

definition strtok_r :: "char list \<Rightarrow> string \<Rightarrow> (string \<times> string) option" where
  "strtok_r delims s =
     (let t = dropWhile (\<lambda>c. c \<in> set delims) s in
      if t = [] then None
      else Some (takeWhile (\<lambda>c. c \<notin> set delims) t, tl (dropWhile (\<lambda>c. c \<notin> set delims) t)))"

lemma strtok_r_shorter:
  assumes "strtok_r d s = Some (t, r)"
  shows "length r < length s"
proof -
  let ?t = "dropWhile (\<lambda>c. c \<in> set d) s"
  have t: "?t \<noteq> []" "t = takeWhile (\<lambda>c. c \<notin> set d) ?t" "r = tl (dropWhile (\<lambda>c. c \<notin> set d) ?t)"
    using assms by (auto simp: strtok_r_def Let_def split: if_splits)
  then have "t \<noteq> []" using hd_dropWhile[of "\<lambda>c. c \<in> set d" s] by (cases ?t) auto
  moreover have "length t + length r \<le> length ?t"
    using arg_cong[OF takeWhile_dropWhile_id[of "\<lambda>c. c \<notin> set d" ?t], of length] unfolding t(2,3) length_append length_tl by linarith
  ultimately show ?thesis using length_dropWhile_le[of "\<lambda>c. c \<in> set d" s] by (cases t) auto
qed

text \<open>All tokens of a string, as a loop of calls returns them.\<close>

function tokens :: "char list \<Rightarrow> string \<Rightarrow> string list" where
  "tokens d s = (case strtok_r d s of None \<Rightarrow> [] | Some (t, r) \<Rightarrow> t # tokens d r)"
  by pat_completeness auto
termination by (relation "measure (length \<circ> snd)") (auto dest: strtok_r_shorter)

declare tokens.simps [simp del]

lemma tokens_Nil [simp]: "tokens d [] = []"
  by (subst tokens.simps) (simp add: strtok_r_def)

lemma strtok_r_token:
  assumes "t \<noteq> []" "set t \<inter> set d = {}"
  shows "strtok_r d t = Some (t, [])" "c \<in> set d \<Longrightarrow> strtok_r d (t @ c # r) = Some (t, r)"
proof -
  obtain a t' where a: "t = a # t'" "a \<notin> set d" using assms by (cases t) auto
  have w: "\<And>x. x \<in> set t \<Longrightarrow> x \<notin> set d" using assms(2) by auto
  have e: "takeWhile (\<lambda>c. c \<notin> set d) t = t" "dropWhile (\<lambda>c. c \<notin> set d) t = []" using w by (simp_all add: takeWhile_eq_all_conv)
  have "dropWhile (\<lambda>c. c \<in> set d) t = t" using a by simp
  then show "strtok_r d t = Some (t, [])" using assms(1) by (simp add: strtok_r_def Let_def e)
  have tk: "takeWhile (\<lambda>c. c \<notin> set d) (t @ c # r) = t" "dropWhile (\<lambda>c. c \<notin> set d) (t @ c # r) = c # r" if "c \<in> set d"
    using w that by simp_all
  show "strtok_r d (t @ c # r) = Some (t, r)" if "c \<in> set d"
  proof -
    have "dropWhile (\<lambda>c. c \<in> set d) (t @ c # r) = t @ c # r" using a by simp
    then show ?thesis using tk[OF that] by (simp add: strtok_r_def Let_def)
  qed
qed

lemma tokens_one: "t \<noteq> [] \<Longrightarrow> set t \<inter> set d = {} \<Longrightarrow> tokens d t = [t]"
  by (subst tokens.simps) (simp add: strtok_r_token)

lemma tokens_more: "t \<noteq> [] \<Longrightarrow> set t \<inter> set d = {} \<Longrightarrow> c \<in> set d \<Longrightarrow> tokens d (t @ c # r) = t # tokens d r"
  by (subst tokens.simps) (simp add: strtok_r_token)

fun join :: "char \<Rightarrow> string list \<Rightarrow> string" where
  "join c [] = []"
| "join c [t] = t"
| "join c (t # u # ts) = t @ c # join c (u # ts)"

lemma tokens_join: "(\<And>t. t \<in> set ts \<Longrightarrow> t \<noteq> [] \<and> c \<notin> set t) \<Longrightarrow> tokens [c] (join c ts) = ts"
proof (induction c ts rule: join.induct)
  case (3 c t u ts)
  have "tokens [c] (join c (u # ts)) = u # ts" by (rule 3(1)) (use 3(2) in auto)
  then show ?case using 3(2)[of t] by (simp add: tokens_more)
qed (simp_all add: tokens_one)

lemma set_join: "set (join c ts) \<subseteq> insert c (\<Union> (set ` set ts))"
  by (induction c ts rule: join.induct) auto

lemma strtok_r_None: "strtok_r d s = None \<longleftrightarrow> set s \<subseteq> set d"
  by (auto simp: strtok_r_def Let_def)

end
