(* ===== verification/Config_Parse.thy ===== *)
theory Config_Parse
  imports C_Strings
begin

text \<open>
  \<open>cilk_cfg_from_env\<close> (runtime/cilk2c.c): the configuration of the runtime of a thread, read from an
  environment variable such as \<open>nworkers=4;cpuset=0,1,2,3\<close>.  A \<open>cpu_set_t\<close> is the set of the numbers
  in it.  The result is a fault where the code calls \<open>strtok_r\<close> with a null string and a null position.
\<close>

definition CPU_SETSIZE :: nat where "CPU_SETSIZE = 1024"

definition CPU_SET :: "int \<Rightarrow> nat set \<Rightarrow> nat set" where
  "CPU_SET cpu m = (if 0 \<le> cpu \<and> cpu < int CPU_SETSIZE then insert (nat cpu) m else m)"

record cilk_config =
  n_workers :: int
  boss_affinity :: "nat set"

text \<open>The characters that are kept, in lower case.\<close>

definition keep_char :: "char \<Rightarrow> bool" where
  "keep_char c \<longleftrightarrow> isdigit c \<or> isupper c \<or> islower c \<or> c = CHR ''='' \<or> c = CHR '','' \<or> c = CHR '';''"

definition lower :: "char \<Rightarrow> char" where
  "lower c = (if isupper c then char_of (of_char c + (97 - 65) :: nat) else c)"

definition filter_value :: "string \<Rightarrow> string" where
  "filter_value s = map lower (filter keep_char s)"

function cpu_loop :: "string \<Rightarrow> nat set \<Rightarrow> nat set" where
  "cpu_loop data m = (case strtok_r '','' data of None \<Rightarrow> m | Some (cpu_str, r) \<Rightarrow> cpu_loop r (CPU_SET (atoi cpu_str) m))"
  by pat_completeness auto
termination by (relation "measure (length \<circ> fst)") (auto dest: strtok_r_shorter)

declare cpu_loop.simps [simp del]

definition set_key :: "string \<Rightarrow> string \<Rightarrow> cilk_config \<Rightarrow> cilk_config" where
  "set_key name data cfg =
     (let cfg = (if name = ''nworkers'' then cfg\<lparr>n_workers := atoi (filter isdigit data)\<rparr> else cfg) in
      if name = ''cpuset'' then cfg\<lparr>boss_affinity := cpu_loop data {}\<rparr> else cfg)"

definition parse_token :: "string \<Rightarrow> cilk_config \<Rightarrow> cilk_config" where
  "parse_token token cfg =
     (case strtok_r ''='' token of None \<Rightarrow> cfg
      | Some (name, r) \<Rightarrow> (case strtok_r ''='' r of None \<Rightarrow> cfg | Some (data, _) \<Rightarrow> set_key name data cfg))"

function token_loop :: "string \<Rightarrow> cilk_config \<Rightarrow> cilk_config" where
  "token_loop s cfg = (case strtok_r '';'' s of None \<Rightarrow> cfg | Some (token, r) \<Rightarrow> token_loop r (parse_token token cfg))"
  by pat_completeness auto
termination by (relation "measure (length \<circ> fst)") (auto dest: strtok_r_shorter)

declare token_loop.simps [simp del]

text \<open>\<open>own\<close> is the affinity of the calling thread.\<close>

definition cilk_cfg_from_env :: "(string \<Rightarrow> string option) \<Rightarrow> nat set \<Rightarrow> string option \<Rightarrow> fault + cilk_config" where
  "cilk_cfg_from_env getenv own name =
     (case (case name of None \<Rightarrow> None | Some n \<Rightarrow> getenv n) of
        None \<Rightarrow> Inr \<lparr>n_workers = int (card own), boss_affinity = own\<rparr>
      | Some val \<Rightarrow>
          (case strtok_r '';'' (filter_value val) of
             None \<Rightarrow> Inl Null_pointer
           | Some (token, r) \<Rightarrow> Inr (token_loop r (parse_token token \<lparr>n_workers = 0, boss_affinity = {}\<rparr>))))"

section \<open>Correctness\<close>

lemma cpu_loop_tokens: "cpu_loop data m = fold (\<lambda>t. CPU_SET (atoi t)) (tokens '','' data) m"
proof (induction data m rule: cpu_loop.induct)
  case (1 data m)
  then show ?case by (subst cpu_loop.simps, subst tokens.simps) (auto split: option.splits)
qed

lemma token_loop_tokens: "token_loop s cfg = fold parse_token (tokens '';'' s) cfg"
proof (induction s cfg rule: token_loop.induct)
  case (1 s cfg)
  then show ?case by (subst token_loop.simps, subst tokens.simps) (auto split: option.splits)
qed

lemma cfg_from_env_tokens:
  assumes "getenv name = Some val"
  shows "cilk_cfg_from_env getenv own (Some name) = (if set (filter_value val) \<subseteq> {CHR '';''} then Inl Null_pointer
     else Inr (fold parse_token (tokens '';'' (filter_value val)) \<lparr>n_workers = 0, boss_affinity = {}\<rparr>))"
proof (cases "strtok_r '';'' (filter_value val)")
  case None
  then have "set (filter_value val) \<subseteq> {CHR '';''}" by (simp add: strtok_r_None)
  then show ?thesis using assms by (simp add: cilk_cfg_from_env_def None)
next
  case (Some p)
  obtain t r where p: "p = (t, r)" by fastforce
  have "\<not> set (filter_value val) \<subseteq> {CHR '';''}" using Some strtok_r_None[of "'';''" "filter_value val"] by simp
  moreover have "tokens '';'' (filter_value val) = t # tokens '';'' r" using Some p by (subst tokens.simps) simp
  ultimately show ?thesis using assms Some p by (simp add: cilk_cfg_from_env_def token_loop_tokens)
qed

lemma cpus_fold: "(\<And>c. c \<in> set cpus \<Longrightarrow> c < CPU_SETSIZE) \<Longrightarrow> fold (\<lambda>t. CPU_SET (atoi t)) (map decimal cpus) m = m \<union> set cpus"
proof (induction cpus arbitrary: m)
  case (Cons c cpus)
  have "c < CPU_SETSIZE" using Cons(2) by simp
  then have "CPU_SET (atoi (decimal c)) m = insert c m" by (simp add: CPU_SET_def CPU_SETSIZE_def atoi_decimal)
  then show ?case using Cons by simp
qed simp

lemma decimal_no: "x \<in> {CHR '';'', CHR ''='', CHR '',''} \<Longrightarrow> x \<notin> set (decimal n)"
  using decimal_digits[of n] digit_facts(4-6)[of x] by auto

lemma parse_key:
  assumes "name \<noteq> []" "CHR ''='' \<notin> set name" "CHR ''='' \<notin> set data"
  shows "parse_token (name @ CHR ''='' # data) cfg = (if data = [] then cfg else set_key name data cfg)"
proof -
  have 1: "strtok_r ''='' (name @ CHR ''='' # data) = Some (name, data)"
    by (rule strtok_r_token(2)) (use assms(1,2) in auto)
  show ?thesis
  proof (cases "data = []")
    case True
    have "strtok_r ''='' [] = None" by (simp only: strtok_r_None) simp
    then show ?thesis using 1 unfolding True parse_token_def by (simp only: option.case prod.case if_True refl)
  next
    case False
    have "strtok_r ''='' data = Some (data, [])" by (rule strtok_r_token(1)) (use False assms(3) in auto)
    then show ?thesis using False by (simp only: parse_token_def 1 option.case prod.case if_False)
  qed
qed

text \<open>(C31) What a configuration says is what is read: from a value that is, up to the case of letters and
  characters that do not belong, \<open>nworkers=\<close> a number and \<open>cpuset=\<close> a list of numbers, the parser gets
  that number of workers and that set of CPUs.\<close>

theorem config_roundtrip:
  assumes "getenv name = Some val" "n < 2 ^ 31" "\<And>c. c \<in> set cpus \<Longrightarrow> c < CPU_SETSIZE"
    and "filter_value val = ''nworkers='' @ decimal n @ '';cpuset='' @ join (CHR '','') (map decimal cpus)"
  shows "cilk_cfg_from_env getenv own (Some name) = Inr \<lparr>n_workers = int n, boss_affinity = set cpus\<rparr>"
proof -
  let ?list = "join (CHR '','') (map decimal cpus)"
  have l: "CHR '';'' \<notin> set ?list" "CHR ''='' \<notin> set ?list"
  proof -
    have "set ?list \<subseteq> insert (CHR '','') (\<Union>c. set (decimal c))" using set_join[of "CHR '',''" "map decimal cpus"] by auto
    then show "CHR '';'' \<notin> set ?list" "CHR ''='' \<notin> set ?list"
      using decimal_no[of "CHR '';''"] decimal_no[of "CHR ''=''"] by auto
  qed
  have t: "tokens '';'' (filter_value val) = [''nworkers='' @ decimal n, ''cpuset='' @ ?list]"
    using l tokens_more[of "''nworkers='' @ decimal n" "'';''" "CHR '';''" "''cpuset='' @ ?list"] decimal_no[of "CHR '';''" n]
    by (simp add: assms(4) tokens_one)
  have 1: "parse_token (''nworkers='' @ decimal n) cfg = cfg\<lparr>n_workers := int n\<rparr>" for cfg
    using parse_key[of "''nworkers''" "decimal n" cfg] decimal_no[of "CHR ''=''" n] decimal_digits[of n] assms(2)
    by (simp add: set_key_def atoi_decimal filter_id_conv)
  have 2: "parse_token (''cpuset='' @ ?list) \<lparr>n_workers = int n, boss_affinity = {}\<rparr> = \<lparr>n_workers = int n, boss_affinity = set cpus\<rparr>"
  proof -
    have "tokens '','' ?list = map decimal cpus" by (rule tokens_join) (use decimal_no in force)
    then have "cpu_loop ?list {} = set cpus" using cpus_fold[OF assms(3), where m = "{}"] by (simp add: cpu_loop_tokens)
    moreover have "?list = [] \<Longrightarrow> set cpus = {}" using calculation by (simp add: cpu_loop_tokens)
    ultimately show ?thesis using parse_key[of "''cpuset''" ?list "\<lparr>n_workers = int n, boss_affinity = {}\<rparr>"] l
      by (auto simp: set_key_def)
  qed
  have "\<not> set (filter_value val) \<subseteq> {CHR '';''}" by (simp add: assms(4))
  moreover have "fold parse_token (tokens '';'' (filter_value val)) \<lparr>n_workers = 0, boss_affinity = {}\<rparr> = \<lparr>n_workers = int n, boss_affinity = set cpus\<rparr>"
    by (simp only: t fold.simps o_apply id_apply 1 2 cilk_config.simps)
  ultimately show ?thesis by (simp only: cfg_from_env_tokens[of getenv name val, OF assms(1)] if_False)
qed

lemma config_roundtrip_witness:
  "cilk_cfg_from_env [''CILK'' \<mapsto> ''NWorkers = 4; CPUset = 0,2''] {} (Some ''CILK'') = Inr \<lparr>n_workers = 4, boss_affinity = {0, 2}\<rparr>"
proof -
  have "filter_value ''NWorkers = 4; CPUset = 0,2'' = ''nworkers='' @ decimal 4 @ '';cpuset='' @ join (CHR '','') (map decimal [0, 2])"
    by code_simp
  moreover have "\<And>c. c \<in> set [0, 2] \<Longrightarrow> c < CPU_SETSIZE" by (auto simp: CPU_SETSIZE_def)
  ultimately show ?thesis
    using config_roundtrip[of "[''CILK'' \<mapsto> ''NWorkers = 4; CPUset = 0,2'']" "''CILK''" "''NWorkers = 4; CPUset = 0,2''" 4 "[0, 2]" "{}"] by simp
qed

text \<open>(C32) The parser always ends, and crashes on exactly the values without a key: those of which nothing
  but semicolons is left.  Otherwise the set contains only valid CPU numbers and the number of workers
  fits in an \<open>int\<close>.\<close>

theorem config_total:
  assumes "getenv name = Some val"
  shows "case cilk_cfg_from_env getenv own (Some name) of
     Inl e \<Rightarrow> e = Null_pointer \<and> set (filter_value val) \<subseteq> {CHR '';''}
   | Inr cfg \<Rightarrow> \<not> set (filter_value val) \<subseteq> {CHR '';''} \<and> boss_affinity cfg \<subseteq> {..< CPU_SETSIZE} \<and>
       - (2 ^ 31) \<le> n_workers cfg \<and> n_workers cfg < 2 ^ 31"
proof -
  let ?ok = "\<lambda>cfg. boss_affinity cfg \<subseteq> {..< CPU_SETSIZE} \<and> - (2 ^ 31) \<le> n_workers cfg \<and> n_workers cfg < 2 ^ 31"
  have cpus: "m \<subseteq> {..< CPU_SETSIZE} \<Longrightarrow> fold (\<lambda>t. CPU_SET (atoi t)) ts m \<subseteq> {..< CPU_SETSIZE}" for ts m
  proof (induction ts arbitrary: m)
    case (Cons t ts)
    have "CPU_SET (atoi t) m \<subseteq> {..< CPU_SETSIZE}" using Cons(2) by (auto simp: CPU_SET_def)
    then show ?case using Cons(1) by simp
  qed simp
  have "- (2 ^ 31) \<le> atoi s \<and> atoi s < 2 ^ 31" for s
    unfolding atoi_def using sint_ge[of "word_of_int (strtol False s) :: 32 word"] sint_lt[of "word_of_int (strtol False s) :: 32 word"] by simp
  then have key: "?ok cfg \<Longrightarrow> ?ok (set_key k d cfg)" for k d cfg
    using cpus[of "{}"] by (auto simp: set_key_def Let_def cpu_loop_tokens)
  have "?ok cfg \<Longrightarrow> ?ok (parse_token t cfg)" for t cfg
    using key by (auto simp: parse_token_def split: option.splits)
  then have "?ok cfg \<Longrightarrow> ?ok (fold parse_token ts cfg)" for ts cfg by (induction ts arbitrary: cfg) auto
  then have "?ok (fold parse_token (tokens '';'' (filter_value val)) \<lparr>n_workers = 0, boss_affinity = {}\<rparr>)" by simp
  then show ?thesis by (simp add: cfg_from_env_tokens[of getenv name val, OF assms])
qed

lemma config_total_witness: "cilk_cfg_from_env [''CILK'' \<mapsto> '' ; ''] {} (Some ''CILK'') = Inl Null_pointer"
proof -
  have "set (filter_value '' ; '') \<subseteq> {CHR '';''}"
    by (simp add: filter_value_def keep_char_def lower_def isdigit_def isupper_def islower_def less_eq_char_def)
  then show ?thesis using config_total[of "[''CILK'' \<mapsto> '' ; '']" "''CILK''" "'' ; ''" "{}"] by (auto split: sum.splits)
qed

end
