(* ===== verification/Options.thy ===== *)
theory Options
  imports Config_Parse
begin

text \<open>
  The settings of a runtime (runtime/global.c): the option setters with their assertions, the
  environment variables, and the number of workers; and how \<open>threads_init\<close> (runtime/init.c) spreads the
  workers over the CPUs.  \<open>getenv\<close>, the CPUs of the calling thread and \<open>sysconf\<close> are arguments.
\<close>

section \<open>Options\<close>

record global_options =
  o_stacksize :: "64 word"
  o_nproc :: "32 word"
  o_reducer_cap :: "32 word"
  o_deqdepth :: "32 word"
  o_fiber_pool_cap :: "32 word"
  o_force_reduce :: "32 word"
  workers_started :: bool
  g_nworkers :: "32 word"
  exiting_worker :: "32 word"

definition DEFAULT_OPTIONS :: global_options where
  "DEFAULT_OPTIONS = \<lparr>o_stacksize = 0x100000, o_nproc = 0, o_reducer_cap = 1024, o_deqdepth = 1024, o_fiber_pool_cap = 128,
     o_force_reduce = 0, workers_started = False, g_nworkers = 0, exiting_worker = 0\<rparr>"

definition env_get_int :: "(string \<Rightarrow> string option) \<Rightarrow> string \<Rightarrow> int" where
  "env_get_int getenv var = (case getenv var of None \<Rightarrow> 0 | Some s \<Rightarrow> strtol True s)"

definition set_stacksize :: "64 word \<Rightarrow> (global_options, unit) act" where
  "set_stacksize n =
     thenA (check (\<lambda>g. \<not> workers_started g) (Assertion Global_c 55))
    (thenA (check (\<lambda>_. 16384 \<le> n) (Assertion Global_c 56))
    (thenA (check (\<lambda>_. n \<le> 100 * 1024 * 1024) (Assertion Global_c 57))
           (modify (\<lambda>g. g\<lparr>o_stacksize := n\<rparr>))))"

definition set_deqdepth :: "32 word \<Rightarrow> (global_options, unit) act" where
  "set_deqdepth n =
     thenA (check (\<lambda>g. \<not> workers_started g) (Assertion Global_c 63))
    (thenA (check (\<lambda>_. 1 \<le> n) (Assertion Global_c 64))
    (thenA (check (\<lambda>_. n \<le> 99999) (Assertion Global_c 65))
           (modify (\<lambda>g. g\<lparr>o_deqdepth := n\<rparr>))))"

definition set_fiber_pool_cap :: "32 word \<Rightarrow> (global_options, unit) act" where
  "set_fiber_pool_cap n =
     thenA (check (\<lambda>g. \<not> workers_started g) (Assertion Global_c 71))
    (thenA (check (\<lambda>_. 8 \<le> n) (Assertion Global_c 72))
    (thenA (check (\<lambda>_. n \<le> 999999) (Assertion Global_c 73))
           (modify (\<lambda>g. g\<lparr>o_fiber_pool_cap := n\<rparr>))))"

definition set_nworkers :: "32 word \<Rightarrow> (global_options, unit) act" where
  "set_nworkers n =
     thenA (check (\<lambda>g. \<not> workers_started g) (Assertion Global_c 80))
    (thenA (check (\<lambda>g. n \<le> o_nproc g) (Assertion Global_c 81))
    (thenA (check (\<lambda>g. exiting_worker g < n) (Assertion Global_c 82))
           (modify (\<lambda>g. g\<lparr>g_nworkers := n\<rparr>))))"

definition set_force_reduce :: "32 word \<Rightarrow> (global_options, unit) act" where
  "set_force_reduce n =
     thenA (check (\<lambda>g. \<not> workers_started g) (Assertion Global_c 89))
           (modify (\<lambda>g. g\<lparr>o_force_reduce := n\<rparr>))"

text \<open>The number of processors: what the caller asks for, else the CPUs of the calling thread, else the
  processors online.\<close>

definition choose_nproc :: "32 word \<Rightarrow> int \<Rightarrow> int \<Rightarrow> (global_options, unit) act" where
  "choose_nproc nworkers available_cores online =
     bindA (gets o_nproc) (\<lambda>nproc.
       if nproc = 0 then
         if 0 < uint nworkers then modify (\<lambda>g. g\<lparr>o_nproc := nworkers\<rparr>)
         else if 0 < available_cores then modify (\<lambda>g. g\<lparr>o_nproc := word_of_int available_cores\<rparr>)
         else if available_cores = 0 \<and> 0 < online then modify (\<lambda>g. g\<lparr>o_nproc := word_of_int online\<rparr>)
         else ret ()
       else check (\<lambda>_. nproc < 10000) (Assertion Global_c 133))"

definition parse_rts_environment :: "(string \<Rightarrow> string option) \<Rightarrow> int \<Rightarrow> int \<Rightarrow> 32 word \<Rightarrow> (global_options, unit) act" where
  "parse_rts_environment getenv available_cores online nworkers =
     (let stacksize = word_of_int (env_get_int getenv ''CILK_STACKSIZE'') :: 64 word;
          deqdepth = word_of_int (env_get_int getenv ''CILK_DEQDEPTH'') :: 32 word;
          fiber_pool_cap = word_of_int (env_get_int getenv ''CILK_FIBER_POOL'') :: 32 word in
      thenA (whenA (0 < stacksize) (set_stacksize stacksize))
     (thenA (whenA (0 < deqdepth) (set_deqdepth deqdepth))
     (thenA (whenA (0 < fiber_pool_cap) (set_fiber_pool_cap fiber_pool_cap))
     (thenA (choose_nproc nworkers available_cores online)
     (thenA (modify (\<lambda>g. g\<lparr>o_force_reduce := word_of_int (env_get_int getenv ''CILK_FORCE_REDUCE'')\<rparr>))
     (bindA (gets o_force_reduce) (\<lambda>f.
        whenA (f \<noteq> 0)
          (if uint nworkers \<noteq> 1 then modify (\<lambda>g. g\<lparr>o_force_reduce := 0\<rparr>)
           else modify (\<lambda>g. g\<lparr>o_nproc := 1\<rparr>)))))))))"

text \<open>The part of \<open>global_state_init\<close> that concerns the options; \<open>argc\<close> is the number of workers the
  caller asks for.\<close>

definition init_options :: "(string \<Rightarrow> string option) \<Rightarrow> int \<Rightarrow> int \<Rightarrow> 32 word \<Rightarrow> fault + global_options" where
  "init_options getenv available_cores online argc =
     (case thenA (parse_rts_environment getenv available_cores online argc)
          (bindA (gets o_nproc) (\<lambda>active_size.
           thenA (check (\<lambda>_. 0 < active_size) (Assertion Global_c 170))
                 (modify (\<lambda>g. g\<lparr>g_nworkers := active_size\<rparr>)))) DEFAULT_OPTIONS of
        Inl e \<Rightarrow> Inl e | Inr (_, g) \<Rightarrow> Inr g)"

section \<open>Binding workers to CPUs\<close>

text \<open>The parameters of the binding: how many CPUs a worker gets, the distance between them and the
  distance to the first CPU of the next worker.  \<open>pin\<close> is \<open>CILK_PIN\<close>, \<open>dflt\<close> the strategy of the
  platform; no binding is \<open>available_cores = 0\<close>.\<close>

record pinning =
  p_cores :: nat
  group_size :: nat
  step_in :: nat
  step_out :: nat

definition choose_pinning :: "bool \<Rightarrow> int \<Rightarrow> nat \<Rightarrow> nat \<Rightarrow> pinning" where
  "choose_pinning dflt pin available n_threads =
     (let pin_strategy = (if pin = 1 then False else if pin = 2 then True else dflt);
          cores = (if pin = 3 then 0 else available) in
      if cores < n_threads then \<lparr>p_cores = 0, group_size = 1, step_in = 1, step_out = 1\<rparr>
      else let g = cores div n_threads in
        if pin_strategy then \<lparr>p_cores = cores, group_size = g, step_in = 1, step_out = g\<rparr>
        else \<lparr>p_cores = cores, group_size = g, step_in = g, step_out = 1\<rparr>)"

text \<open>\<open>while (!CPU_ISSET(cpu, &process_mask)) ++cpu;\<close>: beyond \<open>CPU_SETSIZE\<close> no bit is set and the loop
  goes on for ever.\<close>

function skip_inactive :: "nat \<Rightarrow> nat set \<Rightarrow> nat option" where
  "skip_inactive cpu m = (if cpu \<in> m then Some cpu else if CPU_SETSIZE \<le> cpu then None else skip_inactive (cpu + 1) m)"
  by pat_completeness auto
termination by (relation "measure (\<lambda>(cpu, _). CPU_SETSIZE - cpu)") auto

declare skip_inactive.simps [simp del]

definition move_bit :: "nat \<Rightarrow> nat set \<times> nat set \<Rightarrow> nat set \<times> nat set" where
  "move_bit cpu tf = (if cpu \<in> snd tf then (insert cpu (fst tf), snd tf - {cpu}) else tf)"

text \<open>The loop over the workers; the result is the mask of each.\<close>

fun bind_workers :: "pinning \<Rightarrow> nat \<Rightarrow> nat \<Rightarrow> nat set \<Rightarrow> nat set list option" where
  "bind_workers p 0 cpu process_mask = Some []"
| "bind_workers p (Suc n) cpu process_mask =
     (case skip_inactive cpu process_mask of None \<Rightarrow> None
      | Some cpu \<Rightarrow>
          (let (worker_mask, process_mask) = fold (\<lambda>off. move_bit (cpu + off * step_in p)) [1 ..< group_size p] ({cpu}, process_mask - {cpu}) in
           case bind_workers p n (cpu + step_out p) process_mask of None \<Rightarrow> None | Some ms \<Rightarrow> Some (worker_mask # ms)))"

text \<open>The binding part of \<open>threads_init\<close>: nothing (\<open>Some None\<close>) if there are more workers than CPUs.\<close>

definition bind_threads :: "bool \<Rightarrow> int \<Rightarrow> nat set \<Rightarrow> nat \<Rightarrow> nat set list option option" where
  "bind_threads dflt pin process_mask n_threads =
     (let p = choose_pinning dflt pin (card process_mask) n_threads in
      if p_cores p = 0 then Some None
      else case bind_workers p n_threads 0 process_mask of None \<Rightarrow> None | Some ms \<Rightarrow> Some (Some ms))"

section \<open>The options a runtime starts with\<close>

text \<open>(C33) The options are in range: a runtime starts only with a stack of 16 KB to 100 MB, a shadow
  stack of 1 to 99999 slots, a fiber pool of 8 to 999999 fibers and at least one worker, the number asked
  for if there is one; else it stops at an assertion.  A depth is read modulo \<open>2 ^ 32\<close>, and 0 leaves
  the default.  Reductions are forced only with a single worker.\<close>

theorem options_in_range:
  "case init_options getenv available_cores online argc of
     Inl e \<Rightarrow> e \<in> Assertion Global_c ` {56, 57, 65, 72, 73, 170}
   | Inr g \<Rightarrow> 16384 \<le> o_stacksize g \<and> o_stacksize g \<le> 104857600 \<and> 1 \<le> o_deqdepth g \<and> o_deqdepth g \<le> 99999 \<and>
       8 \<le> o_fiber_pool_cap g \<and> o_fiber_pool_cap g \<le> 999999 \<and> 0 < g_nworkers g \<and> g_nworkers g = o_nproc g \<and>
       (0 < argc \<longrightarrow> g_nworkers g = argc) \<and> (o_force_reduce g \<noteq> 0 \<longrightarrow> g_nworkers g = 1) \<and> \<not> workers_started g \<and>
       o_deqdepth g = (let d = word_of_int (env_get_int getenv ''CILK_DEQDEPTH'') in if d = 0 then 1024 else d)"
proof -
  define ss :: "64 word" where "ss = word_of_int (env_get_int getenv ''CILK_STACKSIZE'')"
  define dd :: "32 word" where "dd = word_of_int (env_get_int getenv ''CILK_DEQDEPTH'')"
  define fc :: "32 word" where "fc = word_of_int (env_get_int getenv ''CILK_FIBER_POOL'')"
  define fr :: "32 word" where "fr = word_of_int (env_get_int getenv ''CILK_FORCE_REDUCE'')"
  have d1: "dd \<noteq> 0 \<Longrightarrow> 1 \<le> dd" by (simp add: word_le_nat_alt unat_gt_0 Suc_le_eq)
  have arg: "0 < uint argc \<longleftrightarrow> 0 < argc" by (simp add: word_less_def)
  have one: "uint argc \<noteq> 1 \<longleftrightarrow> argc \<noteq> 1" by (metis uint_1 word_uint_eq_iff)
  show ?thesis
    unfolding init_options_def parse_rts_environment_def Let_def ss_def[symmetric] dd_def[symmetric] fc_def[symmetric] fr_def[symmetric] arg
    by (cases "ss = 0"; cases "dd = 0"; cases "fc = 0"; cases "argc = 0")
       (auto simp: set_stacksize_def set_deqdepth_def set_fiber_pool_cap_def choose_nproc_def DEFAULT_OPTIONS_def arg one d1 word_gt_0 act_defs)
qed

lemma options_in_range_witness:
  "\<exists>g. init_options [''CILK_DEQDEPTH'' \<mapsto> ''0x100000005''] 8 8 4 = Inr g \<and> o_deqdepth g = 5 \<and> g_nworkers g = 4"
proof -
  let ?env = "[''CILK_DEQDEPTH'' \<mapsto> ''0x100000005'']"
  have e: "env_get_int ?env ''CILK_DEQDEPTH'' = 0x100000005"
    by (simp add: env_get_int_def strtol_def split_base_def digit_val_def isdigit_def isupper_def islower_def isspace_def
        less_eq_char_def clamp_long_def LONG_MIN_def LONG_MAX_def)
  have n: "env_get_int ?env ''CILK_STACKSIZE'' = 0" "env_get_int ?env ''CILK_FIBER_POOL'' = 0" "env_get_int ?env ''CILK_FORCE_REDUCE'' = 0"
    by (simp_all add: env_get_int_def)
  have w: "(word_of_int 0x100000005 :: 32 word) = 5" by simp
  have "\<exists>g. init_options ?env 8 8 4 = Inr g"
    unfolding init_options_def parse_rts_environment_def e n w
    by (simp add: Let_def set_deqdepth_def choose_nproc_def DEFAULT_OPTIONS_def act_flat_run cong: run_cong)
  then show ?thesis using options_in_range[where getenv = ?env and available_cores = 8 and online = 8 and argc = 4] unfolding e w by (auto simp: Let_def)
qed

section \<open>The CPUs of the workers\<close>

lemma skip_inactive_Min:
  assumes "finite m" "m \<noteq> {}" "m \<subseteq> {..< CPU_SETSIZE}" "\<And>x. x \<in> m \<Longrightarrow> cpu \<le> x"
  shows "skip_inactive cpu m = Some (Min m)"
  using assms
proof (induction cpu m rule: skip_inactive.induct)
  case (1 cpu m)
  show ?case
  proof (cases "cpu \<in> m")
    case True
    then have "Min m = cpu" using 1(2,5) by (intro Min_eqI) auto
    then show ?thesis using True by (subst skip_inactive.simps) simp
  next
    case False
    obtain x where "x \<in> m" using 1(3) by auto
    then have "\<not> CPU_SETSIZE \<le> cpu" using 1(4) 1(5)[of x] by auto
    moreover have "\<And>x. x \<in> m \<Longrightarrow> cpu + 1 \<le> x" using 1(5) False by (metis Suc_eq_plus1 Suc_leI le_neq_implies_less)
    ultimately show ?thesis using 1(1)[OF False] 1(2-4) False by (subst skip_inactive.simps) simp
  qed
qed

lemma fold_move_bit:
  "fold (\<lambda>off. move_bit (f off)) xs (T, F) = (T \<union> (F \<inter> f ` set xs), F - f ` set xs)"
  by (induction xs arbitrary: T F) (auto simp: move_bit_def)

text \<open>The masks are a choice of pairwise disjoint, non-empty sets of at most \<open>g\<close> CPUs.\<close>

fun masks_ok :: "nat \<Rightarrow> nat set \<Rightarrow> nat set list \<Rightarrow> bool" where
  "masks_ok g m [] \<longleftrightarrow> True"
| "masks_ok g m (x # xs) \<longleftrightarrow> x \<noteq> {} \<and> x \<subseteq> m \<and> card x \<le> g \<and> masks_ok g (m - x) xs"

lemma masks_ok_disjoint:
  "masks_ok g m ms \<Longrightarrow> (\<forall>x \<in> set ms. x \<noteq> {} \<and> x \<subseteq> m \<and> card x \<le> g) \<and>
     (\<forall>i < length ms. \<forall>j < length ms. i \<noteq> j \<longrightarrow> ms ! i \<inter> ms ! j = {})"
proof (induction ms arbitrary: m)
  case (Cons x ms)
  have ih: "\<forall>y \<in> set ms. y \<noteq> {} \<and> y \<subseteq> m - x \<and> card y \<le> g" "\<forall>i < length ms. \<forall>j < length ms. i \<noteq> j \<longrightarrow> ms ! i \<inter> ms ! j = {}"
    using Cons(1)[of "m - x"] Cons(2) by simp_all
  have "(x # ms) ! i \<inter> (x # ms) ! j = {}" if ij: "i < length (x # ms)" "j < length (x # ms)" "i \<noteq> j" for i j
  proof (cases i; cases j)
    fix i' j' assume "i = Suc i'" "j = Suc j'"
    then show ?thesis using ih(2) ij by simp
  next
    fix j' assume "i = 0" "j = Suc j'"
    then show ?thesis using ih(1) ij nth_mem[of j' ms] by fastforce
  next
    fix i' assume "i = Suc i'" "j = 0"
    then show ?thesis using ih(1) ij nth_mem[of i' ms] by fastforce
  qed (use ij in simp)
  then show ?case using Cons(2) ih(1) by auto
qed simp

lemma bind_workers_ok:
  assumes "finite m" "m \<subseteq> {..< CPU_SETSIZE}" "\<And>x. x \<in> m \<Longrightarrow> cpu \<le> x" "n * group_size p \<le> card m" "0 < group_size p"
    and st: "(step_in p = group_size p \<and> step_out p = 1) \<or> (step_in p = 1 \<and> step_out p = group_size p)"
  shows "\<exists>ms. bind_workers p n cpu m = Some ms \<and> length ms = n \<and> masks_ok (group_size p) m ms"
  using assms(1-4)
proof (induction n arbitrary: cpu m)
  case (Suc n)
  let ?g = "group_size p" and ?c = "Min m"
  have ne: "m \<noteq> {}" using Suc(5) assms(5) by auto
  have c: "?c \<in> m" "\<And>x. x \<in> m \<Longrightarrow> ?c \<le> x" using Suc(2) ne by simp_all
  let ?S = "(\<lambda>off. ?c + off * step_in p) ` {1 ..< ?g}"
  let ?w = "{?c} \<union> ((m - {?c}) \<inter> ?S)" and ?m = "m - {?c} - ?S"
  have sk: "skip_inactive cpu m = Some ?c" by (rule skip_inactive_Min) (use Suc ne in auto)
  have card_w: "card ?w \<le> ?g"
  proof -
    have "card ?w \<le> card ({?c} \<union> ?S)" by (rule card_mono) auto
    also have "\<dots> \<le> 1 + card ?S" using card_Un_le[of "{?c}" ?S] by simp
    also have "\<dots> \<le> 1 + (?g - 1)" using card_image_le[of "{1 ..< ?g}" "\<lambda>off. ?c + off * step_in p"] by simp
    finally show ?thesis using assms(5) by simp
  qed
  have eq: "?m = m - ?w" by auto
  have sub: "?w \<subseteq> m" using c(1) by auto
  have card_m: "n * ?g \<le> card ?m"
    unfolding eq using card_Diff_subset[of ?w m] sub finite_subset[OF sub Suc(2)] card_w Suc(5) by simp
  have ge: "?c + step_out p \<le> x" if x: "x \<in> ?m" for x
  proof -
    have "?c < x" using x c(2)[of x] by (metis DiffD1 DiffD2 insertI1 le_neq_implies_less)
    moreover have "?c + ?g \<le> x" if s: "step_in p = 1"
    proof (rule ccontr)
      assume "\<not> ?c + ?g \<le> x"
      then have "x - ?c \<in> {1 ..< ?g}" "x = ?c + (x - ?c) * step_in p" using \<open>?c < x\<close> s by auto
      then have "x \<in> ?S" by blast
      then show False using x by simp
    qed
    ultimately show ?thesis using st by auto
  qed
  obtain ms where ms: "bind_workers p n (?c + step_out p) ?m = Some ms" "length ms = n" "masks_ok ?g ?m ms"
    using Suc(1)[OF _ _ ge card_m] Suc(2,3) by blast
  have "bind_workers p (Suc n) cpu m = Some (?w # ms)"
    using ms(1) by (simp add: sk fold_move_bit)
  moreover have "masks_ok ?g m (?w # ms)" using ms(3) card_w sub unfolding eq by simp
  ultimately show ?case using ms(2) by (intro exI[of _ "?w # ms"]) simp
qed simp

lemma bind_threads_free:
  "pin = 3 \<or> card process_mask < n_threads \<Longrightarrow> 0 < n_threads \<Longrightarrow> bind_threads dflt pin process_mask n_threads = Some None"
  by (auto simp: bind_threads_def choose_pinning_def Let_def)

lemma bind_threads_bound:
  assumes "process_mask \<subseteq> {..< CPU_SETSIZE}" "0 < n_threads" "\<not> (pin = 3 \<or> card process_mask < n_threads)"
  shows "\<exists>ms. bind_threads dflt pin process_mask n_threads = Some (Some ms) \<and> length ms = n_threads
     \<and> masks_ok (card process_mask div n_threads) process_mask ms"
proof -
  let ?p = "choose_pinning dflt pin (card process_mask) n_threads"
  have p: "p_cores ?p = card process_mask" "group_size ?p = card process_mask div n_threads" 
    "(step_in ?p = group_size ?p \<and> step_out ?p = 1) \<or> (step_in ?p = 1 \<and> step_out ?p = group_size ?p)"
    using assms(3) by (auto simp: choose_pinning_def Let_def)
  have "0 < card process_mask" "0 < group_size ?p" using assms(2,3) p(2) by (auto simp: div_greater_zero_iff)
  moreover have "n_threads * group_size ?p \<le> card process_mask" by (simp add: p(2))
  moreover have "finite process_mask" using assms(1) finite_subset by blast
  ultimately obtain ms where ms: "bind_workers ?p n_threads 0 process_mask = Some ms" "length ms = n_threads" "masks_ok (group_size ?p) process_mask ms"
    using bind_workers_ok[of process_mask 0 n_threads ?p] assms(1) p(3) by auto
  then show ?thesis using p(1,2) \<open>0 < card process_mask\<close> by (auto simp: bind_threads_def Let_def)
qed

lemma bind_threads_total:
  "process_mask \<subseteq> {..< CPU_SETSIZE} \<Longrightarrow> 0 < n_threads \<Longrightarrow> \<exists>m. bind_threads dflt pin process_mask n_threads = Some m"
  using bind_threads_free bind_threads_bound by blast

text \<open>(C34) Binding always ends, whatever CPUs are active and whichever strategy is chosen: with at least
  as many CPUs as workers every worker gets a mask of its own, non-empty, disjoint from the others and of
  at most \<open>cores / workers\<close> CPUs of the process; else, or when \<open>CILK_PIN\<close> is 3, no worker is bound.\<close>

theorem binding_disjoint:
  assumes "process_mask \<subseteq> {..< CPU_SETSIZE}" "0 < n_threads"
  shows "if pin = 3 \<or> card process_mask < n_threads then bind_threads dflt pin process_mask n_threads = Some None
     else \<exists>ms. bind_threads dflt pin process_mask n_threads = Some (Some ms) \<and> length ms = n_threads \<and>
       (\<forall>m \<in> set ms. m \<noteq> {} \<and> m \<subseteq> process_mask \<and> card m \<le> card process_mask div n_threads) \<and>
       (\<forall>i < n_threads. \<forall>j < n_threads. i \<noteq> j \<longrightarrow> ms ! i \<inter> ms ! j = {})"
proof (cases "pin = 3 \<or> card process_mask < n_threads")
  case True
  then show ?thesis using assms(2) bind_threads_free by simp
next
  case False
  then obtain ms where "bind_threads dflt pin process_mask n_threads = Some (Some ms)" "length ms = n_threads"
      "masks_ok (card process_mask div n_threads) process_mask ms"
    using bind_threads_bound[OF assms] by blast
  then show ?thesis using False masks_ok_disjoint by auto
qed

lemma binding_disjoint_witness: "\<exists>ms. bind_threads False 0 {0 ..< 8} 2 = Some (Some ms) \<and> length ms = 2 \<and> ms ! 0 \<inter> ms ! 1 = {}"
proof -
  have "{0 ..< 8} \<subseteq> {..< CPU_SETSIZE}" "(0 :: nat) < 2" by (auto simp: CPU_SETSIZE_def)
  from binding_disjoint[OF this, of 0 False] show ?thesis by auto
qed

text \<open>Eight CPUs and two workers, with the strategy of Linux: each worker is bound to two CPUs, although
  there are four for each.\<close>

lemma binding_leaves_cpus: "bind_threads False 0 {0 ..< 8} 2 = Some (Some [{0, 4}, {1, 5}])"
  by code_simp

end
