(* ===== verification/Startup.thy ===== *)
theory Startup
  imports Hyperobjects Abi Options
begin

text \<open>
  Starting and stopping a runtime (runtime/init.c, and \<open>global_state_init\<close> of runtime/global.c): the
  workers, deques and the root closure, the beginning and the end of a Cilkified region as the thread
  that runs them sees it, the loop around a worker's scheduler, shutdown, and the callbacks of the user.
  Creating, joining and waking threads is the business of the threads library; waiting for a flag is
  \<open>Blocked\<close> while the flag is not set.  \<open>Region_Protocol\<close> has the interleaving of the threads.
\<close>

section \<open>State\<close>

definition MAX_CALLBACKS :: nat where "MAX_CALLBACKS = 32"

record cilkrts_callbacks =
  last_init :: nat
  last_exit :: nat
  after_init :: bool
  cb_init :: "nat option list"
  cb_exit :: "nat option list"

record 'v runtime = "'v hyper_state" +
  opts :: global_options
  g_start :: bool
  g_cilkified :: bool
  g_terminate :: bool
  callbacks :: cilkrts_callbacks
  called :: "nat list"     \<comment> \<open>the callbacks that have run, the last one first\<close>

definition nproc :: "('v, 'a) runtime_scheme \<Rightarrow> nat" where
  "nproc s = unat (o_nproc (opts s))"

definition for_each_worker :: "(worker_id \<Rightarrow> (('v, 'a) runtime_scheme, unit) act) \<Rightarrow> (('v, 'a) runtime_scheme, unit) act" where
  "for_each_worker f = bindA (gets nproc) (\<lambda>n. forA [0 ..< n] f)"

definition for_each_worker_rev :: "(worker_id \<Rightarrow> (('v, 'a) runtime_scheme, unit) act) \<Rightarrow> (('v, 'a) runtime_scheme, unit) act" where
  "for_each_worker_rev f = bindA (gets nproc) (\<lambda>n. forA (rev [0 ..< n]) f)"

section \<open>Starting a runtime\<close>

text \<open>The settings, the flags, the allocator and the global fiber pool.\<close>

definition global_state_init :: "(string \<Rightarrow> string option) \<Rightarrow> int \<Rightarrow> int \<Rightarrow> 32 word \<Rightarrow> (('v, 'a) runtime_scheme, unit) act" where
  "global_state_init getenv available_cores online argc =
     (case init_options getenv available_cores online argc of Inl e \<Rightarrow> fail e
      | Inr g \<Rightarrow>
          thenA (modify (\<lambda>s. s\<lparr>opts := g, nworkers := unat (g_nworkers g), force_reduce := o_force_reduce g \<noteq> 0,
                   opt_stacksize := unat (o_stacksize g), opt_fiber_pool_cap := unat (o_fiber_pool_cap g)\<rparr>))
         (thenA (modify (\<lambda>s. s\<lparr>root_closure_initialized := False, g_start := False, g_done := False, g_cilkified := False,
                   g_terminate := False, exit_worker := Some 0\<rparr>))
         (thenA cilk_internal_malloc_global_init
         (thenA cilk_fiber_pool_global_init
                (modify (\<lambda>s. s\<lparr>id_manager := None\<rparr>))))))"

definition worker_local_init :: "nat \<Rightarrow> worker" where
  "worker_local_init deqdepth = idle_worker\<lparr>shadow_stack := replicate deqdepth None\<rparr>"

definition init_worker :: "worker_id \<Rightarrow> (('v, 'a) runtime_scheme, unit) act" where
  "init_worker w =
     bindA (gets (\<lambda>s. unat (o_deqdepth (opts s)))) (\<lambda>d.
     thenA (upd_w w (\<lambda>_. worker_local_init d))
    (thenA (upd_w w (\<lambda>l. l\<lparr>ltq_limit := int d, tail := 1, head := 1, exc := 1, current_stack_frame := None\<rparr>))
    (thenA (modify (\<lambda>s. s\<lparr>wrmap := (wrmap s)(w := None)\<rparr>))
    (thenA (cilk_internal_malloc_per_worker_init w)
           (cilk_fiber_pool_per_worker_init w)))))"

definition workers_init :: "(('v, 'a) runtime_scheme, unit) act" where
  "workers_init = for_each_worker init_worker"

definition deques_init :: "(('v, 'a) runtime_scheme, unit) act" where
  "deques_init = for_each_worker (\<lambda>i. upd_dq i (\<lambda>_. \<lparr>dq_mutex = cilk_mutex_init, top = None, bottom = None, dq_owner = NO_WORKER\<rparr>))"

definition exiting :: "(('v, 'a) runtime_scheme, worker_id) act" where
  "exiting = bindA (gets exit_worker) derefA"

definition startup :: "(string \<Rightarrow> string option) \<Rightarrow> int \<Rightarrow> int \<Rightarrow> 32 word \<Rightarrow> (('v, 'a) runtime_scheme, unit) act" where
  "startup getenv available_cores online argc =
     thenA (global_state_init getenv available_cores online argc)
    (thenA reducers_init
    (thenA workers_init
    (thenA deques_init
    (bindA exiting (\<lambda>w.
     thenA (assertA (w = 0) Init_c 273)
    (thenA (reducers_import w)
    (bindA (Closure_create w) (\<lambda>t.
     bindA (gets opt_stacksize) (\<lambda>sz.
     bindA (cilk_fiber_allocate w sz) (\<lambda>fb.
     thenA (upd_cl t (\<lambda>k. k\<lparr>fiber := Some fb\<rparr>))
           (modify (\<lambda>s. s\<lparr>root_closure := Some t\<rparr>))))))))))))"

text \<open>\<open>threads_init\<close>: the masks are those of \<open>bind_threads\<close>; the threads start in \<open>scheduler_thread_proc\<close>.\<close>

definition start_workers :: "bool \<Rightarrow> int \<Rightarrow> nat set \<Rightarrow> (('v, 'a) runtime_scheme, nat set list option) act" where
  "start_workers dflt pin process_mask =
     bindA (gets nworkers) (\<lambda>n.
     thenA (assertA (0 < n) Init_c 197)
    (case bind_threads dflt pin process_mask n of None \<Rightarrow> fail No_fuel
     | Some masks \<Rightarrow>
         thenA (modify (\<lambda>s. s\<lparr>opts := (opts s)\<lparr>workers_started := True\<rparr>\<rparr>))
               (ret masks)))"

definition stop_workers :: "(('v, 'a) runtime_scheme, unit) act" where
  "stop_workers =
     thenA (check (\<lambda>s. \<not> g_start s) (Assertion Init_c 316))
    (bindA (bindA (gets root_closure) derefA) (\<lambda>t.
     bindA (get_cl t) (\<lambda>c.
     thenA (assertA (status c \<noteq> CLOSURE_READY) Init_c 317)
    (thenA (modify (\<lambda>s. s\<lparr>g_terminate := True\<rparr>))
    (thenA (modify (\<lambda>s. s\<lparr>g_start := True\<rparr>))
           (modify (\<lambda>s. s\<lparr>opts := (opts s)\<lparr>workers_started := False\<rparr>\<rparr>)))))))"

section \<open>A Cilkified region\<close>

definition invoke_cilkified_root ::
  "bool \<Rightarrow> int \<Rightarrow> nat set \<Rightarrow> worker_id option \<Rightarrow> addr \<Rightarrow> (('v, 'a) runtime_scheme, unit) act" where
  "invoke_cilkified_root dflt pin process_mask tls sf =
     thenA (assertA (tls = None) Init_c 342)
    (bindA (gets (\<lambda>s. workers_started (opts s))) (\<lambda>started.
     thenA (whenA (\<not> started) (bindA (start_workers dflt pin process_mask) (\<lambda>_. ret ())))
    (thenA (modify (\<lambda>s. s\<lparr>root_closure_initialized := False\<rparr>))
    (bindA (bindA (gets root_closure) derefA) (\<lambda>t.
     thenA (Closure_make_ready t)
    (bindA (get_cl t) (\<lambda>c.
     bindA (sysdep_reset_stack_for_resume (fiber c) (Some sf)) (\<lambda>new_rsp.
     bindA (get_sf (Some sf)) (\<lambda>f.
     thenA (assertA (SP f = Some new_rsp) Init_c 358)
    (thenA (upd_sf (Some sf) (\<lambda>f. f\<lparr>flags := flags f OR CILK_FRAME_LAST\<rparr>))
    (thenA (upd_sf (Some sf) cilkrts_set_stolen)
    (thenA (upd_cl t (\<lambda>k. k\<lparr>frame := Some sf\<rparr>))
    (thenA (modify (\<lambda>s. s\<lparr>g_cilkified := True\<rparr>))
    (thenA (modify (\<lambda>s. s\<lparr>g_done := False\<rparr>))
           (modify (\<lambda>s. s\<lparr>g_start := True\<rparr>))))))))))))))))"

definition wait_until_cilk_done :: "(('v, 'a) runtime_scheme, unit) act" where
  "wait_until_cilk_done = check (\<lambda>s. \<not> g_cilkified s) Blocked"

text \<open>The thread that enters a region; what the workers do until it is over is the argument \<open>workers_run\<close>,
  \<open>ctx\<close> the stack and frame pointer saved by \<open>__builtin_setjmp\<close>, \<open>orig_rsp\<close> the thread's own.\<close>

definition cilkify ::
  "(('v, 'a) runtime_scheme, unit) act \<Rightarrow> bool \<Rightarrow> int \<Rightarrow> nat set \<Rightarrow> worker_id option \<Rightarrow> addr \<times> addr \<Rightarrow> addr \<Rightarrow> addr \<Rightarrow> (('v, 'a) runtime_scheme, unit) act" where
  "cilkify workers_run dflt pin process_mask tls ctx rsp sf =
     thenA (upd_sf (Some sf) (\<lambda>f. f\<lparr>SP := Some (fst ctx), FP := Some (snd ctx)\<rparr>))
    (thenA (invoke_cilkified_root dflt pin process_mask tls sf)
    (thenA workers_run
    (thenA wait_until_cilk_done
           (upd_sf (Some sf) (\<lambda>f. f\<lparr>SP := Some rsp\<rparr>)))))"

definition exit_cilkified_root :: "addr \<Rightarrow> (('v, 'a) runtime_scheme, unit) act" where
  "exit_cilkified_root sf =
     bindA (frame_worker_of sf) (\<lambda>w.
     thenA (modify (\<lambda>s. s\<lparr>exit_worker := Some w, opts := (opts s)\<lparr>exiting_worker := of_nat w\<rparr>\<rparr>))
    (thenA (modify (\<lambda>s. s\<lparr>g_start := False\<rparr>))
    (thenA (modify (\<lambda>s. s\<lparr>g_done := True\<rparr>))
    (thenA (upd_dq w (\<lambda>d. d\<lparr>bottom := None, top := None\<rparr>))
    (bindA (bindA (gets root_closure) derefA) (\<lambda>t.
     thenA (upd_cl t (\<lambda>k. k\<lparr>owner_ready_deque := NO_WORKER\<rparr>))
    (bindA (get_sf (Some sf)) (\<lambda>f.
     thenA (assertA (cilkrts_synced f) Init_c 434)
           (upd_sf (Some sf) (\<lambda>f. f\<lparr>flags := 0\<rparr>))))))))))"

definition uncilkify :: "addr \<times> addr \<Rightarrow> addr \<Rightarrow> (('v, 'a) runtime_scheme, unit) act" where
  "uncilkify ctx sf =
     thenA (upd_sf (Some sf) (\<lambda>f. f\<lparr>SP := Some (fst ctx), FP := Some (snd ctx)\<rparr>))
           (exit_cilkified_root sf)"

text \<open>The \<open>longjmp\<close> to the scheduling loop at the end of \<open>exit_cilkified_root\<close> is the end of the user's
  program in \<open>do_what_it_says\<close>.  One pass of the loop of a worker thread; false when the thread ends.\<close>

definition scheduler_thread_pass :: "nat \<Rightarrow> (('v, 'a) runtime_scheme, unit) act \<Rightarrow> worker_id \<Rightarrow> (('v, 'a) runtime_scheme, bool) act" where
  "scheduler_thread_pass n user self =
     thenA (check g_start Blocked)
    (bindA (gets g_terminate) (\<lambda>stop.
       if stop then ret False
       else
         bindA (gets (\<lambda>s. exit_worker s = Some self)) (\<lambda>first.
         bindA (gets root_closure) (\<lambda>root.
         thenA (worker_scheduler n user self (if first then root else None))
        (bindA (gets (\<lambda>s. exit_worker s = Some self)) (\<lambda>last.
         thenA (whenA last (modify (\<lambda>s. s\<lparr>g_cilkified := False\<rparr>)))
               (ret True)))))))"

definition get_worker_number :: "worker_id option \<Rightarrow> (('v, 'a) runtime_scheme, worker_id) act" where
  "get_worker_number tls = (case tls of Some w \<Rightarrow> ret w | None \<Rightarrow> exiting)"

section \<open>Callbacks\<close>

definition atinit :: "nat \<Rightarrow> (('v, 'a) runtime_scheme, int) act" where
  "atinit cb =
     bindA (gets callbacks) (\<lambda>c.
       if MAX_CALLBACKS \<le> last_init c then ret (- 1)
       else thenA (modify (\<lambda>s. s\<lparr>callbacks := c\<lparr>cb_init := (cb_init c)[last_init c := Some cb], last_init := last_init c + 1\<rparr>\<rparr>))
                  (ret 0))"

definition atexit :: "nat \<Rightarrow> (('v, 'a) runtime_scheme, int) act" where
  "atexit cb =
     bindA (gets callbacks) (\<lambda>c.
       if MAX_CALLBACKS \<le> last_exit c then ret (- 1)
       else thenA (modify (\<lambda>s. s\<lparr>callbacks := c\<lparr>cb_exit := (cb_exit c)[last_exit c := Some cb], last_exit := last_exit c + 1\<rparr>\<rparr>))
                  (ret 0))"

text \<open>Calling a callback: the user's code is its number in the log.\<close>

definition call_back :: "nat option list \<Rightarrow> nat \<Rightarrow> (('v, 'a) runtime_scheme, unit) act" where
  "call_back cbs i =
     thenA (check (\<lambda>_. i < length cbs) Out_of_bounds)
    (bindA (derefA (cbs ! i)) (\<lambda>cb.
     modify (\<lambda>s. s\<lparr>called := cb # called s\<rparr>)))"

definition run_init_callbacks :: "(('v, 'a) runtime_scheme, unit) act" where
  "run_init_callbacks = bindA (gets callbacks) (\<lambda>c. forA [0 ..< last_init c] (call_back (cb_init c)))"

definition run_exit_callbacks :: "(('v, 'a) runtime_scheme, unit) act" where
  "run_exit_callbacks = bindA (gets callbacks) (\<lambda>c. forA (rev [0 ..< last_exit c]) (call_back (cb_exit c)))"

definition default_startup :: "(string \<Rightarrow> string option) \<Rightarrow> int \<Rightarrow> int \<Rightarrow> (('v, 'a) runtime_scheme, unit) act" where
  "default_startup getenv available_cores online =
     thenA (startup getenv available_cores online 0)
    (thenA run_init_callbacks
           (modify (\<lambda>s. s\<lparr>callbacks := (callbacks s)\<lparr>after_init := True\<rparr>\<rparr>)))"

text \<open>The runtime of a new thread, with the configured number of workers.\<close>

definition cilk_thrd_init :: "(string \<Rightarrow> string option) \<Rightarrow> int \<Rightarrow> int \<Rightarrow> cilk_config \<Rightarrow> (('v, 'a) runtime_scheme, unit) act" where
  "cilk_thrd_init getenv available_cores online config =
     thenA (startup getenv available_cores online (word_of_int (n_workers config)))
           run_init_callbacks"

section \<open>Shutdown\<close>

definition worker_terminate :: "worker_id \<Rightarrow> (('v, 'a) runtime_scheme, unit) act" where
  "worker_terminate w =
     thenA (cilk_fiber_pool_per_worker_terminate w)
    (bindA (gets (\<lambda>s. wrmap s w)) (\<lambda>rm.
     thenA (modify (\<lambda>s. s\<lparr>wrmap := (wrmap s)(w := None)\<rparr>))
    (thenA (whenA (rm \<noteq> None) (cilkred_map_destroy_map w rm))
           (cilk_internal_malloc_per_worker_terminate w))))"

definition workers_terminate :: "(('v, 'a) runtime_scheme, unit) act" where
  "workers_terminate = for_each_worker_rev worker_terminate"

definition wrap_fiber_pool_destroy :: "worker_id \<Rightarrow> (('v, 'a) runtime_scheme, unit) act" where
  "wrap_fiber_pool_destroy w =
     bindA (get_w w) (\<lambda>l.
     thenA (assertA (fiber_to_free l = None) Init_c 502)
           (cilk_fiber_pool_per_worker_destroy w))"

text \<open>The allocator checks itself when memory debugging is on; printing statistics is left out.\<close>

definition cilk_internal_malloc_global_terminate :: "bool \<Rightarrow> (('v, 'a) runtime_scheme, unit) act" where
  "cilk_internal_malloc_global_terminate debug_memory =
     whenA debug_memory (bindA (gets nproc) (\<lambda>n. internal_malloc_global_check [0 ..< n]))"

definition global_state_terminate :: "bool \<Rightarrow> (('v, 'a) runtime_scheme, unit) act" where
  "global_state_terminate debug_memory =
     thenA cilk_fiber_pool_global_terminate
           (cilk_internal_malloc_global_terminate debug_memory)"

text \<open>The allocations still counted in the buckets of the workers.\<close>

definition sum_allocations :: "('v, 'a) runtime_scheme \<Rightarrow> nat \<Rightarrow> int" where
  "sum_allocations s i = (\<Sum>w \<leftarrow> rev [0 ..< nproc s]. b_allocated (buckets (wim s w) i))"

definition workers_deinit :: "bool \<Rightarrow> (('v, 'a) runtime_scheme, unit) act" where
  "workers_deinit debug_memory =
     thenA (whenA debug_memory (check (\<lambda>s. \<forall>i \<in> set [0 ..< NUM_BUCKETS]. sum_allocations s i = 0) (Assertion Init_c 515)))
           (for_each_worker_rev (\<lambda>w.
              thenA (cilk_internal_malloc_per_worker_destroy w)
                    (upd_w w (\<lambda>l. l\<lparr>shadow_stack := []\<rparr>))))"

definition deques_deinit :: "(('v, 'a) runtime_scheme, unit) act" where
  "deques_deinit = for_each_worker (\<lambda>i. bindA (get_dq i) (\<lambda>d. assertA (dq_owner d = NO_WORKER) Init_c 473))"

definition global_state_deinit :: "(('v, 'a) runtime_scheme, unit) act" where
  "global_state_deinit =
     thenA cilk_fiber_pool_global_destroy
    (thenA cilk_internal_malloc_global_destroy
           (modify (\<lambda>s. s\<lparr>nworkers := 0, id_manager := None\<rparr>)))"

definition shutdown :: "bool \<Rightarrow> (('v, 'a) runtime_scheme, unit) act" where
  "shutdown debug_memory =
     bindA (gets (\<lambda>s. workers_started (opts s))) (\<lambda>started.
     thenA (whenA started stop_workers)
    (thenA run_exit_callbacks
    (bindA (bindA (gets root_closure) derefA) (\<lambda>t.
     bindA (get_cl t) (\<lambda>c.
     bindA (derefA (fiber c)) (\<lambda>fb.
     thenA (cilk_fiber_deallocate_global fb)
    (thenA (Closure_destroy_global t)
    (thenA reducers_deinit
    (thenA workers_terminate
    (thenA (for_each_worker wrap_fiber_pool_destroy)
    (thenA (global_state_terminate debug_memory)
    (thenA (workers_deinit debug_memory)
    (thenA deques_deinit
           global_state_deinit)))))))))))))"

end
