(* ===== verification/Region_Protocol.thy ===== *)
theory Region_Protocol
  imports Startup
begin

text \<open>
  The beginning and the end of Cilkified regions as an interleaving (runtime/init.c): the thread that
  owns the runtime, the \<open>boss\<close>, and its worker threads communicate through the flags \<open>start\<close>,
  \<open>done\<close>, \<open>cilkified\<close>, \<open>terminate\<close> and the number \<open>exiting_worker\<close>.  Every access to one of them is a
  step, all in one global order.  Of the program in between only the root frame is kept: it waits in the
  root closure, runs on one worker, is stolen from it, or is suspended at a sync and resumed by any
  worker.  A worker that runs a frame spawned by it may do so for any time.
\<close>

section \<open>States and steps\<close>

text \<open>The boss in \<open>invoke_cilkified_root\<close>, \<open>wait_until_cilk_done\<close> and \<open>__cilkrts_stop_workers\<close>.\<close>

datatype boss_pc = B_user | B_ready | B_cilkified | B_cleared | B_wait | B_terminated | B_join | B_gone

text \<open>A worker in \<open>scheduler_thread_proc\<close>: \<open>W_sched True\<close> has entered \<open>worker_scheduler\<close> with the root
  closure; \<open>W_run\<close> runs the root frame and goes through \<open>exit_cilkified_root\<close>; \<open>W_bug\<close> has found the
  root closure not ready.\<close>

datatype worker_pc =
  W_wait | W_started | W_check | W_sched bool | W_run | W_named | W_stopped | W_child | W_left | W_ended | W_bug

datatype root_frame = R_idle | R_ready | R_running worker_id | R_suspended

record region_state =
  r_start :: bool
  r_done :: bool
  r_cilkified :: bool
  r_terminate :: bool
  r_exiting :: worker_id
  boss :: boss_pc
  pcs :: "worker_id \<Rightarrow> worker_pc"
  root :: root_frame
  begun :: nat      \<comment> \<open>regions the boss has begun\<close>
  picked :: nat     \<comment> \<open>times a root frame was started\<close>
  ended :: nat      \<comment> \<open>times a root frame reached its end\<close>

definition region_init :: region_state where
  "region_init = \<lparr>r_start = False, r_done = False, r_cilkified = False, r_terminate = False, r_exiting = 0,
     boss = B_user, pcs = (\<lambda>_. W_wait), root = R_idle, begun = 0, picked = 0, ended = 0\<rparr>"

definition go :: "worker_id \<Rightarrow> worker_pc \<Rightarrow> region_state \<Rightarrow> region_state" where
  "go w p s = s\<lparr>pcs := (pcs s)(w := p)\<rparr>"

inductive boss_step :: "nat \<Rightarrow> region_state \<Rightarrow> region_state \<Rightarrow> bool" for n where
  make_ready: "boss s = B_user \<Longrightarrow>
    boss_step n s (s\<lparr>boss := B_ready, root := R_ready, begun := begun s + 1\<rparr>)"
| set_cilkified: "boss s = B_ready \<Longrightarrow> boss_step n s (s\<lparr>r_cilkified := True, boss := B_cilkified\<rparr>)"
| clear_done: "boss s = B_cilkified \<Longrightarrow> boss_step n s (s\<lparr>r_done := False, boss := B_cleared\<rparr>)"
| set_start: "boss s = B_cleared \<Longrightarrow> boss_step n s (s\<lparr>r_start := True, boss := B_wait\<rparr>)"
| wait_over: "boss s = B_wait \<Longrightarrow> \<not> r_cilkified s \<Longrightarrow> boss_step n s (s\<lparr>boss := B_user\<rparr>)"
| terminate: "boss s = B_user \<Longrightarrow> 0 < begun s \<Longrightarrow> boss_step n s (s\<lparr>r_terminate := True, boss := B_terminated\<rparr>)"
| wake_all: "boss s = B_terminated \<Longrightarrow> boss_step n s (s\<lparr>r_start := True, boss := B_join\<rparr>)"
| joined: "boss s = B_join \<Longrightarrow> \<forall>w < n. pcs s w = W_ended \<Longrightarrow> boss_step n s (s\<lparr>boss := B_gone\<rparr>)"

inductive worker_step :: "worker_id \<Rightarrow> region_state \<Rightarrow> region_state \<Rightarrow> bool" for w where
  wake: "pcs s w = W_wait \<Longrightarrow> r_start s \<Longrightarrow> worker_step w s (go w W_started s)"
| end_thread: "pcs s w = W_started \<Longrightarrow> r_terminate s \<Longrightarrow> worker_step w s (go w W_ended s)"
| go_on: "pcs s w = W_started \<Longrightarrow> \<not> r_terminate s \<Longrightarrow> worker_step w s (go w W_check s)"
| enter: "pcs s w = W_check \<Longrightarrow> worker_step w s (go w (W_sched (w = r_exiting s)) s)"
| leave: "pcs s w = W_sched b \<Longrightarrow> r_done s \<Longrightarrow> worker_step w s (go w W_left s)"
| take_root: "pcs s w = W_sched True \<Longrightarrow> \<not> r_done s \<Longrightarrow> root s = R_ready \<Longrightarrow>
    worker_step w s (go w W_run (s\<lparr>root := R_running w, picked := picked s + 1\<rparr>))"
| bad_root: "pcs s w = W_sched True \<Longrightarrow> \<not> r_done s \<Longrightarrow> root s \<noteq> R_ready \<Longrightarrow> worker_step w s (go w W_bug s)"
| suspend: "pcs s w = W_run \<Longrightarrow> root s = R_running w \<Longrightarrow> worker_step w s (go w (W_sched False) (s\<lparr>root := R_suspended\<rparr>))"
| resume: "pcs s w = W_sched False \<Longrightarrow> \<not> r_done s \<Longrightarrow> root s = R_suspended \<Longrightarrow>
    worker_step w s (go w W_run (s\<lparr>root := R_running w\<rparr>))"
| steal_root: "pcs s w = W_sched False \<Longrightarrow> \<not> r_done s \<Longrightarrow> root s = R_running v \<Longrightarrow> pcs s v = W_run \<Longrightarrow>
    worker_step w s (go w W_run (go v W_child (s\<lparr>root := R_running w\<rparr>)))"
| steal_child: "pcs s w = W_sched False \<Longrightarrow> \<not> r_done s \<Longrightarrow> worker_step w s (go w W_child s)"
| child_done: "pcs s w = W_child \<Longrightarrow> worker_step w s (go w (W_sched False) s)"
| name_exit: "pcs s w = W_run \<Longrightarrow> root s = R_running w \<Longrightarrow> worker_step w s (go w W_named (s\<lparr>r_exiting := w\<rparr>))"
| clear_start: "pcs s w = W_named \<Longrightarrow> worker_step w s (go w W_stopped (s\<lparr>r_start := False\<rparr>))"
| set_done: "pcs s w = W_stopped \<Longrightarrow>
    worker_step w s (go w (W_sched False) (s\<lparr>r_done := True, root := R_idle, ended := ended s + 1\<rparr>))"
| signal: "pcs s w = W_left \<Longrightarrow> w = r_exiting s \<Longrightarrow> worker_step w s (go w W_wait (s\<lparr>r_cilkified := False\<rparr>))"
| again: "pcs s w = W_left \<Longrightarrow> w \<noteq> r_exiting s \<Longrightarrow> worker_step w s (go w W_wait s)"

inductive region_step :: "nat \<Rightarrow> region_state \<Rightarrow> region_state \<Rightarrow> bool" for n where
  by_boss: "boss_step n s s' \<Longrightarrow> region_step n s s'"
| by_worker: "w < n \<Longrightarrow> worker_step w s s' \<Longrightarrow> region_step n s s'"

abbreviation region_steps :: "nat \<Rightarrow> region_state \<Rightarrow> region_state \<Rightarrow> bool" where
  "region_steps n \<equiv> (region_step n)\<^sup>*\<^sup>*"

section \<open>The invariant\<close>

text \<open>A worker that is late, or has no part in the region: wherever it is, it cannot run the root frame.\<close>

definition late :: "worker_pc \<Rightarrow> bool" where
  "late p \<longleftrightarrow> p \<in> {W_wait, W_started, W_check, W_sched False, W_child, W_left}"

lemma late_simps [simp]:
  "late W_wait" "late W_started" "late W_check" "late (W_sched False)" "late W_child" "late W_left"
  "\<not> late W_run" "\<not> late W_named" "\<not> late W_stopped" "\<not> late W_bug" "\<not> late (W_sched True)" "\<not> late W_ended"
  "late (W_sched b) \<longleftrightarrow> \<not> b"
  by (auto simp: late_def)

definition others_late :: "worker_id \<Rightarrow> region_state \<Rightarrow> bool" where
  "others_late e s \<longleftrightarrow> (\<forall>w. w \<noteq> e \<longrightarrow> late (pcs s w))"

definition quiet :: "region_state \<Rightarrow> bool" where
  "quiet s \<longleftrightarrow> \<not> r_start s \<and> \<not> r_terminate s \<and> pcs s (r_exiting s) = W_wait \<and> others_late (r_exiting s) s"

definition all_run :: "region_state \<Rightarrow> bool" where
  "all_run s \<longleftrightarrow> picked s = begun s \<and> ended s = begun s"

definition to_run :: "region_state \<Rightarrow> bool" where
  "to_run s \<longleftrightarrow> root s = R_ready \<and> begun s = ended s + 1 \<and> picked s = ended s"

definition in_run :: "region_state \<Rightarrow> bool" where
  "in_run s \<longleftrightarrow> \<not> r_done s \<and> r_cilkified s \<and> \<not> r_terminate s \<and> begun s = ended s + 1 \<and> picked s = begun s"

definition phase_root :: "region_state \<Rightarrow> bool" where
  "phase_root s \<longleftrightarrow> r_start s \<and> \<not> r_done s \<and> r_cilkified s \<and> \<not> r_terminate s \<and> to_run s
     \<and> pcs s (r_exiting s) \<in> {W_wait, W_started, W_check, W_sched True} \<and> others_late (r_exiting s) s"

definition phase_run :: "nat \<Rightarrow> region_state \<Rightarrow> bool" where
  "phase_run n s \<longleftrightarrow> r_start s \<and> in_run s \<and> pcs s (r_exiting s) \<in> {W_run, W_sched False, W_child}
     \<and> (\<exists>h < n. root s = R_running h \<and> pcs s h = W_run \<and> others_late h s)"

definition phase_suspended :: "region_state \<Rightarrow> bool" where
  "phase_suspended s \<longleftrightarrow> r_start s \<and> in_run s \<and> pcs s (r_exiting s) \<in> {W_sched False, W_child}
     \<and> root s = R_suspended \<and> (\<forall>w. late (pcs s w))"

definition phase_exit :: "region_state \<Rightarrow> bool" where
  "phase_exit s \<longleftrightarrow> in_run s \<and> root s = R_running (r_exiting s) \<and> others_late (r_exiting s) s
     \<and> (r_start s \<and> pcs s (r_exiting s) = W_named \<or> \<not> r_start s \<and> pcs s (r_exiting s) = W_stopped)"

definition phase_ended :: "region_state \<Rightarrow> bool" where
  "phase_ended s \<longleftrightarrow> \<not> r_start s \<and> r_done s \<and> r_cilkified s \<and> \<not> r_terminate s \<and> root s = R_idle \<and> all_run s
     \<and> pcs s (r_exiting s) \<in> {W_sched False, W_left} \<and> others_late (r_exiting s) s"

definition phase_over :: "region_state \<Rightarrow> bool" where
  "phase_over s \<longleftrightarrow> quiet s \<and> r_done s \<and> \<not> r_cilkified s \<and> root s = R_idle \<and> all_run s"

lemmas phase_defs =
  phase_root_def phase_run_def phase_suspended_def phase_exit_def phase_ended_def phase_over_def
  quiet_def all_run_def to_run_def in_run_def others_late_def

definition ending :: "region_state \<Rightarrow> bool" where
  "ending s \<longleftrightarrow> r_done s \<and> r_terminate s \<and> root s = R_idle \<and> all_run s
     \<and> (\<forall>w. w \<noteq> r_exiting s \<longrightarrow> late (pcs s w) \<or> pcs s w = W_ended)"

fun boss_inv :: "nat \<Rightarrow> boss_pc \<Rightarrow> region_state \<Rightarrow> bool" where
  "boss_inv n B_user s = (quiet s \<and> \<not> r_cilkified s \<and> root s = R_idle \<and> all_run s \<and> (0 < begun s \<longrightarrow> r_done s))"
| "boss_inv n B_ready s = (quiet s \<and> \<not> r_cilkified s \<and> to_run s)"
| "boss_inv n B_cilkified s = (quiet s \<and> r_cilkified s \<and> to_run s)"
| "boss_inv n B_cleared s = (quiet s \<and> r_cilkified s \<and> \<not> r_done s \<and> to_run s)"
| "boss_inv n B_wait s = (phase_root s \<or> phase_run n s \<or> phase_suspended s \<or> phase_exit s \<or> phase_ended s \<or> phase_over s)"
| "boss_inv n B_terminated s = (ending s \<and> \<not> r_start s \<and> pcs s (r_exiting s) = W_wait)"
| "boss_inv n B_join s = (ending s \<and> r_start s \<and> pcs s (r_exiting s) \<in> {W_wait, W_started, W_ended})"
| "boss_inv n B_gone s = (ending s \<and> r_start s \<and> pcs s (r_exiting s) = W_ended \<and> (\<forall>w < n. pcs s w = W_ended))"

definition region_inv :: "nat \<Rightarrow> region_state \<Rightarrow> bool" where
  "region_inv n s \<longleftrightarrow> r_exiting s < n \<and> boss_inv n (boss s) s"

lemma region_inv_init: "0 < n \<Longrightarrow> region_inv n region_init"
  by (simp add: region_inv_def region_init_def phase_defs)

lemma go_simps [simp]:
  "pcs (go w p s) v = (if v = w then p else pcs s v)"
  "r_start (go w p s) = r_start s" "r_done (go w p s) = r_done s" "r_cilkified (go w p s) = r_cilkified s"
  "r_terminate (go w p s) = r_terminate s" "r_exiting (go w p s) = r_exiting s" "boss (go w p s) = boss s"
  "root (go w p s) = root s" "begun (go w p s) = begun s" "picked (go w p s) = picked s" "ended (go w p s) = ended s"
  by (simp_all add: go_def)

lemma boss_step_inv: "boss_step n s s' \<Longrightarrow> region_inv n s \<Longrightarrow> region_inv n s'"
  by (induction rule: boss_step.induct) (auto simp: region_inv_def phase_defs ending_def)

text \<open>The steps of a worker, by the place of the boss.\<close>

lemma worker_step_quiet:
  assumes "worker_step w s s'" "quiet s" "root s = R_idle \<or> root s = R_ready"
  shows "quiet s' \<and> (\<exists>p. s' = go w p s)"
proof -
  have "w = r_exiting s \<or> late (pcs s w)" using assms(2) by (auto simp: quiet_def others_late_def)
  then show ?thesis
    using assms by (elim worker_step.cases) (auto simp: quiet_def others_late_def split: if_splits)
qed

lemma worker_step_root:
  assumes "worker_step w s s'" "phase_root s" "w < n"
  shows "phase_root s' \<or> phase_run n s'"
proof -
  have "w = r_exiting s \<or> late (pcs s w)" using assms(2) by (auto simp: phase_defs)
  then show ?thesis
    using assms by (elim worker_step.cases) (auto simp: phase_defs split: if_splits)
qed

lemma worker_step_run:
  assumes "worker_step w s s'" "phase_run n s" "w < n"
  shows "phase_run n s' \<or> phase_suspended s' \<or> phase_exit s'"
proof -
  obtain h where h: "root s = R_running h" "pcs s h = W_run" "others_late h s" using assms(2) by (auto simp: phase_run_def)
  then have "w = h \<or> late (pcs s w)" by (auto simp: others_late_def)
  then show ?thesis
    using assms h by (elim worker_step.cases) (auto simp: phase_defs split: if_splits)
qed

lemma worker_step_suspended:
  assumes "worker_step w s s'" "phase_suspended s" "w < n"
  shows "phase_run n s' \<or> phase_suspended s'"
proof -
  have "late (pcs s w)" using assms(2) by (auto simp: phase_suspended_def)
  then show ?thesis
    using assms by (elim worker_step.cases) (auto simp: phase_defs split: if_splits)
qed

lemma worker_step_exit:
  assumes "worker_step w s s'" "phase_exit s"
  shows "phase_exit s' \<or> phase_ended s'"
proof -
  have "w = r_exiting s \<or> late (pcs s w)" using assms(2) by (auto simp: phase_defs)
  then show ?thesis
    using assms by (elim worker_step.cases) (auto simp: phase_defs split: if_splits)
qed

lemma worker_step_ended:
  assumes "worker_step w s s'" "phase_ended s"
  shows "phase_ended s' \<or> phase_over s'"
proof -
  have "w = r_exiting s \<or> late (pcs s w)" using assms(2) by (auto simp: phase_defs)
  then show ?thesis
    using assms by (elim worker_step.cases) (auto simp: phase_defs split: if_splits)
qed

lemma worker_step_ending:
  assumes "worker_step w s s'" "ending s" "pcs s (r_exiting s) \<in> {W_wait, W_started, W_ended}"
  shows "ending s' \<and> (\<exists>p. s' = go w p s \<and> (pcs s w = W_ended \<longrightarrow> p = W_ended))
     \<and> pcs s' (r_exiting s') \<in> (if r_start s then {W_wait, W_started, W_ended} else {pcs s (r_exiting s), W_ended})
     \<and> (pcs s' (r_exiting s') = W_ended \<longrightarrow> pcs s (r_exiting s) \<in> {W_started, W_ended})"
proof -
  have "w = r_exiting s \<or> late (pcs s w) \<or> pcs s w = W_ended" using assms(2) by (auto simp: ending_def)
  then show ?thesis
    using assms by (elim worker_step.cases) (auto simp: ending_def all_run_def split: if_splits)
qed

lemma worker_step_frame:
  "worker_step w s s' \<Longrightarrow> boss s' = boss s \<and> begun s' = begun s \<and> (r_exiting s' = r_exiting s \<or> r_exiting s' = w)"
  by (elim worker_step.cases) auto

lemma go_quiet_simps [simp]:
  "to_run (go w p s) \<longleftrightarrow> to_run s" "all_run (go w p s) \<longleftrightarrow> all_run s" "in_run (go w p s) \<longleftrightarrow> in_run s"
  by (simp_all add: to_run_def all_run_def in_run_def)

lemma worker_step_boss_inv:
  assumes "worker_step w s s'" "w < n" "boss_inv n (boss s) s"
  shows "boss_inv n (boss s) s'"
proof (cases "boss s")
  case B_user
  then show ?thesis using assms(3) worker_step_quiet[OF assms(1)] by auto
next
  case B_ready
  then show ?thesis using assms(3) worker_step_quiet[OF assms(1)] by (auto simp: to_run_def)
next
  case B_cilkified
  then show ?thesis using assms(3) worker_step_quiet[OF assms(1)] by (auto simp: to_run_def)
next
  case B_cleared
  then show ?thesis using assms(3) worker_step_quiet[OF assms(1)] by (auto simp: to_run_def)
next
  case B_wait
  have over: "phase_over s \<Longrightarrow> phase_over s'"
    using worker_step_quiet[OF assms(1)] by (auto simp: phase_over_def)
  show ?thesis
    using assms(3) B_wait over worker_step_root[OF assms(1) _ assms(2)] worker_step_run[OF assms(1) _ assms(2)]
      worker_step_suspended[OF assms(1) _ assms(2)] worker_step_exit[OF assms(1)] worker_step_ended[OF assms(1)]
    by auto
next
  case B_terminated
  then show ?thesis using assms(3) worker_step_ending[OF assms(1)] by auto
next
  case B_join
  then show ?thesis using assms(3) worker_step_ending[OF assms(1)] by auto
next
  case B_gone
  then have "pcs s w = W_ended" using assms(2,3) by simp
  then show ?thesis using assms(1) by (elim worker_step.cases) auto
qed

lemma region_step_inv: "region_step n s s' \<Longrightarrow> region_inv n s \<Longrightarrow> region_inv n s'"
proof (induction rule: region_step.induct)
  case (by_boss s s')
  then show ?case by (rule boss_step_inv)
next
  case (by_worker w s s')
  then show ?case
    using worker_step_boss_inv[of w s s' n] worker_step_frame[of w s s'] by (auto simp: region_inv_def)
qed

lemma region_reachable_inv:
  assumes "region_steps n region_init s" "0 < n"
  shows "region_inv n s"
  using assms(1)
proof (induction rule: rtranclp_induct)
  case base
  then show ?case using assms(2) by (rule region_inv_init)
next
  case (step s s')
  then show ?case by (auto intro: region_step_inv)
qed

text \<open>The workers that run the root frame or finish it.\<close>

definition runs_root :: "worker_pc \<Rightarrow> bool" where
  "runs_root p \<longleftrightarrow> p \<in> {W_run, W_named, W_stopped}"

lemma runs_root_simps [simp]:
  "runs_root W_run" "runs_root W_named" "runs_root W_stopped" "\<not> runs_root W_ended" "\<not> runs_root W_bug"
  "\<not> runs_root (W_sched b)" "\<not> runs_root W_wait" "\<not> runs_root W_started" "\<not> runs_root W_check"
  "\<not> runs_root W_child" "\<not> runs_root W_left"
  by (auto simp: runs_root_def)

lemma late_not_root: "late p \<Longrightarrow> \<not> runs_root p \<and> p \<noteq> W_bug"
  by (auto simp: late_def runs_root_def)

lemma inv_one_runner:
  assumes "region_inv n s"
  shows "\<exists>e. \<forall>w. w \<noteq> e \<longrightarrow> \<not> runs_root (pcs s w) \<and> pcs s w \<noteq> W_bug"
proof -
  have *: "others_late e s \<Longrightarrow> ?thesis" for e
    by (rule exI[of _ e]) (auto simp: others_late_def dest: late_not_root)
  show ?thesis
  proof (cases "ending s")
    case True
    then show ?thesis by (intro exI[of _ "r_exiting s"]) (auto simp: ending_def dest: late_not_root)
  next
    case False
    then show ?thesis
      using assms by (cases "boss s")
        (auto simp: region_inv_def phase_root_def phase_run_def phase_suspended_def phase_exit_def phase_ended_def
           phase_over_def quiet_def intro: * dest: late_not_root)
  qed
qed

lemma others_no_bug: "others_late e s \<Longrightarrow> pcs s e \<noteq> W_bug \<Longrightarrow> pcs s w \<noteq> W_bug"
  by (cases "w = e") (auto simp: others_late_def dest: late_not_root)

lemma inv_no_bug:
  assumes "region_inv n s"
  shows "pcs s w \<noteq> W_bug"
proof (cases "ending s")
  case True
  then show ?thesis
    using assms by (cases "boss s"; cases "w = r_exiting s")
      (auto simp: region_inv_def ending_def phase_defs dest: late_not_root)
next
  case False
  show ?thesis
  proof (cases "phase_suspended s")
    case True
    then show ?thesis using late_not_root by (auto simp: phase_suspended_def)
  next
    case False
    have "\<exists>e. others_late e s \<and> pcs s e \<noteq> W_bug"
      using assms False \<open>\<not> ending s\<close> by (cases "boss s")
        (fastforce simp: region_inv_def phase_root_def phase_run_def phase_exit_def phase_ended_def phase_over_def quiet_def)+
    then show ?thesis using others_no_bug by blast
  qed
qed

section \<open>Every region is run once\<close>

lemma inv_counts:
  assumes "region_inv n s"
  shows "ended s \<le> picked s \<and> picked s \<le> begun s \<and> begun s \<le> ended s + 1"
  using assms by (cases "boss s")
    (auto simp: region_inv_def ending_def all_run_def to_run_def in_run_def phase_root_def phase_run_def phase_exit_def
       phase_ended_def phase_over_def phase_suspended_def)

lemma inv_user: "region_inv n s \<Longrightarrow> boss s = B_user \<Longrightarrow> ended s = begun s \<and> \<not> r_start s \<and> \<not> r_cilkified s"
  by (auto simp: region_inv_def quiet_def all_run_def)

lemma inv_gone: "region_inv n s \<Longrightarrow> boss s = B_gone \<Longrightarrow> ended s = begun s \<and> (\<forall>w < n. pcs s w = W_ended)"
  by (auto simp: region_inv_def ending_def all_run_def)

text \<open>(C36) Under every interleaving of the boss with its workers, over any number of Cilkified regions and a
  shutdown, the root frame of a region is started at most once and never started without a region; at
  most one worker runs it at a time, and no worker finds the root closure not ready.  When the boss is out
  of a region, all the root frames begun have reached their end and the flags are down, so that the
  assertions of \<open>__cilkrts_stop_workers\<close> hold; after the shutdown every worker thread has ended.\<close>

theorem region_once:
  assumes "0 < n" "region_steps n region_init s"
  shows "(ended s \<le> picked s \<and> picked s \<le> begun s \<and> begun s \<le> ended s + 1)
    \<and> (\<exists>e. \<forall>w. w \<noteq> e \<longrightarrow> \<not> runs_root (pcs s w)) \<and> (\<forall>w. pcs s w \<noteq> W_bug)
    \<and> (boss s = B_user \<longrightarrow> ended s = begun s \<and> \<not> r_start s \<and> \<not> r_cilkified s)
    \<and> (boss s = B_gone \<longrightarrow> ended s = begun s \<and> (\<forall>w < n. pcs s w = W_ended))"
proof -
  have inv: "region_inv n s" using assms(2,1) by (rule region_reachable_inv)
  show ?thesis
    using inv_counts[OF inv] inv_one_runner[OF inv] inv_no_bug[OF inv] inv_user[OF inv] inv_gone[OF inv] by blast
qed

text \<open>A region of two workers: worker 0 starts the root frame, worker 1 steals and finishes it.\<close>

definition region_done :: region_state where
  "region_done = \<lparr>r_start = False, r_done = True, r_cilkified = False, r_terminate = False, r_exiting = 1,
     boss = B_user, pcs = (\<lambda>_. W_wait)(0 := W_child, 1 := W_wait), root = R_idle, begun = 1, picked = 1, ended = 1\<rparr>"

lemma boss_run: "boss_step n s s' \<Longrightarrow> region_steps n s' t \<Longrightarrow> region_steps n s t"
  by (blast intro: converse_rtranclp_into_rtranclp by_boss)

lemma worker_run: "worker_step w s s' \<Longrightarrow> w < n \<Longrightarrow> region_steps n s' t \<Longrightarrow> region_steps n s t"
  by (blast intro: converse_rtranclp_into_rtranclp by_worker)

lemma region_example: "region_steps 2 region_init region_done"
  unfolding region_init_def region_done_def go_def
  apply (rule boss_run[OF make_ready], simp)
  apply (rule boss_run[OF set_cilkified], simp)
  apply (rule boss_run[OF clear_done], simp)
  apply (rule boss_run[OF set_start], simp)
  apply (rule worker_run[OF wake[where w = 0]], simp, simp, simp)
  apply (rule worker_run[OF wake[where w = 1]], simp, simp, simp)
  apply (rule worker_run[OF go_on[where w = 0]], simp, simp, simp)
  apply (rule worker_run[OF go_on[where w = 1]], simp, simp, simp)
  apply (rule worker_run[OF enter[where w = 0]], simp, simp)
  apply (rule worker_run[OF enter[where w = 1]], simp, simp)
  apply (rule worker_run[OF take_root[where w = 0]], simp, simp, simp, simp)
  apply (rule worker_run[OF steal_root[where w = 1 and v = 0]], simp, simp, simp, simp, simp)
  apply (rule worker_run[OF name_exit[where w = 1]], simp, simp, simp)
  apply (rule worker_run[OF clear_start[where w = 1]], simp, simp)
  apply (rule worker_run[OF set_done[where w = 1]], simp, simp)
  apply (rule worker_run[OF leave[where w = 1 and b = False]], simp, simp, simp)
  apply (rule worker_run[OF signal[where w = 1]], simp, simp, simp)
  apply (rule boss_run[OF wait_over], simp, simp)
  apply (simp add: go_def)
  done

lemma region_once_witness:
  "ended region_done = 1 \<and> (\<exists>e. \<forall>w. w \<noteq> e \<longrightarrow> \<not> runs_root (pcs region_done w))"
  using region_once[of 2 region_done] region_example by (simp add: region_done_def)

section \<open>Every region can return\<close>

text \<open>How far a worker is from waiting, and how far the boss is from being out of the region or gone.\<close>

primrec worker_rank :: "worker_pc \<Rightarrow> nat" where
  "worker_rank W_ended = 0"
| "worker_rank W_started = 1"
| "worker_rank W_wait = 2"
| "worker_rank W_left = 3"
| "worker_rank (W_sched b) = 4"
| "worker_rank W_child = 5"
| "worker_rank W_check = 6"
| "worker_rank W_stopped = 7"
| "worker_rank W_named = 8"
| "worker_rank W_run = 9"
| "worker_rank W_bug = 10"

primrec start_rank :: "worker_pc \<Rightarrow> nat" where
  "start_rank W_wait = 4"
| "start_rank W_started = 3"
| "start_rank W_check = 2"
| "start_rank (W_sched b) = 1"
| "start_rank W_run = 0"
| "start_rank W_named = 0"
| "start_rank W_stopped = 0"
| "start_rank W_child = 0"
| "start_rank W_left = 0"
| "start_rank W_ended = 0"
| "start_rank W_bug = 0"

fun region_rank :: "region_state \<Rightarrow> nat" where
  "region_rank s =
    (case root s of R_ready \<Rightarrow> 30 + start_rank (pcs s (r_exiting s))
     | R_suspended \<Rightarrow> 20 + worker_rank (pcs s (r_exiting s))
     | R_running h \<Rightarrow> 10 + worker_rank (pcs s h)
     | R_idle \<Rightarrow> if r_cilkified s then 1 + worker_rank (pcs s (r_exiting s)) else 1)"

declare region_rank.simps [simp del]

fun boss_rank :: "nat \<Rightarrow> region_state \<Rightarrow> nat" where
  "boss_rank n s =
    (case boss s of B_user \<Rightarrow> 0 | B_gone \<Rightarrow> 0 | B_ready \<Rightarrow> 50 | B_cilkified \<Rightarrow> 49 | B_cleared \<Rightarrow> 48
     | B_wait \<Rightarrow> region_rank s
     | B_join \<Rightarrow> 1 + (\<Sum>w < n. worker_rank (pcs s w)) | B_terminated \<Rightarrow> 2 + (\<Sum>w < n. worker_rank (pcs s w)))"

declare boss_rank.simps [simp del]

definition closer :: "nat \<Rightarrow> region_state \<Rightarrow> bool" where
  "closer n s \<longleftrightarrow> (\<exists>s'. region_step n s s' \<and> boss_rank n s' < boss_rank n s)"

lemma closer_boss: "boss_step n s s' \<Longrightarrow> boss_rank n s' < boss_rank n s \<Longrightarrow> closer n s"
  by (auto simp: closer_def intro: by_boss)

lemma closer_worker: "worker_step w s s' \<Longrightarrow> w < n \<Longrightarrow> boss_rank n s' < boss_rank n s \<Longrightarrow> closer n s"
  by (auto simp: closer_def intro: by_worker)

lemmas rank_simps = boss_rank.simps region_rank.simps

lemma ending_move:
  assumes "ending s" "r_start s" "pcs s (r_exiting s) \<in> {W_wait, W_started, W_ended}" "pcs s w \<noteq> W_ended"
  shows "\<exists>q. worker_step w s (go w q s) \<and> worker_rank q < worker_rank (pcs s w)"
proof -
  have "pcs s w = W_wait \<or> pcs s w = W_started \<or> pcs s w = W_check \<or> pcs s w = W_sched False \<or> pcs s w = W_child
      \<or> pcs s w = W_left \<and> w \<noteq> r_exiting s"
    using assms by (cases "w = r_exiting s") (auto simp: ending_def late_def)
  then show ?thesis
    using assms(1,2) wake[of s w] end_thread[of s w] enter[of s w] leave[of s w False] child_done[of s w] again[of s w]
    by (elim disjE) (force simp: ending_def)+
qed

lemma rank_sum_less:
  assumes "w < n" "worker_rank q < worker_rank (pcs s w)"
  shows "(\<Sum>v < n. worker_rank (pcs (go w q s) v)) < (\<Sum>v < n. worker_rank (pcs s v))"
  using assms by (intro sum_strict_mono_ex1) auto

lemma closer_join:
  assumes "boss_inv n B_join s" "boss s = B_join"
  shows "closer n s"
proof (cases "\<forall>w < n. pcs s w = W_ended")
  case True
  then show ?thesis using assms(2) by (intro closer_boss[OF joined]) (auto simp: rank_simps)
next
  case False
  then obtain w where w: "w < n" "pcs s w \<noteq> W_ended" by blast
  then obtain q where "worker_step w s (go w q s)" "worker_rank q < worker_rank (pcs s w)"
    using ending_move[of s w] assms(1) by auto
  then show ?thesis
    using w rank_sum_less[of w n q s] assms(2) by (intro closer_worker[of w s "go w q s"]) (auto simp: rank_simps)
qed

lemma closer_wait:
  assumes "boss_inv n B_wait s" "boss s = B_wait" "r_exiting s < n"
  shows "closer n s"
proof -
  let ?e = "r_exiting s"
  consider "phase_root s" | "phase_run n s" | "phase_suspended s" | "phase_exit s" | "phase_ended s" | "phase_over s"
    using assms(1) by auto
  then show ?thesis
  proof cases
    case 1
    then consider "pcs s ?e = W_wait" | "pcs s ?e = W_started" | "pcs s ?e = W_check" | "pcs s ?e = W_sched True"
      by (auto simp: phase_root_def)
    then show ?thesis
    proof cases
      case 1
      with \<open>phase_root s\<close> assms show ?thesis
        by (intro closer_worker[OF wake[of s ?e]]) (auto simp: phase_defs rank_simps)
    next
      case 2
      with \<open>phase_root s\<close> assms show ?thesis
        by (intro closer_worker[OF go_on[of s ?e]]) (auto simp: phase_defs rank_simps)
    next
      case 3
      with \<open>phase_root s\<close> assms show ?thesis
        by (intro closer_worker[OF enter[of s ?e]]) (auto simp: phase_defs rank_simps)
    next
      case 4
      with \<open>phase_root s\<close> assms show ?thesis
        by (intro closer_worker[OF take_root[of s ?e]]) (auto simp: phase_defs rank_simps)
    qed
  next
    case 2
    then obtain h where "h < n" "root s = R_running h" "pcs s h = W_run" by (auto simp: phase_run_def)
    then show ?thesis using assms by (intro closer_worker[OF name_exit[of s h]]) (auto simp: rank_simps)
  next
    case 3
    then consider "pcs s ?e = W_child" | "pcs s ?e = W_sched False" by (auto simp: phase_suspended_def)
    then show ?thesis
    proof cases
      case 1
      with \<open>phase_suspended s\<close> assms show ?thesis
        by (intro closer_worker[OF child_done[of s ?e]]) (auto simp: phase_defs rank_simps)
    next
      case 2
      with \<open>phase_suspended s\<close> assms show ?thesis
        by (intro closer_worker[OF resume[of s ?e]]) (auto simp: phase_defs rank_simps)
    qed
  next
    case 4
    then consider "pcs s ?e = W_named" | "pcs s ?e = W_stopped" by (auto simp: phase_exit_def)
    then show ?thesis
    proof cases
      case 1
      with \<open>phase_exit s\<close> assms show ?thesis
        by (intro closer_worker[OF clear_start[of s ?e]]) (auto simp: phase_defs rank_simps)
    next
      case 2
      with \<open>phase_exit s\<close> assms show ?thesis
        by (intro closer_worker[OF set_done[of s ?e]]) (auto simp: phase_defs rank_simps)
    qed
  next
    case 5
    then consider "pcs s ?e = W_sched False" | "pcs s ?e = W_left" by (auto simp: phase_ended_def)
    then show ?thesis
    proof cases
      case 1
      with \<open>phase_ended s\<close> assms show ?thesis
        by (intro closer_worker[OF leave[of s ?e False]]) (auto simp: phase_defs rank_simps)
    next
      case 2
      with \<open>phase_ended s\<close> assms show ?thesis
        by (intro closer_worker[OF signal[of s ?e]]) (auto simp: phase_defs rank_simps)
    qed
  next
    case 6
    then show ?thesis using assms by (intro closer_boss[OF wait_over]) (auto simp: phase_over_def rank_simps)
  qed
qed

lemma inv_closer:
  assumes "region_inv n s" "boss s \<noteq> B_user" "boss s \<noteq> B_gone"
  shows "closer n s"
proof -
  have inv: "r_exiting s < n" "boss_inv n (boss s) s" using assms(1) by (auto simp: region_inv_def)
  show ?thesis
  proof (cases "boss s")
    case B_ready
    then show ?thesis by (intro closer_boss[OF set_cilkified]) (auto simp: rank_simps)
  next
    case B_cilkified
    then show ?thesis by (intro closer_boss[OF clear_done]) (auto simp: rank_simps)
  next
    case B_cleared
    then have "region_rank s \<le> 34" "root s = R_ready" using inv by (auto simp: quiet_def to_run_def region_rank.simps)
    with B_cleared inv show ?thesis
      by (intro closer_boss[OF set_start]) (auto simp: boss_rank.simps region_rank.simps)
  next
    case B_wait
    then show ?thesis using inv closer_wait by simp
  next
    case B_terminated
    then show ?thesis by (intro closer_boss[OF wake_all]) (auto simp: rank_simps)
  next
    case B_join
    then show ?thesis using inv closer_join by simp
  qed (use assms in auto)
qed

lemma region_returns_inv:
  "region_inv n s \<Longrightarrow> \<exists>s'. region_steps n s s' \<and> (boss s' = B_user \<or> boss s' = B_gone)"
proof (induction "boss_rank n s" arbitrary: s rule: less_induct)
  case less
  show ?case
  proof (cases "boss s = B_user \<or> boss s = B_gone")
    case True
    then show ?thesis by blast
  next
    case False
    then obtain t where t: "region_step n s t" "boss_rank n t < boss_rank n s"
      using inv_closer[OF less.prems] by (auto simp: closer_def)
    then obtain s' where "region_steps n t s'" "boss s' = B_user \<or> boss s' = B_gone"
      using less.hyps region_step_inv[OF t(1) less.prems] by blast
    with t(1) show ?thesis by (blast intro: converse_rtranclp_into_rtranclp)
  qed
qed

text \<open>(C37) No interleaving can get stuck: from every state that the boss and its workers can reach, however
  late a worker is, the boss can still get out of the region it is in, or out of its shutdown with every
  worker thread ended.\<close>

theorem region_can_return:
  assumes "0 < n" "region_steps n region_init s"
  shows "\<exists>s'. region_steps n s s' \<and> (boss s' = B_user \<or> boss s' = B_gone \<and> (\<forall>w < n. pcs s' w = W_ended))"
proof -
  have "region_inv n s" using assms(2,1) by (rule region_reachable_inv)
  then obtain s' where s': "region_steps n s s'" "boss s' = B_user \<or> boss s' = B_gone"
    using region_returns_inv by blast
  moreover have "region_inv n s'"
    using assms(1) rtranclp_trans[OF assms(2) s'(1)] by (intro region_reachable_inv)
  ultimately show ?thesis using inv_gone by blast
qed

lemma region_can_return_witness:
  "\<exists>s'. region_steps 2 (region_done\<lparr>boss := B_ready, root := R_ready, begun := 2\<rparr>) s'
     \<and> (boss s' = B_user \<or> boss s' = B_gone \<and> (\<forall>w < 2. pcs s' w = W_ended))"
proof (rule region_can_return[of 2])
  have "boss_step 2 region_done (region_done\<lparr>boss := B_ready, root := R_ready, begun := begun region_done + 1\<rparr>)"
    by (rule make_ready) (simp add: region_done_def)
  then have "boss_step 2 region_done (region_done\<lparr>boss := B_ready, root := R_ready, begun := 2\<rparr>)"
    by (simp add: region_done_def numeral_2_eq_2)
  then show "region_steps 2 region_init (region_done\<lparr>boss := B_ready, root := R_ready, begun := 2\<rparr>)"
    using region_example by (blast intro: rtranclp.rtrancl_into_rtrancl by_boss)
qed simp

end
