(* ===== verification/Startup_Correct.thy ===== *)
theory Startup_Correct
  imports Region_Protocol
begin

text \<open>
  The callbacks of the user run in the order of their registration at start-up and in the opposite order
  at shutdown, and the functions of \<open>Startup\<close> that begin and end a region, stop the workers and loop in a
  worker thread make the steps of \<open>Region_Protocol\<close>.
\<close>

section \<open>Callbacks\<close>

definition no_callbacks :: cilkrts_callbacks where
  "no_callbacks = \<lparr>last_init = 0, last_exit = 0, after_init = False,
     cb_init = replicate MAX_CALLBACKS None, cb_exit = replicate MAX_CALLBACKS None\<rparr>"

datatype registration = At_init nat | At_exit nat

primrec register :: "registration \<Rightarrow> (('v, 'a) runtime_scheme, int) act" where
  "register (At_init cb) = atinit cb"
| "register (At_exit cb) = atexit cb"

primrec register_all :: "registration list \<Rightarrow> (('v, 'a) runtime_scheme, int list) act" where
  "register_all [] = ret []"
| "register_all (r # rs) = bindA (register r) (\<lambda>x. bindA (register_all rs) (\<lambda>xs. ret (x # xs)))"

fun inits :: "registration list \<Rightarrow> nat list" where
  "inits [] = []"
| "inits (At_init cb # rs) = cb # inits rs"
| "inits (At_exit cb # rs) = inits rs"

fun exits :: "registration list \<Rightarrow> nat list" where
  "exits [] = []"
| "exits (At_exit cb # rs) = cb # exits rs"
| "exits (At_init cb # rs) = exits rs"

text \<open>The table is well formed: its slots in use hold a function, and there are never more than 32.\<close>

definition slots :: "nat list \<Rightarrow> nat option list" where
  "slots xs = map Some xs @ replicate (MAX_CALLBACKS - length xs) None"

definition callbacks_are :: "bool \<Rightarrow> nat list \<Rightarrow> nat list \<Rightarrow> cilkrts_callbacks \<Rightarrow> bool" where
  "callbacks_are b xs ys c \<longleftrightarrow> length xs \<le> MAX_CALLBACKS \<and> length ys \<le> MAX_CALLBACKS
     \<and> c = \<lparr>last_init = length xs, last_exit = length ys, after_init = b, cb_init = slots xs, cb_exit = slots ys\<rparr>"

definition callbacks_ok :: "cilkrts_callbacks \<Rightarrow> bool" where
  "callbacks_ok c \<longleftrightarrow> length (cb_init c) = MAX_CALLBACKS \<and> length (cb_exit c) = MAX_CALLBACKS
     \<and> last_init c \<le> MAX_CALLBACKS \<and> last_exit c \<le> MAX_CALLBACKS
     \<and> (\<forall>i < last_init c. cb_init c ! i \<noteq> None) \<and> (\<forall>i < last_exit c. cb_exit c ! i \<noteq> None)"

lemma slots_simps [simp]:
  "length xs \<le> MAX_CALLBACKS \<Longrightarrow> length (slots xs) = MAX_CALLBACKS"
  "i < length xs \<Longrightarrow> slots xs ! i = Some (xs ! i)"
  by (simp_all add: slots_def nth_append)

lemma slots_put: "length xs < MAX_CALLBACKS \<Longrightarrow> (slots xs)[length xs := Some cb] = slots (xs @ [cb])"
  by (cases "MAX_CALLBACKS - length xs") (auto simp: slots_def list_update_append diff_Suc)

lemma callbacks_are_ok: "callbacks_are b xs ys c \<Longrightarrow> callbacks_ok c"
  by (auto simp: callbacks_are_def callbacks_ok_def)

text \<open>Adding to a table that may be full.\<close>

definition put :: "nat \<Rightarrow> nat list \<Rightarrow> nat list" where
  "put cb xs = take MAX_CALLBACKS (xs @ [cb])"

lemma atinit_run:
  assumes "callbacks_are b xs ys (callbacks s)"
  shows "\<exists>c. atinit cb s = Inr (if length xs < MAX_CALLBACKS then 0 else - 1, s\<lparr>callbacks := c\<rparr>) \<and> callbacks_are b (put cb xs) ys c"
proof (cases "length xs < MAX_CALLBACKS")
  case True
  with assms show ?thesis
    by (intro exI[of _ "callbacks s\<lparr>cb_init := slots (xs @ [cb]), last_init := length xs + 1\<rparr>"])
      (simp add: atinit_def callbacks_are_def slots_put put_def)
next
  case False
  with assms show ?thesis
    by (intro exI[of _ "callbacks s"]) (simp add: atinit_def callbacks_are_def put_def)
qed

lemma atexit_run:
  assumes "callbacks_are b xs ys (callbacks s)"
  shows "\<exists>c. atexit cb s = Inr (if length ys < MAX_CALLBACKS then 0 else - 1, s\<lparr>callbacks := c\<rparr>) \<and> callbacks_are b xs (put cb ys) c"
proof (cases "length ys < MAX_CALLBACKS")
  case True
  with assms show ?thesis
    by (intro exI[of _ "callbacks s\<lparr>cb_exit := slots (ys @ [cb]), last_exit := length ys + 1\<rparr>"])
      (simp add: atexit_def callbacks_are_def slots_put put_def)
next
  case False
  with assms show ?thesis
    by (intro exI[of _ "callbacks s"]) (simp add: atexit_def callbacks_are_def put_def)
qed

text \<open>The codes the registrations return: 0 while there is room.\<close>

fun codes :: "nat \<Rightarrow> nat \<Rightarrow> registration list \<Rightarrow> int list" where
  "codes i e [] = []"
| "codes i e (At_init cb # rs) = (if i < MAX_CALLBACKS then 0 else - 1) # codes (i + 1) e rs"
| "codes i e (At_exit cb # rs) = (if e < MAX_CALLBACKS then 0 else - 1) # codes i (e + 1) rs"

lemma register_all_run:
  assumes "callbacks_are b (take MAX_CALLBACKS xs) (take MAX_CALLBACKS ys) (callbacks s)"
  shows "\<exists>c. register_all rs s = Inr (codes (length xs) (length ys) rs, s\<lparr>callbacks := c\<rparr>)
    \<and> callbacks_are b (take MAX_CALLBACKS (xs @ inits rs)) (take MAX_CALLBACKS (ys @ exits rs)) c"
  using assms
proof (induction rs arbitrary: xs ys s)
  case Nil
  then show ?case by (intro exI[of _ "callbacks s"]) simp
next
  case (Cons r rs)
  have put_take: "put cb (take MAX_CALLBACKS zs) = take MAX_CALLBACKS (zs @ [cb])" for cb zs
    by (cases "length zs \<le> MAX_CALLBACKS") (simp_all add: put_def)
  show ?case
  proof (cases r)
    case (At_init cb)
    obtain c where c: "atinit cb s = Inr (if length xs < MAX_CALLBACKS then 0 else - 1, s\<lparr>callbacks := c\<rparr>)"
        "callbacks_are b (take MAX_CALLBACKS (xs @ [cb])) (take MAX_CALLBACKS ys) c"
      using atinit_run[OF Cons.prems, of cb] unfolding put_take by auto
    show ?thesis
      using Cons.IH[of "xs @ [cb]" ys "s\<lparr>callbacks := c\<rparr>"] c At_init by (auto simp: bindA_def)
  next
    case (At_exit cb)
    obtain c where c: "atexit cb s = Inr (if length ys < MAX_CALLBACKS then 0 else - 1, s\<lparr>callbacks := c\<rparr>)"
        "callbacks_are b (take MAX_CALLBACKS xs) (take MAX_CALLBACKS (ys @ [cb])) c"
      using atexit_run[OF Cons.prems, of cb] unfolding put_take by auto
    show ?thesis
      using Cons.IH[of xs "ys @ [cb]" "s\<lparr>callbacks := c\<rparr>"] c At_exit by (auto simp: bindA_def)
  qed
qed

lemma call_back_all:
  "\<forall>i \<in> set is. i < length xs \<Longrightarrow> length xs \<le> MAX_CALLBACKS \<Longrightarrow>
   forA is (call_back (slots xs)) s = Inr ((), s\<lparr>called := rev (map (nth xs) is) @ called s\<rparr>)"
proof (induction "is" arbitrary: s)
  case (Cons i "is")
  have "call_back (slots xs) i s = Inr ((), s\<lparr>called := xs ! i # called s\<rparr>)"
    using Cons.prems by (simp add: call_back_def)
  then show ?case using Cons by (simp add: run_thenA_Inr)
qed simp

text \<open>(C35) Callbacks can be registered in any number and order, before and after start-up: the first 32 of
  each kind are accepted with result 0, later ones refused with -1, and the table stays well formed, with a
  function in every slot in use.  Start-up runs the accepted initialisers in the order of registration and
  shutdown the accepted finalisers in the opposite order, without ever leaving the table.\<close>

theorem callbacks_run:
  assumes "callbacks s = no_callbacks\<lparr>after_init := b\<rparr>"
  shows "\<exists>c. register_all rs s = Inr (codes 0 0 rs, s\<lparr>callbacks := c\<rparr>) \<and> callbacks_ok c
    \<and> run_init_callbacks (s\<lparr>callbacks := c\<rparr>) = Inr ((), s\<lparr>callbacks := c, called := rev (take 32 (inits rs)) @ called s\<rparr>)
    \<and> run_exit_callbacks (s\<lparr>callbacks := c\<rparr>) = Inr ((), s\<lparr>callbacks := c, called := take 32 (exits rs) @ called s\<rparr>)"
proof -
  have "callbacks_are b (take MAX_CALLBACKS []) (take MAX_CALLBACKS []) (callbacks s)"
    by (simp add: assms callbacks_are_def no_callbacks_def slots_def)
  from register_all_run[OF this, of rs] obtain c where
    c: "register_all rs s = Inr (codes 0 0 rs, s\<lparr>callbacks := c\<rparr>)"
       "callbacks_are b (take MAX_CALLBACKS (inits rs)) (take MAX_CALLBACKS (exits rs)) c" by auto
  let ?i = "take MAX_CALLBACKS (inits rs)" and ?e = "take MAX_CALLBACKS (exits rs)"
  have f: "last_init c = length ?i" "last_exit c = length ?e" "cb_init c = slots ?i" "cb_exit c = slots ?e"
    using c(2) by (simp_all add: callbacks_are_def)
  have len: "length ?i \<le> MAX_CALLBACKS" "length ?e \<le> MAX_CALLBACKS" by simp_all
  have "run_init_callbacks (s\<lparr>callbacks := c\<rparr>) = Inr ((), s\<lparr>callbacks := c, called := rev ?i @ called s\<rparr>)"
    using len call_back_all[of "[0 ..< length ?i]" ?i "s\<lparr>callbacks := c\<rparr>"] by (simp add: run_init_callbacks_def f map_nth del: length_take)
  moreover have "run_exit_callbacks (s\<lparr>callbacks := c\<rparr>) = Inr ((), s\<lparr>callbacks := c, called := ?e @ called s\<rparr>)"
    using len call_back_all[of "rev [0 ..< length ?e]" ?e "s\<lparr>callbacks := c\<rparr>"]
    by (simp add: run_exit_callbacks_def f map_nth rev_map[symmetric] del: length_take)
  ultimately show ?thesis using c callbacks_are_ok by (auto simp: MAX_CALLBACKS_def)
qed

lemma callbacks_run_witness:
  "\<exists>c. register_all [At_init 1, At_exit 2, At_init 3, At_exit 4] (undefined\<lparr>callbacks := no_callbacks\<rparr> :: nat runtime) =
       Inr ([0, 0, 0, 0], undefined\<lparr>callbacks := c\<rparr>)
     \<and> run_exit_callbacks (undefined\<lparr>callbacks := c\<rparr> :: nat runtime) =
       Inr ((), undefined\<lparr>callbacks := c, called := [2, 4] @ called (undefined :: nat runtime)\<rparr>)"
proof -
  let ?s = "undefined\<lparr>callbacks := no_callbacks\<rparr> :: nat runtime" and ?rs = "[At_init 1, At_exit 2, At_init 3, At_exit 4]"
  have "callbacks ?s = no_callbacks\<lparr>after_init := False\<rparr>" by (simp add: no_callbacks_def)
  from callbacks_run[OF this, of ?rs] obtain c where
    "register_all ?rs ?s = Inr (codes 0 0 ?rs, ?s\<lparr>callbacks := c\<rparr>)"
    "run_exit_callbacks (?s\<lparr>callbacks := c\<rparr>) = Inr ((), ?s\<lparr>callbacks := c, called := take 32 (exits ?rs) @ called ?s\<rparr>)"
    by blast
  then show ?thesis by (intro exI[of _ c]) (simp add: MAX_CALLBACKS_def del: register_all.simps)
qed

section \<open>The runtime follows the protocol\<close>

definition agrees :: "('v, 'a) runtime_scheme \<Rightarrow> region_state \<Rightarrow> bool" where
  "agrees s a \<longleftrightarrow> r_start a = g_start s \<and> r_done a = g_done s \<and> r_cilkified a = g_cilkified s
     \<and> r_terminate a = g_terminate s \<and> exit_worker s = Some (r_exiting a)"

text \<open>The runtime between two regions, with its root closure \<open>t\<close> on a fiber, and the frame \<open>sf\<close> of the
  function that enters the next one.\<close>

definition root_ready :: "('v, 'a) runtime_scheme \<Rightarrow> addr \<Rightarrow> addr \<Rightarrow> bool" where
  "root_ready s t sf \<longleftrightarrow> root_closure s = Some t \<and> frames s sf \<noteq> None
     \<and> (\<exists>c fb x. closures s t = Some c \<and> fiber c = Some fb \<and> fibers s fb = Some x)"

lemma start_workers_run:
  assumes "pm \<subseteq> {..< CPU_SETSIZE}" "0 < nworkers s"
  shows "\<exists>m. start_workers dflt pin pm s = Inr (m, s\<lparr>opts := (opts s)\<lparr>workers_started := True\<rparr>\<rparr>)"
  using bind_threads_total[OF assms, of dflt pin] assms(2) by (auto simp: start_workers_def run_thenA_Inr)

lemma invoke_started:
  assumes "root_ready s t sf" "workers_started (opts s)"
  shows "\<exists>s' c. invoke_cilkified_root dflt pin pm None sf s = Inr ((), s')
    \<and> g_cilkified s' \<and> \<not> g_done s' \<and> g_start s' \<and> g_terminate s' = g_terminate s \<and> exit_worker s' = exit_worker s
    \<and> closures s' t = Some c \<and> status c = CLOSURE_READY \<and> frame c = Some sf"
proof -
  obtain c fb x f where st: "root_closure s = Some t" "closures s t = Some c" "fiber c = Some fb"
      "fibers s fb = Some x" "frames s sf = Some f"
    using assms by (auto simp: root_ready_def)
  show ?thesis
    using st assms(2) by (simp add: act_flat_run Let_def invoke_cilkified_root_def Closure_make_ready_def upd_cl_def get_cl_def
       sysdep_reset_stack_for_resume_def get_fiber_def upd_sf_def get_sf_def cong: run_cong)
qed

lemma invoke_run:
  assumes "root_ready s t sf" "pm \<subseteq> {..< CPU_SETSIZE}" "0 < nworkers s"
  shows "\<exists>s' c. invoke_cilkified_root dflt pin pm None sf s = Inr ((), s')
    \<and> g_cilkified s' \<and> \<not> g_done s' \<and> g_start s' \<and> g_terminate s' = g_terminate s \<and> exit_worker s' = exit_worker s
    \<and> closures s' t = Some c \<and> status c = CLOSURE_READY \<and> frame c = Some sf"
proof (cases "workers_started (opts s)")
  case True
  then show ?thesis by (rule invoke_started[OF assms(1)])
next
  case False
  let ?s = "s\<lparr>opts := (opts s)\<lparr>workers_started := True\<rparr>\<rparr>"
  obtain m where m: "start_workers dflt pin pm s = Inr (m, ?s)" using start_workers_run[OF assms(2,3)] by blast
  have "invoke_cilkified_root dflt pin pm None sf s = invoke_cilkified_root dflt pin pm None sf ?s"
    using False by (simp add: invoke_cilkified_root_def thenA_def bindA_def m)
  moreover have "root_ready ?s t sf" using assms(1) by (simp add: root_ready_def)
  ultimately show ?thesis using invoke_started[of ?s t sf] by simp
qed

lemma exit_run:
  assumes "frames s sf = Some f" "sf_worker f = W w" "cilkrts_synced f" "root_closure s = Some t" "closures s t = Some c"
  shows "\<exists>s'. exit_cilkified_root sf s = Inr ((), s') \<and> exit_worker s' = Some w \<and> \<not> g_start s' \<and> g_done s'
    \<and> g_cilkified s' = g_cilkified s \<and> g_terminate s' = g_terminate s
    \<and> bottom (deques s' w) = None \<and> top (deques s' w) = None \<and> frames s' sf = Some (f\<lparr>flags := 0\<rparr>)"
  using assms by (simp add: act_flat_run Let_def exit_cilkified_root_def frame_worker_of_def upd_cl_def
       upd_sf_def get_sf_def upd_dq_def cong: run_cong)

lemma stop_run:
  assumes "\<not> g_start s" "root_closure s = Some t" "closures s t = Some c" "status c \<noteq> CLOSURE_READY"
  shows "\<exists>s'. stop_workers s = Inr ((), s') \<and> g_start s' \<and> g_terminate s' \<and> g_done s' = g_done s
    \<and> g_cilkified s' = g_cilkified s \<and> exit_worker s' = exit_worker s \<and> \<not> workers_started (opts s')"
  using assms by (simp add: act_flat_run Let_def stop_workers_def get_cl_def cong: run_cong)

abbreviation boss_steps :: "nat \<Rightarrow> region_state \<Rightarrow> region_state \<Rightarrow> bool" where
  "boss_steps n \<equiv> (boss_step n)\<^sup>*\<^sup>*"

abbreviation worker_steps :: "worker_id \<Rightarrow> region_state \<Rightarrow> region_state \<Rightarrow> bool" where
  "worker_steps w \<equiv> (worker_step w)\<^sup>*\<^sup>*"

text \<open>The states of the protocol after the steps of each function.\<close>

lemma boss_invokes:
  assumes "boss a = B_user"
  shows "boss_steps n a (a\<lparr>root := R_ready, begun := begun a + 1, r_cilkified := True, r_done := False, r_start := True, boss := B_wait\<rparr>)"
proof -
  let ?a1 = "a\<lparr>boss := B_ready, root := R_ready, begun := begun a + 1\<rparr>"
  let ?a2 = "?a1\<lparr>r_cilkified := True, boss := B_cilkified\<rparr>" let ?a3 = "?a2\<lparr>r_done := False, boss := B_cleared\<rparr>"
  have "boss_step n a ?a1" "boss_step n ?a1 ?a2" "boss_step n ?a2 ?a3" "boss_step n ?a3 (?a3\<lparr>r_start := True, boss := B_wait\<rparr>)"
    using assms by (simp_all only: make_ready) (rule set_cilkified clear_done set_start, simp)+
  then have "boss_steps n a (?a3\<lparr>r_start := True, boss := B_wait\<rparr>)" by (meson rtranclp.intros)
  then show ?thesis by simp
qed

lemma boss_stops:
  assumes "boss a = B_user" "0 < begun a"
  shows "boss_steps n a (a\<lparr>r_terminate := True, r_start := True, boss := B_join\<rparr>)"
proof -
  let ?a1 = "a\<lparr>r_terminate := True, boss := B_terminated\<rparr>"
  have "boss_step n a ?a1" "boss_step n ?a1 (?a1\<lparr>r_start := True, boss := B_join\<rparr>)"
    using assms by (simp_all only: terminate) (rule wake_all, simp)
  then have "boss_steps n a (?a1\<lparr>r_start := True, boss := B_join\<rparr>)" by (meson rtranclp.intros)
  then show ?thesis by simp
qed

lemma worker_exits:
  assumes "pcs a w = W_run" "root a = R_running w"
  shows "worker_steps w a (go w (W_sched False)
    (a\<lparr>r_exiting := w, r_start := False, r_done := True, root := R_idle, ended := ended a + 1\<rparr>))"
proof -
  let ?a1 = "go w W_named (a\<lparr>r_exiting := w\<rparr>)" let ?a2 = "go w W_stopped (?a1\<lparr>r_start := False\<rparr>)"
  let ?a3 = "go w (W_sched False) (?a2\<lparr>r_done := True, root := R_idle, ended := ended ?a2 + 1\<rparr>)"
  have "worker_step w a ?a1" "worker_step w ?a1 ?a2" "worker_step w ?a2 ?a3"
    using assms by (rule name_exit) (rule clear_start set_done, simp)+
  then have "worker_steps w a ?a3" by (meson rtranclp.intros)
  then show ?thesis by (simp add: go_def)
qed


text \<open>A worker that wakes up when the region is over goes through an empty pass.\<close>

lemma late_pass_run:
  assumes "g_start s" "\<not> g_terminate s" "g_done s" "w_state (workers s w) = WORKER_IDLE"
  shows "\<exists>s'. scheduler_thread_pass (Suc n) user w s = Inr (True, s') \<and> g_start s' = g_start s \<and> g_done s' = g_done s
    \<and> g_terminate s' = g_terminate s \<and> exit_worker s' = exit_worker s \<and> w_state (workers s' w) = WORKER_IDLE
    \<and> g_cilkified s' = (g_cilkified s \<and> exit_worker s \<noteq> Some w)"
  using assms by (cases "exit_worker s = Some w")
    (simp_all add: act_flat_run Let_def scheduler_thread_pass_def worker_scheduler_def rts_srand_def worker_change_state_def
       cong: run_cong)

lemma worker_passes_late:
  assumes "pcs a w = W_wait" "r_start a" "\<not> r_terminate a" "r_done a"
  shows "worker_steps w a (go w W_wait (if w = r_exiting a then a\<lparr>r_cilkified := False\<rparr> else a))"
proof -
  let ?a1 = "go w W_started a" let ?a2 = "go w W_check ?a1" let ?a3 = "go w (W_sched (w = r_exiting ?a2)) ?a2"
  let ?a4 = "go w W_left ?a3"
  let ?a5 = "go w W_wait (if w = r_exiting a then ?a4\<lparr>r_cilkified := False\<rparr> else ?a4)"
  have "worker_step w a ?a1" using assms by (intro wake) simp_all
  moreover have "worker_step w ?a1 ?a2" using assms by (intro go_on) simp_all
  moreover have "worker_step w ?a2 ?a3" by (intro enter) simp
  moreover have "worker_step w ?a3 ?a4" using assms by (intro leave[where b = "w = r_exiting a"]) simp_all
  moreover have "worker_step w ?a4 ?a5" using signal[of ?a4 w] again[of ?a4 w] by (cases "w = r_exiting a") simp_all
  ultimately have "worker_steps w a ?a5" by (meson rtranclp.intros)
  then show ?thesis by (cases "w = r_exiting a") (simp_all add: go_def)
qed


section \<open>Examples\<close>

text \<open>A runtime between two regions, and one whose worker 1 is about to end a region.\<close>

definition region_rt :: "closure_status \<Rightarrow> bool \<Rightarrow> nat runtime" where
  "region_rt st active = undefined\<lparr>fibers := [5 \<mapsto> \<lparr>alloc_low = 4096, stack_low = 8192, stack_high = 65536, alloc_high = 69632, fiber_owner = None\<rparr>],
     closures := [7 \<mapsto> Closure_init\<lparr>fiber := Some 5, status := st\<rparr>],
     frames := [3 \<mapsto> \<lparr>flags = CILK_FRAME_LAST, magic = frame_magic, sf_call_parent = None, sf_worker = W 1, SP = None, FP = None\<rparr>],
     nworkers := 2, root_closure := Some 7, g_done := \<not> active, exit_worker := Some 0,
     g_start := active, g_cilkified := active, g_terminate := False\<rparr>"

lemma region_rt_sel [simp]:
  "fibers (region_rt st b) 5 = Some \<lparr>alloc_low = 4096, stack_low = 8192, stack_high = 65536, alloc_high = 69632, fiber_owner = None\<rparr>"
  "closures (region_rt st b) 7 = Some (Closure_init\<lparr>fiber := Some 5, status := st\<rparr>)"
  "frames (region_rt st b) 3 = Some \<lparr>flags = CILK_FRAME_LAST, magic = frame_magic, sf_call_parent = None, sf_worker = W 1, SP = None, FP = None\<rparr>"
  "nworkers (region_rt st b) = 2" "root_closure (region_rt st b) = Some 7" "g_done (region_rt st b) = (\<not> b)"
  "exit_worker (region_rt st b) = Some 0" "g_start (region_rt st b) = b" "g_cilkified (region_rt st b) = b"
  "g_terminate (region_rt st b) = False"
  by (simp_all add: region_rt_def)

definition region_abs :: "bool \<Rightarrow> region_state" where
  "region_abs active = region_init\<lparr>r_start := active, r_done := \<not> active, r_cilkified := active, begun := 1,
     pcs := (\<lambda>_. W_wait)(1 := W_run), root := R_running 1\<rparr>"

lemma region_agrees: "agrees (region_rt st b) (region_abs b)"
  by (simp add: agrees_def region_abs_def region_init_def)



end
