(* ===== verification/C_Reducers.thy ===== *)
theory C_Reducers
  imports Hyperobjects
begin

unbundle bit_operations_syntax

text \<open>
  The predefined reducers of the C interface (runtime/c_reducers.c, which instantiates the macros of
  include/cilk/reducer_opadd.h, reducer_opmul.h, reducer_opand.h, reducer_opor.h, reducer_opxor.h and
  the C part of reducer_min_max.h), for the integer types.

  A value of a C type is the integer it stands for.  The types have the widths of x86-64 Linux;
  whether \<open>char\<close> is signed is up to the implementation and is the parameter \<open>cs\<close>.  The result of
  an arithmetic operation that overflows a signed type is undefined: it is \<open>None\<close>, and stays \<open>None\<close>
  whatever is done with it.  The instances for floating point types are left out: their addition is
  not associative, so nothing here holds of them.  An update is \<open>REDUCER_VIEW(r) += x\<close> (and so on)
  for the operators, as the headers document, and the macro \<open>..._CALC\<close> for minimum and maximum.
\<close>

section \<open>Integer types of C\<close>

datatype c_type = T_char | T_uchar | T_schar | T_wchar_t | T_short | T_ushort | T_int | T_uint | T_long | T_ulong | T_longlong | T_ulonglong

fun c_bits :: "c_type \<Rightarrow> nat" where
  "c_bits T_char = 8" | "c_bits T_uchar = 8" | "c_bits T_schar = 8" | "c_bits T_wchar_t = 32"
| "c_bits T_short = 16" | "c_bits T_ushort = 16" | "c_bits T_int = 32" | "c_bits T_uint = 32"
| "c_bits T_long = 64" | "c_bits T_ulong = 64" | "c_bits T_longlong = 64" | "c_bits T_ulonglong = 64"

fun c_signed :: "bool \<Rightarrow> c_type \<Rightarrow> bool" where
  "c_signed cs T_char = cs"
| "c_signed cs t = (t \<notin> {T_uchar, T_ushort, T_uint, T_ulong, T_ulonglong})"

text \<open>\<open>INT_MIN\<close>, \<open>INT_MAX\<close> and their like.\<close>

definition c_min :: "bool \<Rightarrow> c_type \<Rightarrow> int" where
  "c_min cs t = (if c_signed cs t then - (2 ^ (c_bits t - 1)) else 0)"

definition c_max :: "bool \<Rightarrow> c_type \<Rightarrow> int" where
  "c_max cs t = (if c_signed cs t then 2 ^ (c_bits t - 1) - 1 else 2 ^ c_bits t - 1)"

definition in_range :: "bool \<Rightarrow> c_type \<Rightarrow> int \<Rightarrow> bool" where
  "in_range cs t x \<longleftrightarrow> c_min cs t \<le> x \<and> x \<le> c_max cs t"

text \<open>Conversion to a type keeps the low bits.\<close>

definition c_conv :: "bool \<Rightarrow> c_type \<Rightarrow> int \<Rightarrow> int" where
  "c_conv cs t x = (if c_signed cs t then signed_take_bit (c_bits t - 1) x else take_bit (c_bits t) x)"

text \<open>Operands narrower than \<open>int\<close> are promoted to it.\<close>

definition c_promote :: "c_type \<Rightarrow> c_type" where
  "c_promote t = (if c_bits t < 32 then T_int else t)"

text \<open>The value stored by \<open>*(t*)l op= *(t*)r\<close>, where \<open>z\<close> is the exact result.\<close>

definition c_store :: "bool \<Rightarrow> c_type \<Rightarrow> int \<Rightarrow> int option" where
  "c_store cs t z =
     (let p = c_promote t
      in if c_signed cs p then (if in_range cs p z then Some (c_conv cs t z) else None)
         else Some (c_conv cs t (c_conv cs p z)))"

section \<open>The reducers\<close>

subsection \<open>Operators\<close>

definition opadd_reduce :: "bool \<Rightarrow> c_type \<Rightarrow> int \<Rightarrow> int \<Rightarrow> int option" where
  "opadd_reduce cs t l r = c_store cs t (l + r)"

definition opadd_identity :: "bool \<Rightarrow> c_type \<Rightarrow> int" where
  "opadd_identity cs t = c_conv cs t 0"

definition opmul_reduce :: "bool \<Rightarrow> c_type \<Rightarrow> int \<Rightarrow> int \<Rightarrow> int option" where
  "opmul_reduce cs t l r = c_store cs t (l * r)"

definition opmul_identity :: "bool \<Rightarrow> c_type \<Rightarrow> int" where
  "opmul_identity cs t = c_conv cs t 1"

definition opand_reduce :: "bool \<Rightarrow> c_type \<Rightarrow> int \<Rightarrow> int \<Rightarrow> int option" where
  "opand_reduce cs t l r = c_store cs t (l AND r)"

definition opand_identity :: "bool \<Rightarrow> c_type \<Rightarrow> int" where
  "opand_identity cs t = c_conv cs t (NOT 0)"

definition opor_reduce :: "bool \<Rightarrow> c_type \<Rightarrow> int \<Rightarrow> int \<Rightarrow> int option" where
  "opor_reduce cs t l r = c_store cs t (l OR r)"

definition opor_identity :: "bool \<Rightarrow> c_type \<Rightarrow> int" where
  "opor_identity cs t = c_conv cs t 0"

definition opxor_reduce :: "bool \<Rightarrow> c_type \<Rightarrow> int \<Rightarrow> int \<Rightarrow> int option" where
  "opxor_reduce cs t l r = c_store cs t (l XOR r)"

definition opxor_identity :: "bool \<Rightarrow> c_type \<Rightarrow> int" where
  "opxor_identity cs t = c_conv cs t 0"

subsection \<open>Minimum and maximum\<close>

text \<open>The third arguments of the macros \<open>..._INSTANCE\<close>.\<close>

fun max_id :: "bool \<Rightarrow> c_type \<Rightarrow> int" where
  "max_id cs T_char = c_min cs T_char" | "max_id cs T_uchar = 0" | "max_id cs T_schar = c_min cs T_schar"
| "max_id cs T_wchar_t = c_min cs T_wchar_t" | "max_id cs T_short = c_min cs T_short" | "max_id cs T_ushort = 0"
| "max_id cs T_int = c_min cs T_int" | "max_id cs T_uint = 0" | "max_id cs T_long = c_min cs T_long"
| "max_id cs T_ulong = 0" | "max_id cs T_longlong = c_min cs T_longlong" | "max_id cs T_ulonglong = 0"

fun min_id :: "bool \<Rightarrow> c_type \<Rightarrow> int" where
  "min_id cs T_char = c_max cs T_char" | "min_id cs T_uchar = c_max cs T_char" | "min_id cs T_schar = c_max cs T_schar"
| "min_id cs T_wchar_t = c_max cs T_wchar_t" | "min_id cs T_short = c_max cs T_short" | "min_id cs T_ushort = c_max cs T_ushort"
| "min_id cs T_int = c_max cs T_int" | "min_id cs T_uint = c_max cs T_uint" | "min_id cs T_long = c_max cs T_long"
| "min_id cs T_ulong = c_max cs T_ulong" | "min_id cs T_longlong = c_max cs T_longlong" | "min_id cs T_ulonglong = c_max cs T_ulonglong"

definition max_reduce :: "int \<Rightarrow> int \<Rightarrow> int" where
  "max_reduce l r = (if l < r then r else l)"

definition max_calc :: "int \<Rightarrow> int \<Rightarrow> int" where
  "max_calc v view = (if view < v then v else view)"

definition min_reduce :: "int \<Rightarrow> int \<Rightarrow> int" where
  "min_reduce l r = (if l > r then r else l)"

definition min_calc :: "int \<Rightarrow> int \<Rightarrow> int" where
  "min_calc v view = (if view > v then v else view)"

text \<open>The view of a reducer for the extremum and its index.\<close>

record index_view =
  view_index :: int
  view_value :: int

definition max_index_reduce :: "index_view \<Rightarrow> index_view \<Rightarrow> index_view" where
  "max_index_reduce l r = (if view_value l < view_value r then r else l)"

definition max_index_identity :: "bool \<Rightarrow> c_type \<Rightarrow> index_view" where
  "max_index_identity cs t = \<lparr>view_index = 0, view_value = max_id cs t\<rparr>"

definition max_index_calc :: "int \<Rightarrow> int \<Rightarrow> index_view \<Rightarrow> index_view" where
  "max_index_calc i v view = (if view_value view < v then view\<lparr>view_index := i, view_value := v\<rparr> else view)"

definition min_index_reduce :: "index_view \<Rightarrow> index_view \<Rightarrow> index_view" where
  "min_index_reduce l r = (if view_value l > view_value r then r else l)"

definition min_index_identity :: "bool \<Rightarrow> c_type \<Rightarrow> index_view" where
  "min_index_identity cs t = \<lparr>view_index = 0, view_value = min_id cs t\<rparr>"

definition min_index_calc :: "int \<Rightarrow> int \<Rightarrow> index_view \<Rightarrow> index_view" where
  "min_index_calc i v view = (if view_value view > v then view\<lparr>view_index := i, view_value := v\<rparr> else view)"

subsection \<open>The hyperobjects\<close>

datatype c_op = REDUCER_OPADD | REDUCER_OPMUL | REDUCER_OPAND | REDUCER_OPOR | REDUCER_OPXOR | REDUCER_MAX | REDUCER_MIN | REDUCER_MAX_INDEX | REDUCER_MIN_INDEX

text \<open>The content of a view: a number, or the structure of the index reducers.  Accessing a view at
  the other type is undefined.\<close>

datatype c_view = Plain int | Indexed index_view

fun plain :: "(int \<Rightarrow> int \<Rightarrow> int option) \<Rightarrow> c_view \<Rightarrow> c_view \<Rightarrow> c_view option" where
  "plain f (Plain l) (Plain r) = map_option Plain (f l r)"
| "plain f _ _ = None"

fun indexed :: "(index_view \<Rightarrow> index_view \<Rightarrow> index_view) \<Rightarrow> c_view \<Rightarrow> c_view \<Rightarrow> c_view option" where
  "indexed f (Indexed l) (Indexed r) = Some (Indexed (f l r))"
| "indexed f _ _ = None"

fun c_reduce :: "bool \<Rightarrow> c_op \<Rightarrow> c_type \<Rightarrow> c_view \<Rightarrow> c_view \<Rightarrow> c_view option" where
  "c_reduce cs REDUCER_OPADD t = plain (opadd_reduce cs t)"
| "c_reduce cs REDUCER_OPMUL t = plain (opmul_reduce cs t)"
| "c_reduce cs REDUCER_OPAND t = plain (opand_reduce cs t)"
| "c_reduce cs REDUCER_OPOR t = plain (opor_reduce cs t)"
| "c_reduce cs REDUCER_OPXOR t = plain (opxor_reduce cs t)"
| "c_reduce cs REDUCER_MAX t = plain (\<lambda>l r. Some (max_reduce l r))"
| "c_reduce cs REDUCER_MIN t = plain (\<lambda>l r. Some (min_reduce l r))"
| "c_reduce cs REDUCER_MAX_INDEX t = indexed max_index_reduce"
| "c_reduce cs REDUCER_MIN_INDEX t = indexed min_index_reduce"

fun c_identity :: "bool \<Rightarrow> c_op \<Rightarrow> c_type \<Rightarrow> c_view" where
  "c_identity cs REDUCER_OPADD t = Plain (opadd_identity cs t)"
| "c_identity cs REDUCER_OPMUL t = Plain (opmul_identity cs t)"
| "c_identity cs REDUCER_OPAND t = Plain (opand_identity cs t)"
| "c_identity cs REDUCER_OPOR t = Plain (opor_identity cs t)"
| "c_identity cs REDUCER_OPXOR t = Plain (opxor_identity cs t)"
| "c_identity cs REDUCER_MAX t = Plain (max_id cs t)"
| "c_identity cs REDUCER_MIN t = Plain (min_id cs t)"
| "c_identity cs REDUCER_MAX_INDEX t = Indexed (max_index_identity cs t)"
| "c_identity cs REDUCER_MIN_INDEX t = Indexed (min_index_identity cs t)"

text \<open>An update with the value \<open>x\<close> at the index \<open>i\<close>.\<close>

fun c_update :: "bool \<Rightarrow> c_op \<Rightarrow> c_type \<Rightarrow> int \<times> int \<Rightarrow> c_view \<Rightarrow> c_view option" where
  "c_update cs REDUCER_MAX t (i, x) (Plain v) = Some (Plain (max_calc x v))"
| "c_update cs REDUCER_MIN t (i, x) (Plain v) = Some (Plain (min_calc x v))"
| "c_update cs REDUCER_MAX_INDEX t (i, x) (Indexed v) = Some (Indexed (max_index_calc i x v))"
| "c_update cs REDUCER_MIN_INDEX t (i, x) (Indexed v) = Some (Indexed (min_index_calc i x v))"
| "c_update cs REDUCER_MAX_INDEX t (i, x) (Plain v) = None"
| "c_update cs REDUCER_MIN_INDEX t (i, x) (Plain v) = None"
| "c_update cs k t (i, x) v = c_reduce cs k t v (Plain x)"

definition init_view :: "c_op \<Rightarrow> int \<Rightarrow> c_view" where
  "init_view k v = (if k \<in> {REDUCER_MAX_INDEX, REDUCER_MIN_INDEX} then Indexed \<lparr>view_index = 0, view_value = v\<rparr> else Plain v)"

text \<open>\<open>CILK_C_REDUCER_OPADD(obj, t, v)\<close> and the others: \<open>CILK_C_INIT_REDUCER\<close> applied to the
  functions of the type.\<close>

definition c_reducer :: "bool \<Rightarrow> c_op \<Rightarrow> c_type \<Rightarrow> int \<Rightarrow> c_view option hyperobject" where
  "c_reducer cs k t v =
     \<lparr>reduce_fn = (\<lambda>l r. Option.bind l (\<lambda>a. Option.bind r (\<lambda>b. c_reduce cs k t a b))),
      identity_fn = Some (c_identity cs k t),
      id_num = 0,
      leftmost_view = Some (init_view k v)\<rparr>"

end
