(* ===== verification/C_Reducers_Correct.thy ===== *)
theory C_Reducers_Correct
  imports C_Reducers
begin

unbundle bit_operations_syntax

text \<open>
  A parallel run updates a predefined reducer to the value of its serial run.  \<open>reducer_spec\<close> states
  the laws that make it so: the identity is a right unit of the reduction, and updating the right
  operand of a reduction is updating its result.  \<open>reducer_impl\<close> adds that the functions of a
  hyperobject compute the operations of the laws or an undefined value.  The locales are interpreted
  on each reducer of \<open>C_Reducers\<close>, the operators through \<open>c_operator\<close> and the extrema through
  \<open>c_extremum\<close>.
\<close>

section \<open>Runs\<close>

text \<open>What a program does to one reducer: nothing, an update, two parts one after the other on the same
  worker, or two parts of which the second, a continuation, was stolen.\<close>

datatype 'x run = Idle | Update 'x | Serial "'x run" "'x run" | Stolen "'x run" "'x run"

primrec updates :: "'x run \<Rightarrow> 'x list" where
  "updates Idle = []"
| "updates (Update x) = [x]"
| "updates (Serial a b) = updates a @ updates b"
| "updates (Stolen a b) = updates a @ updates b"

text \<open>The view of the worker before and after; \<open>None\<close> while its map has no entry for the reducer, which
  the first lookup creates from the identity (\<open>hyper_lookup\<close>).  A thief starts without a view, and its
  view is merged to the right of that of its victim.\<close>

definition join_views :: "'v hyperobject \<Rightarrow> 'v option \<Rightarrow> 'v option \<Rightarrow> 'v option" where
  "join_views h p q = (case p of None \<Rightarrow> q | Some l \<Rightarrow> (case q of None \<Rightarrow> p | Some r \<Rightarrow> Some (reduce_fn h l r)))"

primrec par_run :: "'v hyperobject \<Rightarrow> ('x \<Rightarrow> 'v \<Rightarrow> 'v) \<Rightarrow> 'x run \<Rightarrow> 'v option \<Rightarrow> 'v option" where
  "par_run h u Idle p = p"
| "par_run h u (Update x) p = Some (u x (case p of None \<Rightarrow> identity_fn h | Some v \<Rightarrow> v))"
| "par_run h u (Serial a b) p = par_run h u b (par_run h u a p)"
| "par_run h u (Stolen a b) p = join_views h (par_run h u a p) (par_run h u b None)"

text \<open>The runtime joins the views of a stolen part so: the merge of two maps is \<open>join_views\<close> at each id.\<close>

lemma merge_two_rmaps_run:
  assumes c: "rmap_conf cap K s l" "rmap_conf cap K s r" and ne: "l = None \<or> r = None \<or> l \<noteq> r"
    and good: "im_good n s (live + rmap_led l + rmap_led r)" and w: "w < n"
    and h: "hyperobjs s (K i) = Some h"
    and l: "rviews s l i = map_option (Pair (K i)) (par_run h u a p)"
    and r: "rviews s r i = map_option (Pair (K i)) (par_run h u b None)"
  shows "\<exists>q s'. merge_two_rmaps w l r s = Inr (q, s') \<and>
    rviews s' q i = map_option (Pair (K i)) (par_run h u (Stolen a b) p)"
proof -
  obtain q s' where m: "merge_two_rmaps w l r s = Inr (q, s')"
      "rviews s' q = combine (hyperobjs s) (rviews s l) (rviews s r)"
    using merge_two_rmaps_conf[OF c ne good w] by (elim exE conjE) (rule that)
  have "combine (hyperobjs s) (rviews s l) (rviews s r) i = map_option (Pair (K i)) (par_run h u (Stolen a b) p)"
    unfolding combine_def l r
    using h by (cases "par_run h u a p"; cases "par_run h u b None") (simp_all add: join_views_def)
  then show ?thesis using m by (intro exI[of _ q] exI[of _ s']) simp
qed

section \<open>The laws of a reducer\<close>

locale reducer_spec =
  fixes carrier :: "'w set" and inputs :: "'x set" and upd :: "'x \<Rightarrow> 'w \<Rightarrow> 'w"
    and red :: "'w \<Rightarrow> 'w \<Rightarrow> 'w" and ident :: 'w
  assumes ident_in: "ident \<in> carrier"
    and upd_in: "x \<in> inputs \<Longrightarrow> v \<in> carrier \<Longrightarrow> upd x v \<in> carrier"
    and red_ident: "l \<in> carrier \<Longrightarrow> red l ident = l"
    and red_upd: "x \<in> inputs \<Longrightarrow> l \<in> carrier \<Longrightarrow> v \<in> carrier \<Longrightarrow> red l (upd x v) = upd x (red l v)"
begin

lemma fold_in: "set xs \<subseteq> inputs \<Longrightarrow> v \<in> carrier \<Longrightarrow> fold upd xs v \<in> carrier"
  by (induction xs arbitrary: v) (auto intro: upd_in)

lemma red_fold: "set xs \<subseteq> inputs \<Longrightarrow> l \<in> carrier \<Longrightarrow> red l (fold upd xs ident) = fold upd xs l"
  by (induction xs rule: rev_induct) (auto simp: red_ident red_upd fold_in ident_in)

text \<open>The view after a run that starts with the view \<open>p\<close>.\<close>

definition run_view :: "'x list \<Rightarrow> 'w option \<Rightarrow> 'w option" where
  "run_view xs p = (case p of Some v \<Rightarrow> Some (fold upd xs v)
     | None \<Rightarrow> if xs = [] then None else Some (fold upd xs ident))"

lemma run_view_append: "run_view ys (run_view xs p) = run_view (xs @ ys) p"
  by (auto simp: run_view_def split: option.splits)

lemma run_view_in: "set xs \<subseteq> inputs \<Longrightarrow> pred_option (\<lambda>v. v \<in> carrier) p \<Longrightarrow> pred_option (\<lambda>v. v \<in> carrier) (run_view xs p)"
  by (auto simp: run_view_def fold_in ident_in split: option.splits)

lemma run_view_join:
  assumes "set xs \<subseteq> inputs" "set ys \<subseteq> inputs" "pred_option (\<lambda>v. v \<in> carrier) p"
  shows "(case run_view xs p of None \<Rightarrow> run_view ys None | Some l \<Rightarrow>
    (case run_view ys None of None \<Rightarrow> run_view xs p | Some r \<Rightarrow> Some (red l r))) = run_view (xs @ ys) p"
  using assms by (auto simp: run_view_def red_fold fold_in ident_in split: option.splits)

end

locale reducer_impl = reducer_spec carrier inputs upd red ident
  for carrier :: "'w set" and inputs :: "'x set" and upd red ident +
  fixes h :: "'v option hyperobject" and u :: "'x \<Rightarrow> 'v option \<Rightarrow> 'v option" and con :: "'w \<Rightarrow> 'v"
  assumes h_ident: "identity_fn h = Some (con ident)"
    and h_red: "reduce_fn h (Some (con l)) (Some (con r)) \<in> {None, Some (con (red l r))}"
    and h_undef: "reduce_fn h None q = None" "reduce_fn h p None = None"
    and u_upd: "u x (Some (con v)) \<in> {None, Some (con (upd x v))}"
    and u_undef: "u x None = None"
begin

text \<open>A view is undefined or the view of the laws.\<close>

definition tracks :: "'v option option \<Rightarrow> 'w option \<Rightarrow> bool" where
  "tracks a p \<longleftrightarrow> a = Some None \<or> a = map_option (\<lambda>v. Some (con v)) p"

lemma par_run_undef: "par_run h u r (Some None) = Some None"
  by (induction r) (auto simp: u_undef join_views_def h_undef split: option.splits)

lemma tracks_update: "tracks a p \<Longrightarrow> tracks (par_run h u (Update x) a) (run_view [x] p)"
  using u_upd[of x ident] u_upd[of x "the p"] by (cases p) (auto simp: tracks_def run_view_def h_ident u_undef)

lemma tracks_join:
  "tracks a p \<Longrightarrow> tracks b q \<Longrightarrow>
   tracks (join_views h a b) (case p of None \<Rightarrow> q | Some l \<Rightarrow> (case q of None \<Rightarrow> p | Some r \<Rightarrow> Some (red l r)))"
  using h_red by (cases p; cases q) (auto simp: tracks_def join_views_def h_undef split: option.splits)

lemma par_run_tracks:
  assumes "set (updates r) \<subseteq> inputs" "pred_option (\<lambda>v. v \<in> carrier) p" "tracks a p"
  shows "tracks (par_run h u r a) (run_view (updates r) p)"
  using assms
proof (induction r arbitrary: a p)
  case Idle
  then show ?case by (cases p) (simp_all add: run_view_def)
next
  case (Update x)
  then show ?case using tracks_update by simp
next
  case (Serial r1 r2)
  then show ?case by (simp add: run_view_in flip: run_view_append)
next
  case (Stolen r1 r2)
  have n: "tracks None None" by (simp add: tracks_def)
  have "tracks (par_run h u r1 a) (run_view (updates r1) p)" "tracks (par_run h u r2 None) (run_view (updates r2) None)"
    using Stolen n by simp_all
  from tracks_join[OF this] show ?case
    using run_view_join[of "updates r1" "updates r2" p] Stolen.prems by simp
qed

lemma serial_tracks:
  assumes "set xs \<subseteq> inputs" "v \<in> carrier"
  shows "fold u xs (Some (con v)) \<in> {None, Some (con (fold upd xs v))}"
proof -
  have "tracks (Some (fold u xs c)) (run_view xs p)" if "tracks (Some c) p" for c p
    using that
  proof (induction xs arbitrary: c p)
    case Nil
    then show ?case by (cases p) (auto simp: tracks_def run_view_def)
  next
    case (Cons x xs)
    then show ?case using Cons.IH[OF tracks_update[of "Some c" p x, simplified]] by (simp add: run_view_append)
  qed
  from this[of "Some (con v)" "Some v"] show ?thesis by (auto simp: tracks_def run_view_def)
qed

lemma par_run_serial:
  assumes "set (updates r) \<subseteq> inputs" "v \<in> carrier"
  shows "\<exists>y. par_run h u r (Some (Some (con v))) = Some y \<and>
    (y \<noteq> None \<and> fold u (updates r) (Some (con v)) \<noteq> None \<longrightarrow> y = fold u (updates r) (Some (con v)))"
  using par_run_tracks[OF assms(1), of "Some v" "Some (Some (con v))"] serial_tracks[OF assms] assms(2)
  by (auto simp: tracks_def run_view_def)

text \<open>Where no operation is undefined, neither is the run.\<close>

lemma par_run_defined:
  assumes "set (updates r) \<subseteq> inputs"
    and "\<And>x v. x \<in> inputs \<Longrightarrow> v \<in> carrier \<Longrightarrow> u x (Some (con v)) \<noteq> None"
    and "\<And>l v. l \<in> carrier \<Longrightarrow> v \<in> carrier \<Longrightarrow> reduce_fn h (Some (con l)) (Some (con v)) \<noteq> None"
    and "pred_option (\<lambda>v. v \<in> carrier) p"
  shows "par_run h u r (map_option (\<lambda>v. Some (con v)) p) = map_option (\<lambda>v. Some (con v)) (run_view (updates r) p)"
  using assms(1,4)
proof (induction r arbitrary: p)
  case Idle
  then show ?case by (cases p) (simp_all add: run_view_def)
next
  case (Update x)
  then show ?case
    using assms(2)[of x ident] u_upd[of x ident] assms(2)[of x "the p"] u_upd[of x "the p"]
    by (cases p) (auto simp: run_view_def h_ident ident_in)
next
  case (Serial r1 r2)
  then show ?case by (simp add: run_view_in flip: run_view_append)
next
  case (Stolen r1 r2)
  have s: "set (updates r1) \<subseteq> inputs" "set (updates r2) \<subseteq> inputs" using Stolen.prems by simp_all
  have e: "par_run h u r1 (map_option (\<lambda>v. Some (con v)) p) = map_option (\<lambda>v. Some (con v)) (run_view (updates r1) p)"
    "par_run h u r2 None = map_option (\<lambda>v. Some (con v)) (run_view (updates r2) None)"
    using Stolen.IH(1)[OF s(1) Stolen.prems(2)] Stolen.IH(2)[OF s(2), of None] by simp_all
  have c: "pred_option (\<lambda>v. v \<in> carrier) (run_view (updates r1) p)" "pred_option (\<lambda>v. v \<in> carrier) (run_view (updates r2) None)"
    using run_view_in s Stolen.prems(2) by simp_all
  have d: "reduce_fn h (Some (con l)) (Some (con v)) = Some (con (red l v))" if "l \<in> carrier" "v \<in> carrier" for l v
    using h_red[of l v] assms(3)[OF that] by simp
  show ?case
    unfolding par_run.simps e updates.simps run_view_join[OF s Stolen.prems(2), symmetric]
    using c d by (cases "run_view (updates r1) p"; cases "run_view (updates r2) None") (simp_all add: join_views_def)
qed

end

section \<open>Integer arithmetic\<close>

lemma c_bits_pos [simp]: "0 < c_bits t" "c_bits t - Suc 0 < c_bits t"
  by (cases t; simp)+

lemma in_range_conv: "in_range cs t x \<longleftrightarrow> c_conv cs t x = x"
  by (auto simp: in_range_def c_conv_def c_min_def c_max_def signed_take_bit_int_eq_self_iff take_bit_int_eq_self_iff)

lemma c_conv_conv [simp]: "c_conv cs t (c_conv cs t x) = c_conv cs t x"
  by (simp add: c_conv_def)

lemma c_conv_in_range [simp]: "in_range cs t (c_conv cs t x)"
  by (simp add: in_range_conv)

lemma c_store_conv: "c_store cs t z \<in> {None, Some (c_conv cs t z)}"
  by (cases t) (auto simp: c_store_def c_promote_def Let_def)

lemma c_conv_ops:
  "c_conv cs t (c_conv cs t a + b) = c_conv cs t (a + b)" "c_conv cs t (a + c_conv cs t b) = c_conv cs t (a + b)"
  "c_conv cs t (c_conv cs t a * b) = c_conv cs t (a * b)" "c_conv cs t (a * c_conv cs t b) = c_conv cs t (a * b)"
  "c_conv cs t (c_conv cs t a AND b) = c_conv cs t (a AND b)" "c_conv cs t (a AND c_conv cs t b) = c_conv cs t (a AND b)"
  "c_conv cs t (c_conv cs t a OR b) = c_conv cs t (a OR b)" "c_conv cs t (a OR c_conv cs t b) = c_conv cs t (a OR b)"
  "c_conv cs t (c_conv cs t a XOR b) = c_conv cs t (a XOR b)" "c_conv cs t (a XOR c_conv cs t b) = c_conv cs t (a XOR b)"
proof -
  let ?n = "c_bits t - 1"
  have add: "signed_take_bit ?n (signed_take_bit ?n a + b) = signed_take_bit ?n (a + b)" for a b :: int
    using signed_take_bit_add[of ?n a b] signed_take_bit_add[of ?n "signed_take_bit ?n a" b] by simp
  have mul: "signed_take_bit ?n (signed_take_bit ?n a * b) = signed_take_bit ?n (a * b)" for a b :: int
    using signed_take_bit_mult[of ?n a b] signed_take_bit_mult[of ?n "signed_take_bit ?n a" b] by simp
  have add': "take_bit n (take_bit n a + b) = take_bit n (a + b)" for n and a b :: int
    using take_bit_add[of n a b] take_bit_add[of n "take_bit n a" b] by simp
  have mul': "take_bit n (take_bit n a * b) = take_bit n (a * b)" for n and a b :: int
    using take_bit_mult[of n a b] take_bit_mult[of n "take_bit n a" b] by simp
  have left: "c_conv cs t (c_conv cs t a + b) = c_conv cs t (a + b)" "c_conv cs t (c_conv cs t a * b) = c_conv cs t (a * b)" for a b
    by (simp_all add: c_conv_def add mul add' mul' del: One_nat_def)
  show "c_conv cs t (c_conv cs t a + b) = c_conv cs t (a + b)" "c_conv cs t (c_conv cs t a * b) = c_conv cs t (a * b)"
    by (rule left)+
  show "c_conv cs t (a + c_conv cs t b) = c_conv cs t (a + b)" "c_conv cs t (a * c_conv cs t b) = c_conv cs t (a * b)"
    using left[of b a] by (simp_all add: add.commute mult.commute)
  show "c_conv cs t (c_conv cs t a AND b) = c_conv cs t (a AND b)" "c_conv cs t (a AND c_conv cs t b) = c_conv cs t (a AND b)"
    "c_conv cs t (c_conv cs t a OR b) = c_conv cs t (a OR b)" "c_conv cs t (a OR c_conv cs t b) = c_conv cs t (a OR b)"
    "c_conv cs t (c_conv cs t a XOR b) = c_conv cs t (a XOR b)" "c_conv cs t (a XOR c_conv cs t b) = c_conv cs t (a XOR b)"
    by (auto simp: c_conv_def bit_eq_iff bit_simps)
qed

section \<open>The result of a run\<close>

definition update_view :: "bool \<Rightarrow> c_op \<Rightarrow> c_type \<Rightarrow> int \<times> int \<Rightarrow> c_view option \<Rightarrow> c_view option" where
  "update_view cs k t x v = Option.bind v (c_update cs k t x)"

text \<open>The view of the worker that declared the reducer after a run, and after its updates in serial order.\<close>

definition run_result :: "bool \<Rightarrow> c_op \<Rightarrow> c_type \<Rightarrow> int \<Rightarrow> (int \<times> int) run \<Rightarrow> c_view option option" where
  "run_result cs k t v0 r = (let h = c_reducer cs k t v0 in par_run h (update_view cs k t) r (Some (leftmost_view h)))"

definition serial_result :: "bool \<Rightarrow> c_op \<Rightarrow> c_type \<Rightarrow> int \<Rightarrow> (int \<times> int) list \<Rightarrow> c_view option" where
  "serial_result cs k t v0 xs = fold (update_view cs k t) xs (leftmost_view (c_reducer cs k t v0))"

lemma fold_run_defined:
  assumes "\<And>r. set (updates r) = set xs \<Longrightarrow> run_result cs k t v0 r \<noteq> Some None"
  shows "serial_result cs k t v0 xs \<noteq> None"
proof -
  have "par_run h (update_view cs k t) (foldr (\<lambda>x. Serial (Update x)) ys Idle) (Some v) = Some (fold (update_view cs k t) ys v)" for h ys v
    by (induction ys arbitrary: v) simp_all
  moreover have "updates (foldr (\<lambda>x. Serial (Update x)) ys Idle) = ys" for ys :: "(int \<times> int) list"
    by (induction ys) simp_all
  ultimately show ?thesis
    using assms[of "foldr (\<lambda>x. Serial (Update x)) xs Idle"] by (simp add: run_result_def serial_result_def Let_def)
qed

text \<open>What is proved of each reducer: a run and its updates in serial order have the same result, unless
  one of them is undefined.\<close>

definition agrees :: "bool \<Rightarrow> c_op \<Rightarrow> c_type \<Rightarrow> int \<Rightarrow> (int \<times> int) run \<Rightarrow> bool" where
  "agrees cs k t v0 r \<longleftrightarrow> (\<exists>y. run_result cs k t v0 r = Some y \<and>
     (y \<noteq> None \<and> serial_result cs k t v0 (updates r) \<noteq> None \<longrightarrow> y = serial_result cs k t v0 (updates r)))"

section \<open>Operators\<close>

locale c_operator =
  fixes k :: c_op and f :: "int \<Rightarrow> int \<Rightarrow> int" and e :: int
  assumes op_reduce: "c_reduce cs k t (Plain l) (Plain r) = map_option Plain (c_store cs t (f l r))"
    and op_identity: "c_identity cs k t = Plain (c_conv cs t e)"
    and op_update: "c_update cs k t (i, x) (Plain v) = c_reduce cs k t (Plain v) (Plain x)"
    and op_assoc: "f (f l v) x = f l (f v x)" and op_unit: "f l e = l"
    and op_conv: "c_conv cs t (f (c_conv cs t a) b) = c_conv cs t (f a b)" "c_conv cs t (f a (c_conv cs t b)) = c_conv cs t (f a b)"

sublocale c_operator \<subseteq> law: reducer_impl "{v. in_range cs t v}" "{x. in_range cs t (snd x)}"
    "\<lambda>x v. c_conv cs t (f v (snd x))" "\<lambda>l r. c_conv cs t (f l r)" "c_conv cs t e"
    "c_reducer cs k t v0" "update_view cs k t" Plain
  for cs t v0
proof unfold_locales
  fix x :: "int \<times> int" and v l
  show "update_view cs k t x (Some (Plain v)) \<in> {None, Some (Plain (c_conv cs t (f v (snd x))))}"
    using c_store_conv[of cs t "f v (snd x)"] by (cases x) (auto simp: update_view_def op_update op_reduce)
  show "reduce_fn (c_reducer cs k t v0) (Some (Plain l)) (Some (Plain v)) \<in> {None, Some (Plain (c_conv cs t (f l v)))}"
    using c_store_conv[of cs t "f l v"] by (auto simp: c_reducer_def op_reduce)
qed (simp_all add: op_conv op_assoc op_unit in_range_conv c_reducer_def op_identity update_view_def)

lemma leftmost_c_reducer [simp]: "leftmost_view (c_reducer cs k t v) = Some (init_view k v)"
  by (simp add: c_reducer_def)

context c_operator
begin

lemma op_agrees:
  assumes "init_view k v0 = Plain v0" "in_range cs t v0" "\<forall>x\<in>set (updates r). in_range cs t (snd x)"
  shows "agrees cs k t v0 r"
  using law.par_run_serial[of r cs t v0 v0] assms
  by (auto simp: agrees_def run_result_def serial_result_def Let_def)

lemma op_defined:
  assumes "init_view k v0 = Plain v0" "in_range cs t v0" "\<forall>x\<in>set (updates r). in_range cs t (snd x)"
    and "\<And>l v. in_range cs t l \<Longrightarrow> in_range cs t v \<Longrightarrow> c_store cs t (f l v) \<noteq> None"
  shows "run_result cs k t v0 r \<noteq> Some None"
proof -
  have "par_run (c_reducer cs k t v0) (update_view cs k t) r (map_option (\<lambda>v. Some (Plain v)) (Some v0)) =
    map_option (\<lambda>v. Some (Plain v)) (law.run_view cs t (updates r) (Some v0))"
    by (rule law.par_run_defined) (use assms in \<open>auto simp: update_view_def op_update op_reduce c_reducer_def\<close>)
  then show ?thesis using assms(1) by (simp add: run_result_def Let_def law.run_view_def)
qed

end

interpretation opadd: c_operator REDUCER_OPADD "(+)" 0
  by unfold_locales (simp_all add: opadd_reduce_def opadd_identity_def c_conv_ops add.assoc)

interpretation opmul: c_operator REDUCER_OPMUL "(*)" 1
  by unfold_locales (simp_all add: opmul_reduce_def opmul_identity_def c_conv_ops mult.assoc)

interpretation opand: c_operator REDUCER_OPAND "(AND)" "NOT 0"
  by unfold_locales (simp_all add: opand_reduce_def opand_identity_def c_conv_ops and.assoc)

interpretation opor: c_operator REDUCER_OPOR "(OR)" 0
  by unfold_locales (simp_all add: opor_reduce_def opor_identity_def c_conv_ops or.assoc)

interpretation opxor: c_operator REDUCER_OPXOR "(XOR)" 0
  by unfold_locales (simp_all add: opxor_reduce_def opxor_identity_def c_conv_ops xor.assoc)

section \<open>Minimum and maximum\<close>

text \<open>\<open>lt a b\<close>: \<open>b\<close> replaces \<open>a\<close>.  A view never comes to lie beyond the identity.\<close>

locale c_extremum =
  fixes k :: c_op and lt :: "int \<Rightarrow> int \<Rightarrow> bool" and idt :: "bool \<Rightarrow> c_type \<Rightarrow> int"
    and con :: "'w \<Rightarrow> c_view" and num :: "'w \<Rightarrow> int" and mk :: "int \<Rightarrow> int \<Rightarrow> 'w"
  assumes ex_reduce: "c_reduce cs k t (con l) (con r) = Some (con (if lt (num l) (num r) then r else l))"
    and ex_identity: "c_identity cs k t = con (mk 0 (idt cs t))"
    and ex_update: "c_update cs k t (i, x) (con v) = Some (con (if lt (num v) x then mk i x else v))"
    and num_mk [simp]: "num (mk i x) = x"
    and lt_irrefl: "\<not> lt a a" and lt_trans: "lt a b \<Longrightarrow> lt b c \<Longrightarrow> lt a c" and lt_total: "\<not> lt a b \<Longrightarrow> \<not> lt b a \<Longrightarrow> a = b"
    and idt_range: "in_range cs t (idt cs t)"
begin

lemma lt_neg_trans: "\<not> lt a b \<Longrightarrow> \<not> lt b c \<Longrightarrow> \<not> lt a c"
  using lt_trans[of a c b] lt_total[of b c] lt_irrefl by blast

lemma lt_cases: "lt a b \<Longrightarrow> \<not> lt c b \<Longrightarrow> \<not> lt c a"
  using lt_trans[of c a b] by blast

end

sublocale c_extremum \<subseteq> law: reducer_impl "{v. in_range cs t (num v) \<and> \<not> lt (num v) (idt cs t)}" "{x. in_range cs t (snd x)}"
    "\<lambda>x v. if lt (num v) (snd x) then mk (fst x) (snd x) else v" "\<lambda>l r. if lt (num l) (num r) then r else l" "mk 0 (idt cs t)"
    "c_reducer cs k t v0" "update_view cs k t" con
  for cs t v0
proof unfold_locales
  fix x :: "int \<times> int" and v l
  show "update_view cs k t x (Some (con v)) \<in> {None, Some (con (if lt (num v) (snd x) then mk (fst x) (snd x) else v))}"
    by (cases x) (simp add: update_view_def ex_update)
  assume "x \<in> {x. in_range cs t (snd x)}" "v \<in> {v. in_range cs t (num v) \<and> \<not> lt (num v) (idt cs t)}"
  then show "(if lt (num v) (snd x) then mk (fst x) (snd x) else v) \<in> {v. in_range cs t (num v) \<and> \<not> lt (num v) (idt cs t)}"
    using lt_trans[of "num v" "snd x" "idt cs t"] by auto
qed (use idt_range in \<open>auto simp: c_reducer_def ex_reduce ex_identity update_view_def lt_irrefl dest: lt_trans lt_neg_trans lt_cases\<close>)

context c_extremum
begin

lemma ex_agrees:
  assumes "init_view k v0 = con w" "num w = v0" "in_range cs t v0" "\<not> lt v0 (idt cs t)" "\<forall>x\<in>set (updates r). in_range cs t (snd x)"
  shows "agrees cs k t v0 r"
  using law.par_run_serial[of r cs t w v0] assms
  by (auto simp: agrees_def run_result_def serial_result_def Let_def)

lemma ex_defined:
  assumes "init_view k v0 = con w" "num w = v0" "in_range cs t v0" "\<not> lt v0 (idt cs t)" "\<forall>x\<in>set (updates r). in_range cs t (snd x)"
  shows "run_result cs k t v0 r \<noteq> Some None"
proof -
  have "par_run (c_reducer cs k t v0) (update_view cs k t) r (map_option (\<lambda>v. Some (con v)) (Some w)) =
    map_option (\<lambda>v. Some (con v)) (law.run_view cs t (updates r) (Some w))"
    by (rule law.par_run_defined) (use assms in \<open>auto simp: update_view_def ex_update ex_reduce c_reducer_def\<close>)
  then show ?thesis using assms(1) by (simp add: run_result_def Let_def law.run_view_def)
qed

end

lemma c_ids_in_range: "in_range cs t (max_id cs t)" "in_range cs t (min_id cs t)"
  by (cases t; simp add: in_range_def c_min_def c_max_def)+

interpretation ex_max: c_extremum REDUCER_MAX "(<)" max_id Plain "\<lambda>v. v" "\<lambda>i x. x"
  by unfold_locales (simp_all add: max_reduce_def max_calc_def c_ids_in_range)

interpretation ex_min: c_extremum REDUCER_MIN "(>)" min_id Plain "\<lambda>v. v" "\<lambda>i x. x"
  by unfold_locales (simp_all add: min_reduce_def min_calc_def c_ids_in_range)

interpretation ex_max_index: c_extremum REDUCER_MAX_INDEX "(<)" max_id Indexed view_value "\<lambda>i x. \<lparr>view_index = i, view_value = x\<rparr>"
  by unfold_locales (simp_all add: max_index_reduce_def max_index_calc_def max_index_identity_def c_ids_in_range)

interpretation ex_min_index: c_extremum REDUCER_MIN_INDEX "(>)" min_id Indexed view_value "\<lambda>i x. \<lparr>view_index = i, view_value = x\<rparr>"
  by unfold_locales (simp_all add: min_index_reduce_def min_index_calc_def min_index_identity_def c_ids_in_range)

section \<open>Properties\<close>

text \<open>The reducers that compute no undefined value: all but the sums and products of the signed types
  that are not narrower than \<open>int\<close>, and the products of \<open>unsigned short\<close>, which are computed in \<open>int\<close>.\<close>

definition never_undefined :: "c_op \<Rightarrow> c_type \<Rightarrow> bool" where
  "never_undefined k t \<longleftrightarrow>
     (k = REDUCER_OPADD \<longrightarrow> t \<notin> {T_wchar_t, T_int, T_long, T_longlong}) \<and>
     (k = REDUCER_OPMUL \<longrightarrow> t \<notin> {T_ushort, T_wchar_t, T_int, T_long, T_longlong})"

lemma store_defined:
  assumes "c_bits t < 32 \<Longrightarrow> in_range cs T_int z" "32 \<le> c_bits t \<Longrightarrow> c_signed cs t \<Longrightarrow> in_range cs t z"
  shows "c_store cs t z \<noteq> None"
  using assms by (cases t) (auto simp: c_store_def c_promote_def Let_def)

lemma range_int: "in_range cs t z \<Longrightarrow> c_bits t < 32 \<Longrightarrow> in_range cs T_int z"
  by (cases t) (auto simp: in_range_def c_min_def c_max_def split: if_splits)

lemma store_in_range: "in_range cs t z \<Longrightarrow> c_store cs t z \<noteq> None"
  using store_defined range_int by blast

lemma c_conv_bits:
  "c_conv cs t (a AND b) = c_conv cs t a AND c_conv cs t b"
  "c_conv cs t (a OR b) = c_conv cs t a OR c_conv cs t b"
  "c_conv cs t (a XOR b) = c_conv cs t a XOR c_conv cs t b"
  by (auto simp: c_conv_def bit_eq_iff bit_simps)

lemma store_bits_defined:
  assumes "in_range cs t a" "in_range cs t b"
  shows "c_store cs t (a AND b) \<noteq> None" "c_store cs t (a OR b) \<noteq> None" "c_store cs t (a XOR b) \<noteq> None"
  by (rule store_in_range; use assms in \<open>simp add: in_range_conv c_conv_bits\<close>)+

lemma store_add_defined:
  assumes "in_range cs t a" "in_range cs t b" "never_undefined REDUCER_OPADD t"
  shows "c_store cs t (a + b) \<noteq> None"
  by (rule store_defined) (use assms in \<open>cases t; auto simp: in_range_def c_min_def c_max_def never_undefined_def split: if_splits\<close>)+

lemma abs_product: "\<bar>a\<bar> \<le> m \<Longrightarrow> \<bar>b\<bar> \<le> m \<Longrightarrow> \<bar>a * b\<bar> \<le> m * m" for a b m :: int
  by (simp add: abs_mult mult_mono')

lemma store_mul_defined:
  assumes r: "in_range cs t a" "in_range cs t b" and n: "never_undefined REDUCER_OPMUL t"
  shows "c_store cs t (a * b) \<noteq> None"
proof (rule store_defined)
  assume s: "c_bits t < 32"
  have "\<bar>a\<bar> \<le> 32768" "\<bar>b\<bar> \<le> 32768"
    using r s n by (cases t; auto simp: in_range_def c_min_def c_max_def never_undefined_def split: if_splits)+
  from abs_product[OF this] show "in_range cs T_int (a * b)" by (auto simp: in_range_def c_min_def c_max_def)
next
  assume "32 \<le> c_bits t" "c_signed cs t"
  then show "in_range cs t (a * b)" using n by (cases t) (auto simp: never_undefined_def)
qed

lemma init_view_simps [simp]:
  "init_view REDUCER_OPADD v = Plain v" "init_view REDUCER_OPMUL v = Plain v" "init_view REDUCER_OPAND v = Plain v"
  "init_view REDUCER_OPOR v = Plain v" "init_view REDUCER_OPXOR v = Plain v" "init_view REDUCER_MAX v = Plain v"
  "init_view REDUCER_MIN v = Plain v" "init_view REDUCER_MAX_INDEX v = Indexed \<lparr>view_index = 0, view_value = v\<rparr>"
  "init_view REDUCER_MIN_INDEX v = Indexed \<lparr>view_index = 0, view_value = v\<rparr>"
  by (simp_all add: init_view_def)

lemma max_id_least: "in_range cs t v \<Longrightarrow> \<not> v < max_id cs t"
  by (cases t) (auto simp: in_range_def c_min_def)

lemma c_reducer_agrees:
  assumes "in_range cs t v0" "\<forall>x\<in>set (updates r). in_range cs t (snd x)"
    and "k \<in> {REDUCER_MIN, REDUCER_MIN_INDEX} \<Longrightarrow> v0 \<le> min_id cs t"
  shows "agrees cs k t v0 r"
proof (cases k)
  case REDUCER_OPADD then show ?thesis using opadd.op_agrees assms by simp
next
  case REDUCER_OPMUL then show ?thesis using opmul.op_agrees assms by simp
next
  case REDUCER_OPAND then show ?thesis using opand.op_agrees assms by simp
next
  case REDUCER_OPOR then show ?thesis using opor.op_agrees assms by simp
next
  case REDUCER_OPXOR then show ?thesis using opxor.op_agrees assms by simp
next
  case REDUCER_MAX then show ?thesis using ex_max.ex_agrees[OF _ _ _ max_id_least] assms by simp
next
  case REDUCER_MIN then show ?thesis using ex_min.ex_agrees assms by simp
next
  case REDUCER_MAX_INDEX then show ?thesis using ex_max_index.ex_agrees[OF _ _ _ max_id_least] assms by simp
next
  case REDUCER_MIN_INDEX then show ?thesis using ex_min_index.ex_agrees assms by simp
qed

lemma c_reducer_defined:
  assumes "in_range cs t v0" "\<forall>x\<in>set (updates r). in_range cs t (snd x)"
    and "k \<in> {REDUCER_MIN, REDUCER_MIN_INDEX} \<Longrightarrow> v0 \<le> min_id cs t" and n: "never_undefined k t"
  shows "run_result cs k t v0 r \<noteq> Some None"
proof (cases k)
  case REDUCER_OPADD
  then show ?thesis using opadd.op_defined[OF _ assms(1,2) store_add_defined] n by simp
next
  case REDUCER_OPMUL
  then show ?thesis using opmul.op_defined[OF _ assms(1,2) store_mul_defined] n by simp
next
  case REDUCER_OPAND then show ?thesis using opand.op_defined[OF _ assms(1,2) store_bits_defined(1)] by simp
next
  case REDUCER_OPOR then show ?thesis using opor.op_defined[OF _ assms(1,2) store_bits_defined(2)] by simp
next
  case REDUCER_OPXOR then show ?thesis using opxor.op_defined[OF _ assms(1,2) store_bits_defined(3)] by simp
next
  case REDUCER_MAX then show ?thesis using ex_max.ex_defined[OF _ _ _ max_id_least] assms by simp
next
  case REDUCER_MIN then show ?thesis using ex_min.ex_defined assms by simp
next
  case REDUCER_MAX_INDEX then show ?thesis using ex_max_index.ex_defined[OF _ _ _ max_id_least] assms by simp
next
  case REDUCER_MIN_INDEX then show ?thesis using ex_min_index.ex_defined assms by simp
qed



text \<open>Where \<open>char\<close> is signed the identity of the minimum of \<open>unsigned char\<close> is 127, so a stolen part
  that sees larger values only brings the minimum down to 127.\<close>

theorem uchar_min_wrong:
  "run_result True REDUCER_MIN T_uchar 255 (Stolen (Update (0, 200)) (Update (0, 210))) = Some (Some (Plain 127)) \<and>
   serial_result True REDUCER_MIN T_uchar 255 [(0, 200), (0, 210)] = Some (Plain 200)"
  by (simp add: run_result_def serial_result_def Let_def c_reducer_def update_view_def join_views_def
      min_calc_def min_reduce_def c_max_def)

end
