(* ===== verification/Sync_Correct.thy ===== *)
theory Sync_Correct
  imports Return_Correct Abi_Correct Fiber_Correct
begin

text \<open>
  Correctness of \<open>Cilk_sync\<close> (runtime/scheduler.c): a sync with children still running suspends the
  frame and hands over what the worker holds for it; one without goes on with the exceptions and
  reducer maps of the children taken up in serial order.
\<close>

section \<open>The fiber the worker has left\<close>

text \<open>The pools of fibers and the allocator reach nothing of the scheduler's state.\<close>

lemma put_pool_more [simp]: "fiber_state.more (put_pool r f s) = fiber_state.more s"
  by (cases r) (simp_all add: put_pool_def)

abbreviation beyond_fibers :: "'a \<Rightarrow> 'a fiber_state_scheme \<Rightarrow> bool" where
  "beyond_fibers x s \<equiv> fiber_state.more s = x"

lemma beyond_free: "preserves (beyond_fibers x) (cilk_internal_free w p sz tag)"
  by (rule preserves_fun) (simp add: more_fiber_fields(5)[OF free_outside])

lemma beyond_locks:
  "preserves (beyond_fibers x) (cilk_mutex_lock (\<lambda>s. pool_lock (get_pool r s)) (\<lambda>b. put_pool r (\<lambda>p. p\<lparr>pool_lock := b\<rparr>)))"
  "preserves (beyond_fibers x) (cilk_mutex_unlock (\<lambda>b. put_pool r (\<lambda>p. p\<lparr>pool_lock := b\<rparr>)))"
  by (rule preserves_fun, simp add: cilk_mutex_lock_Inr_iff)+

lemma beyond_fiber_deallocate: "preserves (beyond_fibers x) (cilk_fiber_deallocate w f)"
  unfolding cilk_fiber_deallocate_def free_stack_def
  by (intro preserves_intros preserves_modify beyond_free) simp_all

lemma beyond_free_batch: "preserves (beyond_fibers x) (fiber_pool_free_batch w r n)"
  unfolding fiber_pool_free_batch_def fiber_pool_assert_ownership_def fiber_pool_lock_def fiber_pool_unlock_def
    fiber_pool_assert_alienation_def pool_pop_def pool_push_def
  by (intro preserves_intros preserves_modify beyond_fiber_deallocate beyond_locks) simp_all

lemma beyond_deallocate_to_pool: "preserves (beyond_fibers x) (cilk_fiber_deallocate_to_pool w p)"
  unfolding cilk_fiber_deallocate_to_pool_def pool_push_def
  by (intro preserves_intros preserves_modify beyond_free_batch) simp_all

lemma sched_fields_beyond:
  fixes s s' :: "('v, 'a) sched_state_scheme"
  assumes "fiber_state.more s' = fiber_state.more s"
  shows "closures s' = closures s" "frames s' = frames s" "deques s' = deques s" "workers s' = workers s"
    "root_closure s' = root_closure s" "deleted_exns s' = deleted_exns s" "rmaps s' = rmaps s" "hyperobjs s' = hyperobjs s"
    "wrmap s' = wrmap s" "red_state.more s' = red_state.more s"
  using assms by (cases s; cases s'; simp)+

text \<open>The fiber in \<open>fiber_to_free\<close>, if there is one, is out of the pools; \<open>live\<close> are blocks of the allocator
  that are no fibers.\<close>

definition left_fiber_ok :: "nat \<Rightarrow> ledger \<Rightarrow> worker_id \<Rightarrow> ('v, 'a) sched_state_scheme \<Rightarrow> bool" where
  "left_fiber_ok n live w s \<longleftrightarrow> (case fiber_to_free (workers s w) of
      None \<Rightarrow> im_good n s live
    | Some f \<Rightarrow> honest s \<and> (\<exists>out. pools_inv n live (add_mset f out) s))"

lemma free_left_fiber_run:
  assumes "left_fiber_ok n live w s" "w < n"
  shows "\<exists>s' F. free_left_fiber w s = Inr ((), s') \<and> im_good n s' (live + fiber_led F) \<and>
    fiber_state.more s' = fiber_state.more (s\<lparr>workers := (workers s)(w := (workers s w)\<lparr>fiber_to_free := None\<rparr>)\<rparr>)"
proof (cases "fiber_to_free (workers s w)")
  case None
  then have "(workers s w)\<lparr>fiber_to_free := None\<rparr> = workers s w" by simp
  then have "s\<lparr>workers := (workers s)(w := (workers s w)\<lparr>fiber_to_free := None\<rparr>)\<rparr> = s" by simp
  then show ?thesis using assms None
    by (intro exI[of _ s] exI[of _ "{#}"]) (simp add: free_left_fiber_def left_fiber_ok_def)
next
  case (Some f)
  then obtain out where o: "honest s" "pools_inv n live (add_mset f out) s" using assms(1) by (auto simp: left_fiber_ok_def)
  obtain s1 where s1: "cilk_fiber_deallocate_to_pool w (Some f) s = Inr ((), s1)" "pools_inv n live out s1"
    using give_run[OF o(2,1) assms(2)] by blast
  have m: "fiber_state.more s1 = fiber_state.more s" using preservesD[OF beyond_deallocate_to_pool refl s1(1)] .
  let ?s = "s1\<lparr>workers := (workers s1)(w := (workers s1 w)\<lparr>fiber_to_free := None\<rparr>)\<rparr>"
  have "free_left_fiber w s = Inr ((), ?s)"
    using Some s1(1) by (simp add: free_left_fiber_def thenA_def bindA_def)
  moreover have "im_good n s1 (live + fiber_led (pooled n s1 + out))" using s1(2) by (simp add: pools_inv_def core_def)
  then have "im_good n ?s (live + fiber_led (pooled n s1 + out))" by (subst im_good_cong[of ?s s1]) simp_all
  moreover have "fiber_state.more ?s = fiber_state.more (s\<lparr>workers := (workers s)(w := (workers s w)\<lparr>fiber_to_free := None\<rparr>)\<rparr>)"
    using m by (cases s; cases s1) simp
  ultimately show ?thesis by blast
qed

section \<open>A worker at a sync\<close>

text \<open>The worker runs the frame \<open>fr\<close> of the closure \<open>t\<close> at the bottom of its deque, nobody holds a lock,
  and the frame has been stolen: only then the compiled code calls \<open>__cilkrts_sync\<close>.\<close>

definition syncing :: "worker_id \<Rightarrow> addr \<Rightarrow> addr \<Rightarrow> closure \<Rightarrow> stack_frame \<Rightarrow> addr list \<Rightarrow> ('v, 'a) sched_state_scheme \<Rightarrow> bool" where
  "syncing w fr t c f xs s \<longleftrightarrow>
     \<not> dq_mutex (deques s w) \<and> dq_owner (deques s w) = NO_WORKER \<and> deque_rep w (xs @ [t]) s \<and>
     closures s t = Some c \<and> \<not> cl_mutex c \<and> \<not> lock_wait c \<and> mutex_owner c = NO_WORKER \<and> status c = CLOSURE_RUNNING \<and>
     frame c = Some fr \<and> \<not> has_cilk_callee c \<and> user_rmap c = None \<and> (simulated_stolen c \<longrightarrow> join_counter c = 0) \<and>
     frames s fr = Some f \<and> sf_worker f = W w \<and> cilkrts_stolen f \<and>
     head (workers s w) = tail (workers s w) \<and> current_stack_frame (workers s w) = Some fr \<and> \<not> l_lock_wait (workers s w) \<and>
     (fiber_to_free (workers s w) = None \<or> fiber_to_free (workers s w) \<noteq> fiber c) \<and>
     (root_closure s = Some t \<or> spawn_parent c \<noteq> None \<or> call_parent c \<noteq> None)"

lemma syncingD:
  assumes "syncing w fr t c f xs s"
  shows "\<not> dq_mutex (deques s w)" "deque_rep w (xs @ [t]) s" "closures s t = Some c" "\<not> cl_mutex c" "\<not> lock_wait c"
    "status c = CLOSURE_RUNNING" "frame c = Some fr" "\<not> has_cilk_callee c" "user_rmap c = None" "simulated_stolen c \<longrightarrow> join_counter c = 0"
    "frames s fr = Some f" "sf_worker f = W w" "cilkrts_stolen f" "head (workers s w) = tail (workers s w)"
    "current_stack_frame (workers s w) = Some fr" "\<not> l_lock_wait (workers s w)"
    "fiber_to_free (workers s w) = None \<or> fiber_to_free (workers s w) \<noteq> fiber c"
    "root_closure s = Some t \<or> spawn_parent c \<noteq> None \<or> call_parent c \<noteq> None" "mutex_owner c = NO_WORKER"
    "dq_owner (deques s w) = NO_WORKER" "bottom (deques s w) = Some t" "owner_ready_deque c = w"
  using assms deque_repD(4)[of w "xs @ [t]" s] deque_rep_owner[of w "xs @ [t]" s t c] by (simp_all add: syncing_def)

text \<open>The state under the two locks, and the part of \<open>sync_locked\<close> after its assertions.\<close>

definition sync_entered :: "worker_id \<Rightarrow> addr \<Rightarrow> closure \<Rightarrow> ('v, 'a) sched_state_scheme \<Rightarrow> ('v, 'a) sched_state_scheme" where
  "sync_entered w t c s = s\<lparr>closures := (closures s)(t \<mapsto> lock_of w c),
     deques := (deques s)(w := (deques s w)\<lparr>dq_mutex := True, dq_owner := w\<rparr>)\<rparr>"

definition sync_decide :: "worker_id \<Rightarrow> addr \<Rightarrow> closure \<Rightarrow> (('v, 'a) sched_state_scheme, sync_result) act" where
  "sync_decide w t c =
     (if Closure_has_children c then
        thenA (if user_exn c = None then upd_w w (\<lambda>l. l\<lparr>fiber_to_free := fiber c\<rparr>)
               else upd_cl t (\<lambda>k. k\<lparr>saved_throwing_fiber := fiber c\<rparr>))
       (thenA (upd_cl t (\<lambda>k. k\<lparr>fiber := None\<rparr>))
       (bindA (gets (\<lambda>s. wrmap s w)) (\<lambda>reducers.
        thenA (modify (\<lambda>s. s\<lparr>wrmap := (wrmap s)(w := None)\<rparr>))
       (thenA (Closure_suspend w t)
       (thenA (upd_cl t (\<lambda>k. k\<lparr>user_rmap := reducers\<rparr>))
              (ret SYNC_NOT_READY))))))
      else thenA (setup_for_sync w t) (ret SYNC_READY))"

lemma lock_of_children [simp]: "Closure_has_children (lock_of w c) = Closure_has_children c"
  by (simp add: Closure_has_children_def)

lemma left_fiber_ok_entered:
  fixes s :: "('v, 'a) sched_state_scheme"
  shows "left_fiber_ok n live w (sync_entered w t c s) = left_fiber_ok n live w s"
proof -
  let ?e = "sync_entered w t c s"
  have f: "im_pool ?e = im_pool s" "fibers ?e = fibers s" "gfiber_pool ?e = gfiber_pool s" "wfiber_pool ?e = wfiber_pool s" "workers ?e = workers s"
    by (simp_all add: sync_entered_def)
  have g: "im_good n ?e l = im_good n s l" for l unfolding sync_entered_def by (rule im_good_cong) simp_all
  have c: "core n l F ?e = core n l F s" for l F unfolding sync_entered_def by (rule core_cong) simp_all
  show ?thesis unfolding left_fiber_ok_def pools_inv_def pooled_def honest_def g c f by simp
qed

lemma sync_locked_run:
  assumes "syncing w fr t c f xs s"
  shows "sync_locked w fr t (sync_entered w t c s) = thenA (free_left_fiber w) (sync_decide w t (lock_of w c)) (sync_entered w t c s)"
proof -
  note d = syncingD[OF assms]
  have top: "Closure_at_top_of_stack w (sync_entered w t c s) = Inr (True, sync_entered w t c s)"
    using d by (simp add: Closure_at_top_of_stack_def sync_entered_def bindA_def)
  have cl: "closures (sync_entered w t c s) t = Some (lock_of w c)" "frames (sync_entered w t c s) fr = Some f"
    "workers (sync_entered w t c s) = workers s"
    using d by (simp_all add: sync_entered_def)
  have ch: "simulated_stolen c \<longrightarrow> \<not> Closure_has_children c" using d by (simp add: Closure_has_children_def)
  show ?thesis
    using d cl ch unfolding sync_locked_def sync_decide_def run_bindA_Inr[where m = "Closure_at_top_of_stack w" and s = "sync_entered w t c s", OF top]
    by (simp cong: run_cong)
qed

definition sync_rest :: "worker_id \<Rightarrow> addr \<Rightarrow> addr \<Rightarrow> sync_result \<Rightarrow> (('v, 'a) sched_state_scheme, sync_result) act" where
  "sync_rest w fr t res =
     thenA (Closure_unlock w t)
    (thenA (deque_unlock_self w)
    (thenA (whenA (res = SYNC_READY) (sync_collect w fr t))
           (ret res)))"

lemma Cilk_sync_run:
  fixes s :: "('v, 'a) sched_state_scheme"
  assumes "syncing w fr t c f xs s"
  shows "Cilk_sync w fr s = bindA (thenA (free_left_fiber w) (sync_decide w t (lock_of w c))) (sync_rest w fr t) (sync_entered w t c s)"
proof -
  note d = syncingD[OF assms]
  have l: "(workers s w)\<lparr>l_lock_wait := False\<rparr> = workers s w" using d(16) by simp
  have o: "s\<lparr>deques := D, closures := C\<rparr> = s\<lparr>closures := C, deques := D\<rparr>" for C D by (cases s) simp
  have "Cilk_sync w fr s = bindA (sync_locked w fr t) (sync_rest w fr t) (sync_entered w t c s)"
    using d unfolding Cilk_sync_def deque_lock_self_run[OF d(1)] sync_rest_def
    by (simp add: deque_peek_bottom_run l sync_entered_def o)
  then show ?thesis unfolding bindA_def sync_locked_run[OF assms] by simp
qed

subsection \<open>Children are still running\<close>

lemma deque_frame_fields:
  fixes s s' :: "('v, 'a) sched_state_scheme"
  assumes "deque_frame s s'"
  shows "frames s' = frames s" "workers s' = workers s" "wrmap s' = wrmap s" "rmaps s' = rmaps s" "hyperobjs s' = hyperobjs s"
    "root_closure s' = root_closure s" "deleted_exns s' = deleted_exns s" "dq_mutex (deques s' p) = dq_mutex (deques s p)"
    "im_pool s' = im_pool s" "map_option ready_erase (closures s' x) = map_option ready_erase (closures s x)"
proof -
  have e: "s'\<lparr>closures := closures s, deques := deques s\<rparr> = s" and d: "ends_erase (deques s' p) = ends_erase (deques s p)"
    and c: "map_option ready_erase (closures s' x) = map_option ready_erase (closures s x)"
    using assms by (simp_all add: deque_frame_def)
  show "frames s' = frames s" "workers s' = workers s" "wrmap s' = wrmap s" "rmaps s' = rmaps s" "hyperobjs s' = hyperobjs s"
    "root_closure s' = root_closure s" "deleted_exns s' = deleted_exns s" "im_pool s' = im_pool s"
    by (subst e[symmetric], simp)+
  show "dq_mutex (deques s' p) = dq_mutex (deques s p)" using arg_cong[OF d, of dq_mutex] by (simp add: ends_erase_def)
  show "map_option ready_erase (closures s' x) = map_option ready_erase (closures s x)" by (rule c)
qed

text \<open>The closure of a suspended frame: its fiber is with the worker, or kept for an exception, and the
  worker's reducer map \<open>m\<close> is with it.\<close>

definition suspended :: "addr option \<Rightarrow> closure \<Rightarrow> closure" where
  "suspended m c = c\<lparr>fiber := None, status := CLOSURE_SUSPENDED, user_rmap := m,
     saved_throwing_fiber := (if user_exn c = None then saved_throwing_fiber c else fiber c)\<rparr>"

lemma Closure_suspend_run:
  assumes c: "closures s t = Some c" "user_rmap c = None" "status c = CLOSURE_RUNNING" "mutex_owner c = w" "frame c = Some fr"
    and f: "frames s fr = Some f" "cilkrts_stolen f" "sf_worker f = W w"
    and d: "dq_owner (deques s w) = w" and r: "root_closure s = Some t \<or> spawn_parent c \<noteq> None \<or> call_parent c \<noteq> None"
  shows "thenA (Closure_suspend w t) n s = bindA (deque_xtract_bottom w w) (\<lambda>cl1. thenA (assertA (cl1 = Some t) Closure_c 364) n)
    (s\<lparr>closures := (closures s)(t \<mapsto> c\<lparr>status := CLOSURE_SUSPENDED\<rparr>), frames := (frames s)(fr \<mapsto> f\<lparr>sf_worker := Filler_bf5\<rparr>)\<rparr>)"
  using assms by (simp add: Closure_suspend_def deque_assert_ownership_def Closure_change_status_def act_flat_run cong: run_cong)

text \<open>Updates of different fields commute; this is the order used here.\<close>

lemma upd_order:
  fixes s :: "('v, 'a) sched_state_scheme"
  shows "s\<lparr>workers := a, closures := C\<rparr> = s\<lparr>closures := C, workers := a\<rparr>" "s\<lparr>workers := a, frames := F\<rparr> = s\<lparr>frames := F, workers := a\<rparr>"
    "s\<lparr>workers := a, wrmap := m\<rparr> = s\<lparr>wrmap := m, workers := a\<rparr>" "s\<lparr>frames := F, closures := C\<rparr> = s\<lparr>closures := C, frames := F\<rparr>"
    "s\<lparr>frames := F, wrmap := m\<rparr> = s\<lparr>wrmap := m, frames := F\<rparr>" "s\<lparr>closures := C, wrmap := m\<rparr> = s\<lparr>wrmap := m, closures := C\<rparr>"
    "s\<lparr>deques := D, closures := C\<rparr> = s\<lparr>closures := C, deques := D\<rparr>"
  by (cases s; simp)+

text \<open>The state after the worker has got rid of its old fiber.\<close>

lemma freed_fields:
  fixes s s2 :: "('v, 'a) sched_state_scheme"
  assumes "fiber_state.more s2 = fiber_state.more ((sync_entered w t c s)\<lparr>workers := ws\<rparr>)"
  shows "closures s2 = (closures s)(t \<mapsto> lock_of w c)" "deques s2 = (deques s)(w := (deques s w)\<lparr>dq_mutex := True, dq_owner := w\<rparr>)"
    "frames s2 = frames s" "workers s2 = ws" "wrmap s2 = wrmap s" "rmaps s2 = rmaps s" "hyperobjs s2 = hyperobjs s"
    "root_closure s2 = root_closure s" "deleted_exns s2 = deleted_exns s"
  using sched_fields_beyond[OF assms] by (simp_all add: sync_entered_def)

lemma rep_after_entry:
  assumes "deque_rep pn xs s" "closures s t = Some c" "owner_ready_deque c' = owner_ready_deque c" "prev_ready c' = prev_ready c"
    "next_ready c' = next_ready c" "closures s' = (closures s)(t \<mapsto> c')" "top (deques s' pn) = top (deques s pn)" "bottom (deques s' pn) = bottom (deques s pn)"
  shows "deque_rep pn xs s'"
  by (rule deque_rep_frame[OF assms(1,7,8)]) (use assms(2-6) in auto)

lemma sync_suspend_run:
  fixes s s2 :: "('v, 'a) sched_state_scheme"
  assumes sy: "syncing w fr t c f xs s" and ch: "Closure_has_children c"
    and s2: "fiber_state.more s2 = fiber_state.more ((sync_entered w t c s)\<lparr>workers := (workers s)(w := (workers s w)\<lparr>fiber_to_free := None\<rparr>)\<rparr>)"
  shows "\<exists>s'. bindA (sync_decide w t (lock_of w c)) (sync_rest w fr t) s2 = Inr (SYNC_NOT_READY, s') \<and>
    map_option ready_erase (closures s' t) = Some (ready_erase (suspended (wrmap s w) c)) \<and> ready_owner s' t = Some NO_WORKER \<and>
    (\<forall>x. x \<noteq> t \<longrightarrow> map_option ready_erase (closures s' x) = map_option ready_erase (closures s x)) \<and>
    deque_rep w xs s' \<and> \<not> dq_mutex (deques s' w) \<and>
    frames s' = (frames s)(fr \<mapsto> f\<lparr>sf_worker := Filler_bf5\<rparr>) \<and>
    workers s' = (workers s)(w := (workers s w)\<lparr>fiber_to_free := (if user_exn c = None then fiber c else None)\<rparr>) \<and>
    wrmap s' = (wrmap s)(w := None) \<and> rmaps s' = rmaps s"
proof -
  note d = syncingD[OF sy] note f2 = freed_fields[OF s2]
  let ?c = "lock_of w (c\<lparr>saved_throwing_fiber := (if user_exn c = None then saved_throwing_fiber c else fiber c),
     fiber := None, status := CLOSURE_SUSPENDED\<rparr>)"
  let ?ws = "(workers s)(w := (workers s w)\<lparr>fiber_to_free := (if user_exn c = None then fiber c else None)\<rparr>)"
  define s3 where "s3 = s2\<lparr>wrmap := (wrmap s2)(w := None), closures := (closures s2)(t \<mapsto> ?c),
     frames := (frames s2)(fr \<mapsto> f\<lparr>sf_worker := Filler_bf5\<rparr>), workers := ?ws\<rparr>"
  have keep: "s2\<lparr>wrmap := m, closures := C, frames := F, workers := (workers s)(w := (workers s w)\<lparr>fiber_to_free := None\<rparr>)\<rparr> =
      s2\<lparr>wrmap := m, closures := C, frames := F\<rparr>" for m C F
    unfolding f2(4)[symmetric] by (cases s2) simp
  have run: "sync_decide w t (lock_of w c) s2 = bindA (deque_xtract_bottom w w) (\<lambda>cl1.
      thenA (assertA (cl1 = Some t) Closure_c 364) (thenA (upd_cl t (\<lambda>k. k\<lparr>user_rmap := wrmap s w\<rparr>)) (ret SYNC_NOT_READY))) s3"
    using d f2 ch by (cases "user_exn c")
      (simp_all add: sync_decide_def Closure_suspend_run act_flat_run s3_def upd_order keep cong: run_cong)
  have rep: "deque_rep w (xs @ [t]) s3"
    by (rule rep_after_entry[OF d(2,3), where c' = ?c]) (simp_all add: s3_def f2)
  obtain s4 where s4: "deque_xtract_bottom w w s3 = Inr (Some t, s4)" "deque_rep w xs s4" "deque_frame s3 s4"
      "ready_owner s4 = (ready_owner s3)(t \<mapsto> NO_WORKER)"
    using deque_xtract_bottom_run[OF _ rep, of w] by (auto simp: s3_def f2)
  note ff = deque_frame_fields[OF s4(3)]
  have "map_option ready_erase (closures s4 t) = Some (ready_erase ?c)" "ready_owner s4 t = Some NO_WORKER"
    unfolding ff(10)[of t] s4(4) by (simp_all add: s3_def)
  then obtain c4 where c4: "closures s4 t = Some c4" "ready_erase c4 = ready_erase ?c" "owner_ready_deque c4 = NO_WORKER"
    by (cases "closures s4 t") (simp_all add: ready_owner_def)
  have live: "live_status (status c4)" "mutex_owner c4 = w" "lock_wait c4 = False"
    using arg_cong[OF c4(2), of status] arg_cong[OF c4(2), of mutex_owner] arg_cong[OF c4(2), of lock_wait] by (simp_all add: ready_erase_def)
  let ?s' = "s4\<lparr>closures := (closures s4)(t \<mapsto> unlock_of (c4\<lparr>user_rmap := wrmap s w\<rparr>)), deques := (deques s4)(w := (deques s4 w)\<lparr>dq_owner := NO_WORKER, dq_mutex := False\<rparr>)\<rparr>"
  have "bindA (sync_decide w t (lock_of w c)) (sync_rest w fr t) s2 = Inr (SYNC_NOT_READY, ?s')"
    using c4 live by (simp add: bindA_def[of "sync_decide w t (lock_of w c)"] run run_bindA_Inr[where m = "deque_xtract_bottom w w" and s = s3, OF s4(1)]
        sync_rest_def deque_unlock_self_run)
  moreover have "ready_erase (unlock_of (c4\<lparr>user_rmap := wrmap s w\<rparr>)) = ready_erase (suspended (wrmap s w) c)"
    using c4(2) d by (cases c; cases c4) (auto simp: ready_erase_def unlock_of_def lock_of_def suspended_def)
  moreover have "deque_rep w xs ?s'"
    by (rule rep_after_entry[OF s4(2) c4(1), where c' = "unlock_of (c4\<lparr>user_rmap := wrmap s w\<rparr>)"]) simp_all
  moreover have "map_option ready_erase (closures s4 x) = map_option ready_erase (closures s x)" if "x \<noteq> t" for x
    using ff(10)[of x] that by (simp add: s3_def f2)
  ultimately show ?thesis
    using c4(3) ff(1-4) by (intro exI[of _ ?s']) (simp add: s3_def f2 ready_owner_def)
qed

subsection \<open>No child is running\<close>

text \<open>The closure goes on on the stack its leftmost child has left it.\<close>

definition take_stack :: "closure \<Rightarrow> closure" where
  "take_stack c = c\<lparr>fiber := (if simulated_stolen c then fiber c else fiber_child c),
     fiber_child := (if simulated_stolen c then fiber_child c else None), orig_rsp := None\<rparr>"

definition has_stack :: "closure \<Rightarrow> bool" where
  "has_stack c \<longleftrightarrow> fiber c \<noteq> fiber_child c \<and> (if simulated_stolen c then fiber c else fiber_child c) \<noteq> None"

lemma setup_for_sync_run:
  assumes c: "closures s t = Some c" "mutex_owner c = w" "frame c = Some fr" "has_stack c" and f: "frames s fr = Some f"
    and l: "fiber_to_free (workers s w) = None" "current_stack_frame (workers s w) = Some fr"
  shows "thenA (setup_for_sync w t) n s = n (s\<lparr>closures := (closures s)(t \<mapsto> take_stack c),
     frames := (frames s)(fr \<mapsto> (cilkrts_set_synced f)\<lparr>sf_worker := W w, SP := orig_rsp c\<rparr>),
     workers := (workers s)(w := (workers s w)\<lparr>fiber_to_free := (if simulated_stolen c then None else fiber c)\<rparr>)\<rparr>)"
proof -
  have idle: "(workers s w)\<lparr>fiber_to_free := None\<rparr> = workers s w" using l by simp
  have sync: "(cilkrts_set_synced f)\<lparr>SP := orig_rsp c, sf_worker := W w\<rparr> = (cilkrts_set_synced f)\<lparr>sf_worker := W w, SP := orig_rsp c\<rparr>"
    by simp
  show ?thesis
  proof (cases "simulated_stolen c")
    case True
    have "c\<lparr>orig_rsp := None\<rparr> = take_stack c" using True by (simp add: take_stack_def)
    then show ?thesis using True assms by (simp add: setup_for_sync_def has_stack_def act_flat_run upd_order idle sync cong: run_cong)
  next
    case False
    have "c\<lparr>fiber := fiber_child c, fiber_child := None, orig_rsp := None\<rparr> = take_stack c" using False by (simp add: take_stack_def)
    then show ?thesis using False assms by (simp add: setup_for_sync_def has_stack_def act_flat_run upd_order sync cong: run_cong)
  qed
qed

text \<open>The closure after it has taken up what its children left.\<close>

definition collected :: "closure \<Rightarrow> closure" where
  "collected c = c\<lparr>user_exn := (if child_exn c = None then user_exn c else child_exn c), child_exn := None,
     child_rmap := None, simulated_stolen := False\<rparr>"

definition pending :: "closure \<Rightarrow> stack_frame \<Rightarrow> stack_frame" where
  "pending c f = (if child_exn c = None then f else f\<lparr>flags := flags f OR CILK_FRAME_EXCEPTION_PENDING\<rparr>)"

definition collect_exn :: "addr \<Rightarrow> addr \<Rightarrow> closure \<Rightarrow> stack_frame \<Rightarrow> ('v, 'a) sched_state_scheme \<Rightarrow> ('v, 'a) sched_state_scheme" where
  "collect_exn fr t c f s = (case child_exn c of None \<Rightarrow> s | Some e \<Rightarrow>
     s\<lparr>deleted_exns := (case user_exn c of None \<Rightarrow> [] | Some e \<Rightarrow> [e]) @ deleted_exns s,
       closures := (closures s)(t \<mapsto> c\<lparr>user_exn := Some e, child_exn := None\<rparr>), frames := (frames s)(fr \<mapsto> pending c f)\<rparr>)"

lemma collect_exn_fields:
  assumes "closures s t = Some c" "frames s fr = Some f"
  shows "closures (collect_exn fr t c f s) = (closures s)(t \<mapsto> c\<lparr>user_exn := (if child_exn c = None then user_exn c else child_exn c), child_exn := None\<rparr>)"
    "frames (collect_exn fr t c f s) = (frames s)(fr \<mapsto> pending c f)" "rmaps (collect_exn fr t c f s) = rmaps s"
    "hyperobjs (collect_exn fr t c f s) = hyperobjs s" "wrmap (collect_exn fr t c f s) = wrmap s"
    "workers (collect_exn fr t c f s) = workers s" "deques (collect_exn fr t c f s) = deques s"
    "im_good n (collect_exn fr t c f s) live = im_good n s live"
    "deleted_exns (collect_exn fr t c f s) = (if child_exn c = None then [] else case user_exn c of None \<Rightarrow> [] | Some e \<Rightarrow> [e]) @ deleted_exns s"
proof -
  consider (none) "child_exn c = None" "collect_exn fr t c f s = s" | (some) e where "child_exn c = Some e" "collect_exn fr t c f s =
     s\<lparr>deleted_exns := (case user_exn c of None \<Rightarrow> [] | Some e \<Rightarrow> [e]) @ deleted_exns s,
       closures := (closures s)(t \<mapsto> c\<lparr>user_exn := Some e, child_exn := None\<rparr>), frames := (frames s)(fr \<mapsto> pending c f)\<rparr>"
    by (cases "child_exn c") (simp_all only: collect_exn_def option.case)
  note C = this
  have n: "child_exn c = None \<Longrightarrow> c\<lparr>user_exn := user_exn c, child_exn := None\<rparr> = c" by (cases c) simp
  show "closures (collect_exn fr t c f s) = (closures s)(t \<mapsto> c\<lparr>user_exn := (if child_exn c = None then user_exn c else child_exn c), child_exn := None\<rparr>)"
    using C
  proof cases
    case none
    then show ?thesis using assms(1) n by (simp only: if_True simp_thms map_upd_triv)
  next
    case some
    then show ?thesis by simp
  qed
  have g: "im_good n (s\<lparr>deleted_exns := D, closures := C, frames := F\<rparr>) live = im_good n s live" for D C F
    by (rule im_good_cong) simp_all
  show "im_good n (collect_exn fr t c f s) live = im_good n s live"
    using C by cases (simp_all only: g)
  show "frames (collect_exn fr t c f s) = (frames s)(fr \<mapsto> pending c f)"
    using C by cases (simp_all add: pending_def map_upd_triv assms(2))
  show "rmaps (collect_exn fr t c f s) = rmaps s" using C by cases simp_all
  show "hyperobjs (collect_exn fr t c f s) = hyperobjs s" using C by cases simp_all
  show "wrmap (collect_exn fr t c f s) = wrmap s" using C by cases simp_all
  show "workers (collect_exn fr t c f s) = workers s" using C by cases simp_all
  show "deques (collect_exn fr t c f s) = deques s" using C by cases simp_all
  show "deleted_exns (collect_exn fr t c f s) = (if child_exn c = None then [] else case user_exn c of None \<Rightarrow> [] | Some e \<Rightarrow> [e]) @ deleted_exns s"
    using C by cases simp_all
qed

lemma collect_exn_run:
  assumes "closures s t = Some c" "frames s fr = Some f"
  shows "thenA (whenA (child_exn c \<noteq> None)
              (thenA (delete_exn (user_exn c))
              (thenA (upd_cl t (\<lambda>k. k\<lparr>user_exn := child_exn c, child_exn := None\<rparr>))
                     (upd_sf (Some fr) (\<lambda>f. f\<lparr>flags := flags f OR CILK_FRAME_EXCEPTION_PENDING\<rparr>))))) k s = k (collect_exn fr t c f s)"
  using assms by (cases "child_exn c"; cases "user_exn c")
    (simp_all add: collect_exn_def pending_def delete_exn_def act_flat_run cong: run_cong)

text \<open>The maps the children deposited come before the worker's own one.\<close>

lemma collect_rmap_run:
  fixes s :: "('v, 'a) sched_state_scheme"
  assumes c: "closures s t = Some c"
    and m: "rmap_conf cap K s (child_rmap c)" "rmap_conf cap K s (wrmap s w)" "maps_distinct [child_rmap c, wrmap s w]"
    and good: "im_good n s (live + rmap_led (child_rmap c) + rmap_led (wrmap s w))" and w: "w < n"
  shows "\<exists>q s'. thenA (whenA (child_rmap c \<noteq> None)
              (thenA (upd_cl t (\<lambda>k. k\<lparr>child_rmap := None\<rparr>))
              (bindA (gets (\<lambda>s. wrmap s w)) (\<lambda>own.
               bindA (merge_two_rmaps w (child_rmap c) own) (\<lambda>m.
               modify (\<lambda>s. s\<lparr>wrmap := (wrmap s)(w := m)\<rparr>)))))) k s = k s' \<and>
    closures s' = (closures s)(t \<mapsto> c\<lparr>child_rmap := None\<rparr>) \<and> frames s' = frames s \<and> workers s' = workers s \<and> deques s' = deques s \<and>
    deleted_exns s' = deleted_exns s \<and> wrmap s' = (wrmap s)(w := q) \<and> rmap_conf cap K s' q \<and> im_good n s' (live + rmap_led q) \<and>
    rviews s' q = combine (hyperobjs s) (rviews s (child_rmap c)) (rviews s (wrmap s w))"
proof (cases "child_rmap c")
  case None
  then have "c\<lparr>child_rmap := None\<rparr> = c" by simp
  then show ?thesis using assms None
    by (intro exI[of _ "wrmap s w"] exI[of _ s]) (simp add: map_upd_triv)
next
  case (Some l)
  define s2 where "s2 = s\<lparr>closures := (closures s)(t \<mapsto> c\<lparr>child_rmap := None\<rparr>)\<rparr>"
  have f2: "wrmap s2 = wrmap s" "rmaps s2 = rmaps s" "hyperobjs s2 = hyperobjs s" "closures s2 = (closures s)(t \<mapsto> c\<lparr>child_rmap := None\<rparr>)"
    "frames s2 = frames s" "workers s2 = workers s" "deques s2 = deques s" "deleted_exns s2 = deleted_exns s" by (simp_all add: s2_def)
  have v2: "rviews s2 p = rviews s p" for p by (simp add: f2(2) cong: option.case_cong)
  have cc: "rmap_conf cap K s2 (child_rmap c)" "rmap_conf cap K s2 (wrmap s w)"
    using m(1,2) by (simp_all add: rmap_conf_cong[of _ s2 s] f2)
  have g2: "im_good n s2 (live + rmap_led (child_rmap c) + rmap_led (wrmap s w))"
    using good by (subst im_good_cong[of s2 s]) (simp_all add: s2_def)
  have ne: "child_rmap c = None \<or> wrmap s w = None \<or> child_rmap c \<noteq> wrmap s w" using m(3) by (auto simp: maps_distinct_def split: if_splits)
  obtain q s3 where q: "merge_two_rmaps w (child_rmap c) (wrmap s w) s2 = Inr (q, s3)" "rmap_conf cap K s3 q" "im_good n s3 (live + rmap_led q)"
      "rviews s3 q = combine (hyperobjs s2) (rviews s2 (child_rmap c)) (rviews s2 (wrmap s w))" "merge_frame s2 s3"
    using merge_two_rmaps_conf[OF cc ne g2 w] by (elim exE conjE) (rule that)
  note f3 = merge_frame_fields(2)[OF q(5)] sched_fields_more[OF merge_frame_fields(3)[OF q(5)]]
  let ?s' = "s3\<lparr>wrmap := (wrmap s)(w := q)\<rparr>"
  have "thenA (whenA (child_rmap c \<noteq> None)
              (thenA (upd_cl t (\<lambda>k. k\<lparr>child_rmap := None\<rparr>))
              (bindA (gets (\<lambda>s. wrmap s w)) (\<lambda>own.
               bindA (merge_two_rmaps w (child_rmap c) own) (\<lambda>m.
               modify (\<lambda>s. s\<lparr>wrmap := (wrmap s)(w := m)\<rparr>)))))) k s = k ?s'"
    using c Some q(1) f3(1) f2(1) by (simp add: act_flat_run s2_def[symmetric] run_bindA_Inr[where m = "merge_two_rmaps w (Some l) (wrmap s w)" and s = s2, OF q(1)[unfolded Some]] cong: run_cong)
  moreover have "rmap_conf cap K ?s' q" using q(2) rmap_conf_cong[of q ?s' s3] by simp
  moreover have "im_good n ?s' (live + rmap_led q)" using q(3) by (subst im_good_cong[of ?s' s3]) simp_all
  moreover have "rviews ?s' q = rviews s3 q" by (simp cong: option.case_cong)
  ultimately show ?thesis using q(4) f3(2-)
    by (intro exI[of _ q] exI[of _ ?s']) (simp add: v2 f2(3-))
qed

lemma sync_collect_run:
  fixes s :: "('v, 'a) sched_state_scheme"
  assumes c: "closures s t = Some c" "frames s fr = Some f"
    and m: "rmap_conf cap K s (child_rmap c)" "rmap_conf cap K s (wrmap s w)" "maps_distinct [child_rmap c, wrmap s w]"
    and good: "im_good n s (live + rmap_led (child_rmap c) + rmap_led (wrmap s w))" and w: "w < n"
  shows "\<exists>q s'. sync_collect w fr t s = Inr ((), s') \<and> closures s' = (closures s)(t \<mapsto> collected c) \<and>
    frames s' = (frames s)(fr \<mapsto> pending c f) \<and> workers s' = workers s \<and> deques s' = deques s \<and>
    deleted_exns s' = (if child_exn c = None then [] else case user_exn c of None \<Rightarrow> [] | Some e \<Rightarrow> [e]) @ deleted_exns s \<and>
    wrmap s' = (wrmap s)(w := q) \<and> rmap_conf cap K s' q \<and> im_good n s' (live + rmap_led q) \<and>
    rviews s' q = combine (hyperobjs s) (rviews s (child_rmap c)) (rviews s (wrmap s w))"
proof -
  let ?s1 = "collect_exn fr t c f s"
  let ?c1 = "c\<lparr>user_exn := (if child_exn c = None then user_exn c else child_exn c), child_exn := None\<rparr>"
  note f1 = collect_exn_fields[OF c]
  let ?k = "whenA (simulated_stolen c) (upd_cl t (\<lambda>k. k\<lparr>simulated_stolen := False\<rparr>)) :: (('v, 'a) sched_state_scheme, unit) act"
  have c1: "closures ?s1 t = Some ?c1" "child_rmap ?c1 = child_rmap c" by (simp_all add: f1)
  have cc: "rmap_conf cap K ?s1 (child_rmap c)" "rmap_conf cap K ?s1 (wrmap s w)"
    using m(1,2) by (simp_all add: rmap_conf_cong[of _ ?s1 s] f1)
  have v1: "rviews ?s1 p = rviews s p" for p by (simp add: f1(3) cong: option.case_cong)
  have g: "get_cl t s = Inr (c, s)" using c(1) by simp
  have e: "sync_collect w fr t s = thenA (whenA (child_rmap c \<noteq> None)
              (thenA (upd_cl t (\<lambda>k. k\<lparr>child_rmap := None\<rparr>))
              (bindA (gets (\<lambda>s. wrmap s w)) (\<lambda>own.
               bindA (merge_two_rmaps w (child_rmap c) own) (\<lambda>m.
               modify (\<lambda>s. s\<lparr>wrmap := (wrmap s)(w := m)\<rparr>)))))) ?k ?s1"
    unfolding sync_collect_def run_bindA_Inr[where m = "get_cl t" and s = s and x = c and s' = s, OF g] by (rule collect_exn_run[OF c])
  obtain q s2 where 2: "sync_collect w fr t s = ?k s2" "closures s2 = (closures ?s1)(t \<mapsto> ?c1\<lparr>child_rmap := None\<rparr>)"
      "frames s2 = frames ?s1" "workers s2 = workers ?s1" "deques s2 = deques ?s1" "deleted_exns s2 = deleted_exns ?s1"
      "wrmap s2 = (wrmap s)(w := q)" "rmap_conf cap K s2 q" "im_good n s2 (live + rmap_led q)"
      "rviews s2 q = combine (hyperobjs s) (rviews s (child_rmap c)) (rviews s (wrmap s w))"
    using collect_rmap_run[OF c1(1), of cap K w n live ?k, unfolded c1(2) f1(4,5,8) v1 e[symmetric], OF cc m(3) good w]
    by (elim exE conjE) (rule that)
  let ?s' = "s2\<lparr>closures := (closures s)(t \<mapsto> collected c)\<rparr>"
  have "?k s2 = Inr ((), ?s')"
  proof (cases "simulated_stolen c")
    case True
    then show ?thesis using 2(2) by (simp add: f1(1) collected_def)
  next
    case False
    then have "?c1\<lparr>child_rmap := None\<rparr> = collected c" by (cases c) (simp add: collected_def)
    then have "closures s2 = (closures s)(t \<mapsto> collected c)" using 2(2) by (simp add: f1(1))
    then show ?thesis using False by (cases s2) simp
  qed
  moreover have "rmap_conf cap K ?s' q" using 2(8) rmap_conf_cong[of q ?s' s2] by simp
  moreover have "im_good n ?s' (live + rmap_led q)" using 2(9) by (subst im_good_cong[of ?s' s2]) simp_all
  moreover have "rviews ?s' q = rviews s2 q" by (simp cong: option.case_cong)
  ultimately show ?thesis using 2(1,3-7,10) f1(2,5-7,9)
    by (intro exI[of _ q] exI[of _ ?s']) (simp add: c)
qed

lemma sync_ready_run:
  fixes s s2 :: "('v, 'a) sched_state_scheme"
  assumes sy: "syncing w fr t c f xs s" and ch: "\<not> Closure_has_children c" "has_stack c"
    and s2: "fiber_state.more s2 = fiber_state.more ((sync_entered w t c s)\<lparr>workers := (workers s)(w := (workers s w)\<lparr>fiber_to_free := None\<rparr>)\<rparr>)"
    and m: "rmap_conf cap K s (child_rmap c)" "rmap_conf cap K s (wrmap s w)" "maps_distinct [child_rmap c, wrmap s w]"
    and good: "im_good n s2 (live + rmap_led (child_rmap c) + rmap_led (wrmap s w))" and w: "w < n"
  shows "\<exists>q s'. bindA (sync_decide w t (lock_of w c)) (sync_rest w fr t) s2 = Inr (SYNC_READY, s') \<and>
    closures s' = (closures s)(t \<mapsto> collected (take_stack c)) \<and>
    frames s' = (frames s)(fr \<mapsto> pending c ((cilkrts_set_synced f)\<lparr>sf_worker := W w, SP := orig_rsp c\<rparr>)) \<and>
    workers s' = (workers s)(w := (workers s w)\<lparr>fiber_to_free := (if simulated_stolen c then None else fiber c)\<rparr>) \<and>
    deques s' = deques s \<and>
    deleted_exns s' = (if child_exn c = None then [] else case user_exn c of None \<Rightarrow> [] | Some e \<Rightarrow> [e]) @ deleted_exns s \<and>
    wrmap s' = (wrmap s)(w := q) \<and> rmap_conf cap K s' q \<and> im_good n s' (live + rmap_led q) \<and>
    rviews s' q = combine (hyperobjs s) (rviews s (child_rmap c)) (rviews s (wrmap s w))"
proof -
  note d = syncingD[OF sy] note f2 = freed_fields[OF s2]
  let ?f = "(cilkrts_set_synced f)\<lparr>sf_worker := W w, SP := orig_rsp c\<rparr>"
  let ?ws = "(workers s)(w := (workers s w)\<lparr>fiber_to_free := (if simulated_stolen c then None else fiber c)\<rparr>)"
  let ?s3 = "s2\<lparr>closures := (closures s)(t \<mapsto> take_stack c), frames := (frames s)(fr \<mapsto> ?f), workers := ?ws, deques := deques s\<rparr>"
  have u: "unlock_of (take_stack (lock_of w c)) = take_stack c"
    using d by (cases c) (simp add: unlock_of_def take_stack_def lock_of_def)
  have dq: "(deques s w)\<lparr>dq_owner := NO_WORKER, dq_mutex := False\<rparr> = deques s w" using d by (cases "deques s w") simp
  have hs: "has_stack (lock_of w c)" using ch(2) by (auto simp: has_stack_def)
  have f3: "closures ?s3 t = Some (take_stack c)" "frames ?s3 fr = Some ?f" "child_rmap (take_stack c) = child_rmap c" "wrmap ?s3 = wrmap s"
      "child_exn (take_stack c) = child_exn c" "user_exn (take_stack c) = user_exn c" "pending (take_stack c) = pending c"
    by (simp_all add: take_stack_def f2 pending_def fun_eq_iff)
  have run: "bindA (sync_decide w t (lock_of w c)) (sync_rest w fr t) s2 = thenA (sync_collect w fr t) (ret SYNC_READY) ?s3"
  proof -
    let ?s4 = "s2\<lparr>closures := (closures s2)(t \<mapsto> take_stack (lock_of w c)), frames := (frames s2)(fr \<mapsto> ?f), workers := ?ws\<rparr>"
    have c2: "closures s2 t = Some (lock_of w c)" "mutex_owner (lock_of w c) = w" "frame (lock_of w c) = Some fr" "frames s2 fr = Some f"
        "fiber_to_free (workers s2 w) = None" "current_stack_frame (workers s2 w) = Some fr"
      using d by (simp_all add: f2)
    have nc: "\<not> Closure_has_children (lock_of w c)" using ch(1) by simp
    have lk: "simulated_stolen (lock_of w c) = simulated_stolen c" "fiber (lock_of w c) = fiber c" "orig_rsp (lock_of w c) = orig_rsp c" by simp_all
    have ws: "(workers s2)(w := (workers s2 w)\<lparr>fiber_to_free := (if simulated_stolen c then None else fiber c)\<rparr>) = ?ws" by (simp add: f2)
    have rb: "bindA (ret SYNC_READY) (sync_rest w fr t) = sync_rest w fr t SYNC_READY" by (rule ext) (simp add: bindA_def)
    have "bindA (sync_decide w t (lock_of w c)) (sync_rest w fr t) s2 = thenA (setup_for_sync w t) (sync_rest w fr t SYNC_READY) s2"
      by (simp only: sync_decide_def nc if_False act_flat_run rb)
    also have "\<dots> = sync_rest w fr t SYNC_READY ?s4"
      by (simp only: setup_for_sync_run[OF c2(1-3) hs c2(4-6)] lk ws)
    also have "\<dots> = thenA (sync_collect w fr t) (ret SYNC_READY) ?s3"
    proof -
      have tk: "closures ?s4 t = Some (take_stack (lock_of w c))" "live_status (status (take_stack (lock_of w c)))" "mutex_owner (take_stack (lock_of w c)) = w"
        using d by (simp_all add: take_stack_def)
      have cu: "thenA (Closure_unlock w t) k ?s4 = k (?s4\<lparr>closures := (closures ?s4)(t \<mapsto> take_stack c)\<rparr>)" for k :: "(('v, 'a) sched_state_scheme, sync_result) act"
        by (rule Closure_unlock_run(2)[OF tk, unfolded u])
      have eq: "?s4\<lparr>closures := (closures ?s4)(t \<mapsto> take_stack c), deques := (deques s2)(w := (deques s2 w)\<lparr>dq_owner := NO_WORKER, dq_mutex := False\<rparr>)\<rparr> = ?s3"
        by (cases s2) (use f2 dq in \<open>simp del: if_split\<close>)
      show ?thesis unfolding sync_rest_def cu deque_unlock_self_run whenA_def using eq by (simp del: if_split)
    qed
    finally show ?thesis .
  qed
  define s3 where "s3 = ?s3"
  have e3: "wrmap s3 = wrmap s" "rmaps s3 = rmaps s" "hyperobjs s3 = hyperobjs s" "closures s3 = (closures s)(t \<mapsto> take_stack c)"
      "frames s3 = (frames s)(fr \<mapsto> ?f)" "workers s3 = ?ws" "deques s3 = deques s" "deleted_exns s3 = deleted_exns s"
    by (simp_all add: s3_def f2)
  have v3: "rviews s3 p = rviews s p" for p by (simp add: e3(2) cong: option.case_cong)
  have m3: "rmap_conf cap K s3 (child_rmap c)" "rmap_conf cap K s3 (wrmap s w)"
    using m(1,2) by (simp_all add: rmap_conf_cong[of _ s3 s] e3(2,3))
  have g3: "im_good n s3 (live + rmap_led (child_rmap c) + rmap_led (wrmap s w))"
    unfolding s3_def by (subst im_good_cong[of _ s2]) (simp_all add: good)
  obtain q s' where r: "sync_collect w fr t s3 = Inr ((), s')" "closures s' = (closures s3)(t \<mapsto> collected (take_stack c))"
      "frames s' = (frames s3)(fr \<mapsto> pending c ?f)" "workers s' = workers s3" "deques s' = deques s3"
      "deleted_exns s' = (if child_exn c = None then [] else case user_exn c of None \<Rightarrow> [] | Some e \<Rightarrow> [e]) @ deleted_exns s3"
      "wrmap s' = (wrmap s)(w := q)" "rmap_conf cap K s' q" "im_good n s' (live + rmap_led q)"
      "rviews s' q = combine (hyperobjs s3) (rviews s3 (child_rmap c)) (rviews s3 (wrmap s w))"
    using sync_collect_run[OF f3(1,2)[folded s3_def], of cap K w n live, unfolded f3(3) e3(1) f3(5-7), OF m3 m(3) g3 w] by (elim exE conjE) (rule that)
  have "bindA (sync_decide w t (lock_of w c)) (sync_rest w fr t) s2 = Inr (SYNC_READY, s')"
    unfolding run s3_def[symmetric] using r(1) by (simp add: thenA_def bindA_def)
  moreover have "closures s' = (closures s)(t \<mapsto> collected (take_stack c))" "frames s' = (frames s)(fr \<mapsto> pending c ?f)"
    using r(2,3) by (simp_all add: e3(4,5))
  ultimately show ?thesis
    using r(4-10)[unfolded e3(1,3,6-8) v3] by (intro exI conjI)
qed

section \<open>Both outcomes of a sync\<close>

text \<open>
  A sync of a stolen frame (C11): with children still running it answers \<open>SYNC_NOT_READY\<close>: the closure
  is suspended off the worker's deque with the worker's reducer map in \<open>user_rmap\<close>, its fiber is left
  for the worker to free, or kept when it holds a thrown exception, and nothing of another closure
  changes but its links in the deque. Without, it answers \<open>SYNC_READY\<close>: the frame goes on synced, on the
  stack of its leftmost child, the child's exception replaces (and so deletes) the frame's own one and is
  flagged as pending, and the worker's map is the children's followed by its own one, index by
  index in serial order; every lock is free again, and no block of the maps leaks.
\<close>

theorem Cilk_sync_outcome:
  fixes s :: "('v, 'a) sched_state_scheme"
  assumes sy: "syncing w fr t c f xs s" and st: "Closure_has_children c \<or> has_stack c"
    and m: "rmap_conf cap K s (child_rmap c)" "rmap_conf cap K s (wrmap s w)" "maps_distinct [child_rmap c, wrmap s w]"
    and fb: "left_fiber_ok n (live + rmap_led (child_rmap c) + rmap_led (wrmap s w)) w s" and w: "w < n"
  shows "if Closure_has_children c then
    \<exists>s'. Cilk_sync w fr s = Inr (SYNC_NOT_READY, s') \<and>
      map_option ready_erase (closures s' t) = Some (ready_erase (suspended (wrmap s w) c)) \<and> ready_owner s' t = Some NO_WORKER \<and>
      (\<forall>x. x \<noteq> t \<longrightarrow> map_option ready_erase (closures s' x) = map_option ready_erase (closures s x)) \<and>
      deque_rep w xs s' \<and> \<not> dq_mutex (deques s' w) \<and>
      frames s' = (frames s)(fr \<mapsto> f\<lparr>sf_worker := Filler_bf5\<rparr>) \<and>
      workers s' = (workers s)(w := (workers s w)\<lparr>fiber_to_free := (if user_exn c = None then fiber c else None)\<rparr>) \<and>
      wrmap s' = (wrmap s)(w := None) \<and> rmaps s' = rmaps s
   else
    \<exists>q s' F. Cilk_sync w fr s = Inr (SYNC_READY, s') \<and>
      closures s' = (closures s)(t \<mapsto> collected (take_stack c)) \<and>
      frames s' = (frames s)(fr \<mapsto> pending c ((cilkrts_set_synced f)\<lparr>sf_worker := W w, SP := orig_rsp c\<rparr>)) \<and>
      workers s' = (workers s)(w := (workers s w)\<lparr>fiber_to_free := (if simulated_stolen c then None else fiber c)\<rparr>) \<and>
      deques s' = deques s \<and>
      deleted_exns s' = (if child_exn c = None then [] else case user_exn c of None \<Rightarrow> [] | Some e \<Rightarrow> [e]) @ deleted_exns s \<and>
      wrmap s' = (wrmap s)(w := q) \<and> rmap_conf cap K s' q \<and> im_good n s' (live + fiber_led F + rmap_led q) \<and>
      rviews s' q = combine (hyperobjs s) (rviews s (child_rmap c)) (rviews s (wrmap s w))"
proof -
  let ?l = "live + rmap_led (child_rmap c) + rmap_led (wrmap s w)" let ?e = "sync_entered w t c s"
  have ee: "workers ?e = workers s" by (simp_all add: sync_entered_def)
  have fe: "left_fiber_ok n ?l w ?e" using fb by (simp only: left_fiber_ok_entered)
  obtain s2 F where s2: "free_left_fiber w ?e = Inr ((), s2)" "im_good n s2 (?l + fiber_led F)"
      "fiber_state.more s2 = fiber_state.more (?e\<lparr>workers := (workers s)(w := (workers s w)\<lparr>fiber_to_free := None\<rparr>)\<rparr>)"
    using free_left_fiber_run[OF fe w, unfolded ee] by (elim exE conjE) (rule that)
  have run: "Cilk_sync w fr s = bindA (sync_decide w t (lock_of w c)) (sync_rest w fr t) s2"
    unfolding Cilk_sync_run[OF sy] using s2(1) by (simp add: thenA_def bindA_def)
  have g: "im_good n s2 ((live + fiber_led F) + rmap_led (child_rmap c) + rmap_led (wrmap s w))" using s2(2) by (simp add: ac_simps)
  show ?thesis
  proof (cases "Closure_has_children c")
    case True
    then show ?thesis unfolding run if_P[OF True] by (rule sync_suspend_run[OF sy _ s2(3)])
  next
    case False
    then show ?thesis unfolding run if_not_P[OF False] using sync_ready_run[OF sy False _ s2(3) m g w] st by blast
  qed
qed

text \<open>A frame at a sync: the children that returned have left the exception 5 and the map at 65536, the frame
  itself has caught the exception 9, and \<open>j\<close> children are still running.\<close>

definition sync_closure_ex :: "nat \<Rightarrow> closure" where
  "sync_closure_ex j = Closure_init\<lparr>status := CLOSURE_RUNNING, join_counter := j, owner_ready_deque := 0, frame := Some 3,
     fiber := Some 80, fiber_child := Some 90, user_exn := Some 9, child_exn := Some 5, child_rmap := Some 65536, spawn_parent := Some 1\<rparr>"

definition sync_frame_ex :: stack_frame where
  "sync_frame_ex = \<lparr>flags = CILK_FRAME_STOLEN, magic = frame_magic, sf_call_parent = None, sf_worker = W 0, SP = None, FP = None\<rparr>"

definition sync_ex :: "nat \<Rightarrow> int list sched_state" where
  "sync_ex j = ret_ex\<lparr>closures := [7 \<mapsto> sync_closure_ex j], frames := [3 \<mapsto> sync_frame_ex],
     deques := (\<lambda>_. empty_deque)(0 := empty_deque\<lparr>top := Some 7, bottom := Some 7\<rparr>),
     workers := (\<lambda>_. idle_worker\<lparr>current_stack_frame := Some 3\<rparr>)\<rparr>"

lemma sync_ex_facts:
  "rmaps (sync_ex j) = rmaps ret_ex" "hyperobjs (sync_ex j) = hyperobjs ret_ex" "wrmap (sync_ex j) = wrmap ret_ex"
  "im_good 1 (sync_ex j) live = im_good 1 ret_ex live" "deleted_exns (sync_ex j) = []" "fiber_to_free (workers (sync_ex j) 0) = None"
  unfolding sync_ex_def by (rule im_good_cong | simp add: ret_ex_def empty_sched_def idle_worker_def Let_def)+

lemma sync_closure_ex_facts:
  "child_rmap (sync_closure_ex j) = Some 65536" "Closure_has_children (sync_closure_ex j) \<longleftrightarrow> j \<noteq> 0" "has_stack (sync_closure_ex j)"
  "child_exn (sync_closure_ex j) = Some 5" "user_exn (sync_closure_ex j) = Some 9"
  by (simp_all add: sync_closure_ex_def Closure_has_children_def has_stack_def Closure_init_def)

lemma sync_ex_syncing: "syncing 0 3 7 (sync_closure_ex j) sync_frame_ex [] (sync_ex j)"
  by (simp add: syncing_def sync_ex_def sync_closure_ex_def sync_frame_ex_def Closure_init_def empty_deque_def idle_worker_def
      cilkrts_stolen_def CILK_FRAME_STOLEN_def deque_rep_def deque_link_def NO_WORKER_def cilk_mutex_init_def)

lemma ret_ex_maps:
  "rmap_conf 4 (\<lambda>_. 7) ret_ex (Some 65536)" "rmap_conf 4 (\<lambda>_. 7) ret_ex (Some 65568)"
  "im_good 1 ret_ex ({#} + rmap_led (Some 65536) + rmap_led (Some 65568))"
  "combine (hyperobjs ret_ex) (rviews ret_ex (Some 65536)) (rviews ret_ex (Some 65568)) = [1 \<mapsto> (7, [1, 2, 3])]"
proof -
  show "rmap_conf 4 (\<lambda>_. 7) ret_ex (Some 65536)" "rmap_conf 4 (\<lambda>_. 7) ret_ex (Some 65568)"
    by (auto simp: rmap_conf_def ret_ex_facts map_ex_ok map_ex_views split: if_splits) (simp_all add: map_ex_def)
  have "im_good 1 ret_ex live = im_good 1 red_ex live" for live
    by (rule im_good_cong) (simp_all add: ret_ex_def red_ex_def empty_sched_def Let_def)
  then show "im_good 1 ret_ex ({#} + rmap_led (Some 65536) + rmap_led (Some 65568))"
    using red_ex_good by (simp add: add_mset_commute)
  show "combine (hyperobjs ret_ex) (rviews ret_ex (Some 65536)) (rviews ret_ex (Some 65568)) = [1 \<mapsto> (7, [1, 2, 3])]"
    by (simp add: ret_ex_facts map_ex_views combine_def cat_obj_def fun_eq_iff)
qed

theorem Cilk_sync_outcome_witness:
  "(\<exists>s'. Cilk_sync 0 3 (sync_ex 1) = Inr (SYNC_NOT_READY, s') \<and> deque_rep 0 [] s' \<and> wrmap s' 0 = None) \<and>
   (\<exists>q s'. Cilk_sync 0 3 (sync_ex 0) = Inr (SYNC_READY, s') \<and> wrmap s' 0 = q \<and> rviews s' q = [1 \<mapsto> (7, [1, 2, 3])] \<and> deleted_exns s' = [9])"
proof -
  have m: "rmap_conf 4 (\<lambda>_. 7) (sync_ex j) (child_rmap (sync_closure_ex j))" "rmap_conf 4 (\<lambda>_. 7) (sync_ex j) (wrmap (sync_ex j) 0)"
      "maps_distinct [child_rmap (sync_closure_ex j), wrmap (sync_ex j) 0]"
      "left_fiber_ok 1 ({#} + rmap_led (child_rmap (sync_closure_ex j)) + rmap_led (wrmap (sync_ex j) 0)) 0 (sync_ex j)" for j
    using ret_ex_maps(1,2) rmap_conf_cong[of _ "sync_ex j" ret_ex]
    by (simp_all only: sync_closure_ex_facts sync_ex_facts ret_ex_facts(5) left_fiber_ok_def ret_ex_maps(3) option.case) (simp_all add: maps_distinct_def)
  note o = Cilk_sync_outcome[OF sync_ex_syncing _ m zero_less_one]
  have v: "combine (hyperobjs (sync_ex j)) (rviews (sync_ex j) (child_rmap (sync_closure_ex j))) (rviews (sync_ex j) (wrmap (sync_ex j) 0)) =
      [1 \<mapsto> (7, [1, 2, 3])]" for j
    by (simp only: sync_closure_ex_facts sync_ex_facts ret_ex_facts(5) ret_ex_maps(4))
  have "\<exists>s'. Cilk_sync 0 3 (sync_ex 1) = Inr (SYNC_NOT_READY, s') \<and> deque_rep 0 [] s' \<and> wrmap s' 0 = None"
    using o[of 1] unfolding sync_closure_ex_facts(2) by auto
  moreover have "\<exists>q s'. Cilk_sync 0 3 (sync_ex 0) = Inr (SYNC_READY, s') \<and> wrmap s' 0 = q \<and> rviews s' q = [1 \<mapsto> (7, [1, 2, 3])] \<and> deleted_exns s' = [9]"
    using o[of 0] sync_closure_ex_facts(3)[of 0] unfolding sync_closure_ex_facts(2) v sync_closure_ex_facts(4,5) sync_ex_facts(5) by auto
  ultimately show ?thesis by blast
qed

end
