(* ===== verification/Spec2Isabelle.thy ===== *)
theory Spec2Isabelle
  imports Fiber_Correct Pedigree THE_Protocol Startup_Correct C_Reducers_Correct Sync_Correct
begin

text \<open>
  Verification of the multicilk runtime: OpenCilk's work-stealing scheduler with one runtime per
  thread (src/runtime).

  \<^bold>\<open>The program.\<close>  A thread that enters a Cilk function hands it to the workers of its
  runtime.  A worker runs frames depth first and pushes the parent of every spawned call onto a
  shadow stack, from whose other end idle workers steal.  A stolen frame is represented by a
  closure; the closures form a tree, wait on the ready deques of the workers and are suspended at
  a sync until their children have returned.  Stolen frames run on fibers (stacks) from pools,
  reducers keep one view per strand in maps that are merged in serial order when children return,
  and small objects of the runtime come from its own allocator.

  \<^bold>\<open>The theories\<close>, in the order of the calls:

  \<^item> \<open>Rts_Prelude\<close>: the state-and-fault actions the operations are written in, their rewrite
    rules, and \<open>cilk_mutex\<close> (runtime/mutex.c).
  \<^item> \<open>Internal_Malloc\<close>: runtime/internal-malloc.c.  \<open>Malloc_Correct\<close>: the blocks handed out, the
    free lists and the unused pool partition the chunks at every moment, the consistency check
    succeeds, allocation and freeing are total, and shutdown after balanced use succeeds.
  \<^item> \<open>Fiber\<close>: runtime/fiber.c and fiber-pool.c.  \<open>Fiber_Correct\<close>: under every interleaving of the
    workers the pools of fibers lose none and hand none out twice, and stay within their
    capacities; taking a fiber fails for lack of memory only.
  \<^item> \<open>Reducer_Map\<close>: runtime/cilkred_map.c and \<open>merge_two_rmaps\<close>.  \<open>Reducer_Correct\<close>: a merge
    combines the views in serial order, and what it does to the flag \<open>merging\<close>.
  \<^item> \<open>Sched_State\<close>: the data of the scheduler (runtime/cilk-internal.h, closure.h, readydeque.h,
    global.h).  \<open>Ready_Deque\<close>: runtime/readydeque.c, refined to sequences.  \<open>Closures\<close>:
    runtime/closure.c.
  \<^item> \<open>Scheduler\<close>: every handler of runtime/scheduler.c.  \<open>Return_Correct\<close>: the two loops of
    \<open>Closure_return\<close> reduce exceptions and reducer maps in serial order.  \<open>Sync_Correct\<close>: a sync
    suspends a frame with children still running and hands over what the worker holds for it, or
    goes on with the exceptions and reducer maps of the children taken up.
  \<^item> \<open>Reducer_Ids\<close> and \<open>Hyperobjects\<close>: runtime/reducer_impl.c, the manager of reducer ids (ids in
    use are distinct, freed ids come back) and the operations of the user program on hyperobjects.
  \<^item> \<open>C_Reducers\<close>: the predefined reducers of C programs (runtime/c_reducers.c and the C macros of
    include/cilk/reducer_op*.h and reducer_min_max.h) at every integer type.  \<open>C_Reducers_Correct\<close>:
    a run leaves the value of its serial run, whatever parts of it are stolen.  \<open>merge_two_rmaps_run\<close>
    ties the runs to the merge of \<open>Reducer_Map\<close>; the laws of a reducer are the locales \<open>reducer_spec\<close>
    and \<open>reducer_impl\<close>.
  \<^item> \<open>Pedigree\<close>: runtime/pedigree_globals.c and the pedigree parts of cilk2c_inlined.c: the random
    number of a strand depends on its pedigree only.
  \<^item> \<open>Abi\<close>: what compiled code calls around spawns, syncs and returns (runtime/cilk2c_inlined.c,
    cilk2c.c, personality.c).  \<open>Abi_Correct\<close>: without thieves a tree of spawns runs like calls up to
    the depth of the shadow stack; with a thief the return of a spawned frame is decided under the
    locks; an exception is taken up once.
  \<^item> \<open>THE_Protocol\<close>: the accesses of a worker and its thieves to \<open>head\<close>, \<open>tail\<close> and \<open>exc\<close> as
    interleaved steps.  No frame is run by both sides or lost, a return is always decided, and the
    handlers of \<open>Scheduler\<close> and \<open>Abi\<close> make the steps of the protocol.
  \<^item> \<open>C_Strings\<close>, \<open>Config_Parse\<close>, \<open>Options\<close>: the settings of a runtime.  \<open>cilk_cfg_from_env\<close>
    (cilk2c.c) reads back what was written and never fails but on one malformed value; the options
    (global.c) end up in range or stop with an assertion; the CPUs \<open>threads_init\<close> (init.c) binds the
    workers to are disjoint.
  \<^item> \<open>Startup\<close>: creation of a runtime, regions, callbacks and shutdown (runtime/init.c, global.c, and
    \<open>cilkify\<close>, \<open>uncilkify\<close>, \<open>cilk_thrd_init\<close>).  \<open>Region_Protocol\<close>: the thread that enters regions and
    its workers as interleaved steps over \<open>start\<close>, \<open>done\<close>, \<open>cilkified\<close>, \<open>terminate\<close> and
    \<open>exiting_worker\<close>; the root of a region runs once, and the region can always be left.
    \<open>Startup_Correct\<close>: the functions of \<open>Startup\<close> make the steps of that protocol, and callbacks run
    in the order of their registration at start-up and in the opposite order at shutdown.

  \<^bold>\<open>State and faults.\<close>  The state is one record that grows along the theories: allocator, fibers,
  reducer maps, scheduler, hyperobjects.  An operation is an action of type
  \<open>('s, 'a) act\<close>; a failed assertion carries file and line, so a theorem that an action returns
  \<open>Inr\<close> shows that no assertion on the path fails.  Pointers are addresses into heaps
  (functions to options), \<open>NULL\<close> is \<open>None\<close>.  A lock that is held makes an action \<open>Blocked\<close>.

  \<^bold>\<open>Bounds.\<close>  Loops over a structure of the state carry a bound on the number of passes; reaching it
  is the fault \<open>No_fuel\<close>, and the theorems show a result, never only partial correctness.
  \<open>Closure_return\<close> uses the bound 2: run without interference each of its loops settles in the
  second pass at the latest (\<open>return_rmap_serial\<close>, \<open>return_exn_first\<close>).  The scheduling loop and the
  search for a victim run until another thread sets \<open>done\<close>, so their bound is an argument and they
  stop with \<open>No_fuel\<close> only when \<open>done\<close> is still unset; what brings them to their end is the subject of
  \<open>Region_Protocol\<close>.  The loop of \<open>threads_init\<close> has a bound it provably never reaches
  (\<open>binding_disjoint\<close>).  Addresses are natural numbers; what the allocator
  hands out is compared with the chunks the system gave, and the theorems on fibers assume that
  those do not overlap (\<open>honest\<close>).  \<open>room\<close> says that the pool has not yet come to the end of the
  32-bit list of chunks.

  \<^bold>\<open>Concurrency.\<close>  A handler is an action that runs without interference, with its locks as state.
  Where the code relies on interleaving without a lock, the accesses are steps of a relation:
  \<open>THE_Protocol\<close>, \<open>Region_Protocol\<close> and the workers of \<open>Fiber_Correct\<close>.  Steps are sequentially
  consistent; the fences of the source are where the protocols need them.

  \<^bold>\<open>Not modelled.\<close>  Statistics and debug output (sched_stats.c, debug.c) decide nothing.  The
  interposition of thread functions through \<open>dlsym\<close> (cilk_c11_threads.c) and the two entry points
  personality-c.c and personality-cpp.c only pass calls on.  The saving of machine registers and the
  switch of stacks have no counterpart in the state.  The predefined C reducers for floating point
  types are left out because their operations are not associative, the C++ reducer library
  (include/cilk) because it is C++.  Tests, benchmarks and the files CMake generates are no part of
  the runtime.
\<close>

end
